(* ===== verification/Prelude.thy ===== *)
theory Prelude
  imports Main "HOL-Library.Word" "HOL-Library.AList" "HOL-Library.Sublist" "HOL-Library.Multiset"
    "HOL-Library.Code_Target_Nat"
begin

text \<open>
  Shared vocabulary of the development: bytes and byte strings, Go sets and maps used as
  sets, big- and little-endian reads and writes, and the generic lemmas the components share.

  \<^item> A Go \<^verbatim>\<open>[]byte\<close> is a \<open>byte list\<close>, a Go \<^verbatim>\<open>string\<close> a HOL \<open>string\<close> (a list of
    8-bit characters, which is what a Go string is).
  \<^item> A Go \<^verbatim>\<open>map[K]struct{}\<close> is a duplicate-free list grown by \<open>sadd\<close>. Go iterates such a map
    in an unspecified order, so results about iteration are stated up to \<open>set\<close>.
  \<^item> A Go \<^verbatim>\<open>map[K]V\<close> is an association list with distinct keys, updated by the library's
    \<open>AList.update\<close> and \<open>AList.delete\<close>.
\<close>

unbundle bit_operations_syntax

type_synonym byte = "8 word"
type_synonym bytes = "8 word list"

named_theorems sadd_simps \<open>facts on duplicate-free lists used as Go sets\<close>
named_theorems endian \<open>facts on endian reads and writes\<close>

section \<open>Go sets as duplicate-free lists\<close>

definition sadd :: "'a \<Rightarrow> 'a list \<Rightarrow> 'a list" where
  "sadd x xs = (if x \<in> set xs then xs else xs @ [x])"

lemma set_sadd [simp, sadd_simps]: "set (sadd x xs) = insert x (set xs)"
  by (auto simp: sadd_def)

lemma distinct_sadd [simp, sadd_simps]: "distinct (sadd x xs) = distinct xs"
  by (auto simp: sadd_def)

lemma length_sadd_le: "length (sadd x xs) \<le> Suc (length xs)"
  by (simp add: sadd_def)

lemma length_sadd_ge: "length xs \<le> length (sadd x xs)"
  by (simp add: sadd_def)

lemma set_fold_sadd [simp, sadd_simps]: "set (fold sadd xs ys) = set xs \<union> set ys"
  by (induction xs arbitrary: ys) auto

lemma distinct_fold_sadd [simp, sadd_simps]: "distinct (fold sadd xs ys) = distinct ys"
  by (induction xs arbitrary: ys) auto

section \<open>Association lists as Go maps\<close>

abbreviation wf_map :: "('k \<times> 'v) list \<Rightarrow> bool" where
  "wf_map m \<equiv> distinct (map fst m)"

lemma length_alist_update_le: "length (AList.update k v m) \<le> Suc (length m)"
  by (induction m) auto

lemma length_alist_update_mem:
  "k \<in> fst ` set m \<Longrightarrow> length (AList.update k v m) = length m"
  by (induction m) auto

lemma length_alist_delete_le: "length (AList.delete k m) \<le> length m"
  by (simp add: AList.delete_eq)

lemma set_alist_update_subset: "set (AList.update k v m) \<subseteq> insert (k, v) (set m)"
  by (induction m) auto

lemma set_alist_delete: "set (AList.delete k m) = {e \<in> set m. fst e \<noteq> k}"
  by (auto simp: AList.delete_eq)

lemma set_alist_update:
  "wf_map m \<Longrightarrow> set (AList.update k v m) = insert (k, v) {e \<in> set m. fst e \<noteq> k}"
  by (induction m) (auto simp: image_iff)

lemma keys_alist_update [simp]: "fst ` set (AList.update k v m) = insert k (fst ` set m)"
  by (induction m) auto

lemma keys_alist_delete [simp]: "fst ` set (AList.delete k m) = fst ` set m - {k}"
  by (auto simp: AList.delete_eq)

lemma values_alist_update:
  "(\<forall>e \<in> snd ` set m. P e) \<Longrightarrow> P v \<Longrightarrow> (\<forall>e \<in> snd ` set (AList.update k v m). P e)"
  by (induction m) auto

lemma wf_map_filter: "wf_map m \<Longrightarrow> wf_map (filter P m)"
  by (induction m) auto

lemma wf_map_update: "wf_map m \<Longrightarrow> wf_map (AList.update k v m)"
  by (rule distinct_update)

lemma wf_map_delete: "wf_map m \<Longrightarrow> wf_map (AList.delete k m)"
  by (rule distinct_delete)

lemma map_of_filter_wf:
  "wf_map m \<Longrightarrow> map_of (filter P m) k =
     (case map_of m k of None \<Rightarrow> None | Some v \<Rightarrow> if P (k, v) then Some v else None)"
proof (induction m)
  case (Cons e m)
  then show ?case
    by (cases e) (auto split: option.splits dest: map_of_SomeD simp: image_iff map_of_eq_None_iff)
qed simp

text \<open>A Go \<^verbatim>\<open>map[[n]byte]V\<close>: distinct keys of \<open>n\<close> bytes.\<close>

definition wf_keys :: "nat \<Rightarrow> (bytes \<times> 'v) list \<Rightarrow> bool" where
  "wf_keys n m \<longleftrightarrow> wf_map m \<and> (\<forall>k \<in> fst ` set m. length k = n)"

lemma wf_keys_Nil [simp]: "wf_keys n []"
  by (simp add: wf_keys_def)

lemma wf_keys_update: "wf_keys n m \<Longrightarrow> length k = n \<Longrightarrow> wf_keys n (AList.update k v m)"
  unfolding wf_keys_def keys_alist_update by (simp add: wf_map_update)

lemma wf_keys_delete: "wf_keys n m \<Longrightarrow> wf_keys n (AList.delete k m)"
  unfolding wf_keys_def keys_alist_delete by (auto simp: wf_map_delete)

lemma wf_keys_filter: "wf_keys n m \<Longrightarrow> wf_keys n (filter P m)"
  unfolding wf_keys_def using wf_map_filter by fastforce

lemma wf_keys_mset: "mset m = mset m' \<Longrightarrow> wf_keys n m \<Longrightarrow> wf_keys n m'"
  unfolding wf_keys_def by (metis mset_map mset_eq_imp_distinct_iff set_mset_mset)

text \<open>Go ranges over a map in an unspecified order. A function that stands for the order met in one
  call lists every entry once.\<close>

definition iterates :: "('a list \<Rightarrow> 'a list) \<Rightarrow> bool" where
  "iterates it \<longleftrightarrow> (\<forall>m. mset (it m) = mset m)"

lemma iterates_id: "iterates (\<lambda>m. m)" "iterates rev"
  by (simp_all add: iterates_def)

lemma iterates_set: "iterates it \<Longrightarrow> set (it m) = set m"
  by (metis iterates_def set_mset_mset)

lemma iterates_length: "iterates it \<Longrightarrow> length (it m) = length m"
  by (metis iterates_def size_mset)

lemma iterates_wf: "iterates it \<Longrightarrow> wf_map (it m) = wf_map m"
  by (metis iterates_def mset_eq_imp_distinct_iff mset_map)

lemma iterates_map_of: "iterates it \<Longrightarrow> wf_map m \<Longrightarrow> map_of (it m) = map_of m"
  by (metis iterates_set iterates_wf map_of_inject_set)

section \<open>Endian reads and writes\<close>

text \<open>\<open>be_nat\<close> and \<open>le_nat\<close> read a whole byte list; \<open>be_bytes n\<close> and \<open>le_bytes n\<close> write
  \<open>n\<close> bytes. They model \<^verbatim>\<open>encoding/binary\<close>'s BigEndian and LittleEndian accessors.\<close>

definition be_nat :: "bytes \<Rightarrow> nat" where
  "be_nat bs = foldl (\<lambda>a b. a * 256 + unat b) 0 bs"

fun le_nat :: "bytes \<Rightarrow> nat" where
  "le_nat [] = 0"
| "le_nat (b # bs) = unat b + 256 * le_nat bs"

fun le_bytes :: "nat \<Rightarrow> nat \<Rightarrow> bytes" where
  "le_bytes 0 v = []"
| "le_bytes (Suc n) v = of_nat (v mod 256) # le_bytes n (v div 256)"

definition be_bytes :: "nat \<Rightarrow> nat \<Rightarrow> bytes" where
  "be_bytes n v = rev (le_bytes n v)"

lemma unat_byte_lt [simp]: "unat (b :: byte) < 256"
  using unsigned_less [of b] by simp

lemma unat_of_nat_byte [simp]: "n < 256 \<Longrightarrow> unat (of_nat n :: byte) = n"
  by (simp add: unat_of_nat take_bit_eq_mod)

lemma be_nat_eq_le_nat: "be_nat bs = le_nat (rev bs)"
proof -
  have "foldl (\<lambda>a b. a * 256 + unat b) 0 (rev cs) = le_nat cs" for cs :: bytes
    by (induction cs) (simp_all add: algebra_simps)
  from this [of "rev bs"] show ?thesis
    by (simp add: be_nat_def)
qed

lemma length_le_bytes [simp, endian]: "length (le_bytes n v) = n"
  by (induction n arbitrary: v) auto

lemma length_be_bytes [simp, endian]: "length (be_bytes n v) = n"
  by (simp add: be_bytes_def)

lemma le_nat_bound: "le_nat bs < 256 ^ length bs"
proof (induction bs)
  case (Cons b bs)
  have "unat b + 256 * le_nat bs < 256 + 256 * le_nat bs"
    using unat_byte_lt [of b] by simp
  also have "\<dots> = 256 * Suc (le_nat bs)"
    by simp
  also have "\<dots> \<le> 256 * 256 ^ length bs"
    using Cons.IH by (intro mult_le_mono2) simp
  finally show ?case
    by simp
qed simp

lemma be_nat_bound: "be_nat bs < 256 ^ length bs"
  using le_nat_bound [of "rev bs"] by (simp add: be_nat_eq_le_nat)

lemma le_nat_le_bytes [simp, endian]: "v < 256 ^ n \<Longrightarrow> le_nat (le_bytes n v) = v"
proof (induction n arbitrary: v)
  case (Suc n)
  have "v div 256 < 256 ^ n"
    using Suc.prems by (simp add: less_mult_imp_div_less mult.commute)
  with Suc.IH [of "v div 256"] show ?case
    by simp
qed simp

lemma be_nat_be_bytes [simp, endian]: "v < 256 ^ n \<Longrightarrow> be_nat (be_bytes n v) = v"
  by (simp add: be_nat_eq_le_nat be_bytes_def)

lemma le_bytes_le_nat [simp, endian]: "le_bytes (length bs) (le_nat bs) = bs"
  by (induction bs) simp_all

lemma be_bytes_be_nat [simp, endian]: "be_bytes (length bs) (be_nat bs) = bs"
  using le_bytes_le_nat [of "rev bs"] by (simp add: be_bytes_def be_nat_eq_le_nat)

text \<open>Reads at an offset, and Go's slice expression \<^verbatim>\<open>xs[a:b]\<close> for \<open>a \<le> b \<le> length xs\<close>.\<close>

definition be16_at :: "bytes \<Rightarrow> nat \<Rightarrow> nat" where
  "be16_at p i = be_nat (take 2 (drop i p))"

definition be32_at :: "bytes \<Rightarrow> nat \<Rightarrow> 32 word" where
  "be32_at p i = of_nat (be_nat (take 4 (drop i p)))"

definition slice :: "nat \<Rightarrow> nat \<Rightarrow> 'a list \<Rightarrow> 'a list" where
  "slice a b xs = take (b - a) (drop a xs)"

lemma be16_at_append [simp]: "i + 2 \<le> length p \<Longrightarrow> be16_at (p @ q) i = be16_at p i"
  by (simp add: be16_at_def)

lemma slice_append: "b \<le> length p \<Longrightarrow> slice a b (p @ q) = slice a b p"
  by (simp add: slice_def)

lemma length_slice [simp]: "b \<le> length xs \<Longrightarrow> length (slice a b xs) = b - a"
  by (simp add: slice_def)

lemma be16_at_bound: "be16_at p i < 65536"
proof -
  have "be_nat (take 2 (drop i p)) < 256 ^ length (take 2 (drop i p))"
    by (rule be_nat_bound)
  also have "\<dots> \<le> 256 ^ 2"
    by (intro power_increasing) simp_all
  finally show ?thesis
    by (simp add: be16_at_def)
qed

lemma be16_at_be_bytes [simp]: "n < 65536 \<Longrightarrow> be16_at (p @ be_bytes 2 n @ q) (length p) = n"
  using be_nat_be_bytes [of n 2] by (simp add: be16_at_def)

section \<open>Text and bytes\<close>

text \<open>Go's conversions \<^verbatim>\<open>string(b)\<close> and \<^verbatim>\<open>[]byte(s)\<close>.\<close>

definition bstr :: "bytes \<Rightarrow> string" where
  "bstr bs = map (\<lambda>b. char_of (unat b)) bs"

definition sbytes :: "string \<Rightarrow> bytes" where
  "sbytes s = map (\<lambda>c. of_nat (of_char c)) s"

lemma length_bstr [simp]: "length (bstr bs) = length bs"
  by (simp add: bstr_def)

lemma length_sbytes [simp]: "length (sbytes s) = length s"
  by (simp add: sbytes_def)

lemma of_char_lt [simp]: "of_char c < (256 :: nat)"
  using nat_of_char_less_256 [of c] by simp

lemma sbytes_bstr [simp]: "sbytes (bstr bs) = bs"
  by (simp add: sbytes_def bstr_def map_idI comp_def)

lemma bstr_sbytes [simp]: "bstr (sbytes s) = s"
  by (simp add: sbytes_def bstr_def map_idI comp_def)

lemma bstr_inj [simp]: "bstr a = bstr b \<longleftrightarrow> a = b"
  by (metis sbytes_bstr)

end
