(* ===== verification/GoText.thy ===== *)
theory GoText
  imports Prelude
begin

text \<open>
  The part of Go's \<^verbatim>\<open>strings\<close> and \<^verbatim>\<open>unicode\<close> packages the program uses, on byte strings.

  Whitespace is \<^verbatim>\<open>unicode.IsSpace\<close>: the six ASCII bytes and the UTF-8 encodings of the
  other White_Space runes. \<open>space_len s\<close> is the width of the whitespace rune at the head of
  \<open>s\<close>, 0 when there is none. Scanning byte by byte instead of rune by rune gives the same
  fields, because no encoding of a whitespace rune starts with a continuation byte.

  \<open>toLower ul\<close> follows the two branches of \<^verbatim>\<open>strings.ToLower\<close>: the ASCII branch is computed,
  the table-driven branch for a string with a non-ASCII byte is the argument \<open>ul\<close>.
\<close>

named_theorems text_simps \<open>facts on the string operations\<close>

section \<open>Whitespace\<close>

definition ascii_space :: "char \<Rightarrow> bool" where
  "ascii_space c \<longleftrightarrow> (of_char c :: nat) \<in> {9, 10, 11, 12, 13, 32}"

definition is_ascii :: "char \<Rightarrow> bool" where
  "is_ascii c \<longleftrightarrow> (of_char c :: nat) < 128"

definition rune2 :: "nat \<Rightarrow> nat \<Rightarrow> string" where
  "rune2 a b = [char_of a, char_of b]"

definition rune3 :: "nat \<Rightarrow> nat \<Rightarrow> nat \<Rightarrow> string" where
  "rune3 a b c = [char_of a, char_of b, char_of c]"

definition wide_spaces :: "string list" where
  "wide_spaces = [rune2 0xC2 0x85, rune2 0xC2 0xA0, rune3 0xE1 0x9A 0x80] @
     map (rune3 0xE2 0x80) [0x80, 0x81, 0x82, 0x83, 0x84, 0x85, 0x86, 0x87, 0x88, 0x89, 0x8A,
       0xA8, 0xA9, 0xAF] @ [rune3 0xE2 0x81 0x9F, rune3 0xE3 0x80 0x80]"

definition space_len :: "string \<Rightarrow> nat" where
  "space_len s = (case s of [] \<Rightarrow> 0
     | c # _ \<Rightarrow> if ascii_space c then 1
       else if is_ascii c then 0
       else (case filter (\<lambda>w. prefix w s) wide_spaces of [] \<Rightarrow> 0 | w # _ \<Rightarrow> length w))"

definition space_len_end :: "string \<Rightarrow> nat" where
  "space_len_end s = (case rev s of [] \<Rightarrow> 0
     | c # _ \<Rightarrow> if ascii_space c then 1
       else if is_ascii c then 0
       else (case filter (\<lambda>w. suffix w s) wide_spaces of [] \<Rightarrow> 0 | w # _ \<Rightarrow> length w))"

lemma space_len_Nil [simp]: "space_len [] = 0"
  by (simp add: space_len_def)

lemma wide_spaces_nonempty: "w \<in> set wide_spaces \<Longrightarrow> 0 < length w"
  by (auto simp: wide_spaces_def rune2_def rune3_def)

function trim_left :: "string \<Rightarrow> string" where
  "trim_left s = (let n = space_len s in if n = 0 then s else trim_left (drop n s))"
  by pat_completeness auto
termination
  by (relation "measure length") (auto simp: space_len_def split: list.splits if_splits)

function trim_right :: "string \<Rightarrow> string" where
  "trim_right s = (let n = space_len_end s in if n = 0 then s
     else trim_right (take (length s - n) s))"
  by pat_completeness auto
termination
  by (relation "measure length") (auto simp: space_len_end_def split: list.splits if_splits)

declare trim_left.simps [simp del] trim_right.simps [simp del]

definition TrimSpace :: "string \<Rightarrow> string" where
  "TrimSpace s = trim_right (trim_left s)"

section \<open>Case folding\<close>

definition is_upper :: "char \<Rightarrow> bool" where
  "is_upper c \<longleftrightarrow> 65 \<le> (of_char c :: nat) \<and> (of_char c :: nat) \<le> 90"

definition is_lower :: "char \<Rightarrow> bool" where
  "is_lower c \<longleftrightarrow> 97 \<le> (of_char c :: nat) \<and> (of_char c :: nat) \<le> 122"

definition is_digit :: "char \<Rightarrow> bool" where
  "is_digit c \<longleftrightarrow> 48 \<le> (of_char c :: nat) \<and> (of_char c :: nat) \<le> 57"

definition lower_ascii :: "char \<Rightarrow> char" where
  "lower_ascii c = (if is_upper c then char_of ((of_char c :: nat) + 32) else c)"

definition upper_ascii :: "char \<Rightarrow> char" where
  "upper_ascii c = (if is_lower c then char_of ((of_char c :: nat) - 32) else c)"

definition toLower :: "(string \<Rightarrow> string) \<Rightarrow> string \<Rightarrow> string" where
  "toLower ul s = (if list_all is_ascii s then map lower_ascii s else ul s)"

lemma of_char_lower_ascii:
  "(of_char (lower_ascii c) :: nat) = (if is_upper c then of_char c + 32 else of_char c)"
  by (auto simp: lower_ascii_def is_upper_def)

lemma lower_ascii_not_upper [text_simps]: "\<not> is_upper (lower_ascii c)"
  by (auto simp: is_upper_def of_char_lower_ascii)

lemma lower_ascii_idem [simp, text_simps]: "lower_ascii (lower_ascii c) = lower_ascii c"
  using lower_ascii_not_upper [of c] by (simp add: lower_ascii_def)

lemma is_ascii_lower [simp, text_simps]: "is_ascii (lower_ascii c) = is_ascii c"
  by (auto simp: is_ascii_def of_char_lower_ascii is_upper_def)

lemma toLower_idem_ascii:
  "list_all is_ascii s \<Longrightarrow> toLower ul (toLower ul s) = toLower ul s"
  by (simp add: toLower_def list_all_iff)

section \<open>Prefixes, suffixes, searching\<close>

definition HasPrefix :: "string \<Rightarrow> string \<Rightarrow> bool" where
  "HasPrefix s p \<longleftrightarrow> take (length p) s = p"

definition HasSuffix :: "string \<Rightarrow> string \<Rightarrow> bool" where
  "HasSuffix s p \<longleftrightarrow> length p \<le> length s \<and> drop (length s - length p) s = p"

definition TrimPrefix :: "string \<Rightarrow> string \<Rightarrow> string" where
  "TrimPrefix s p = (if HasPrefix s p then drop (length p) s else s)"

definition TrimSuffix :: "string \<Rightarrow> string \<Rightarrow> string" where
  "TrimSuffix s p = (if HasSuffix s p then take (length s - length p) s else s)"

fun IndexByte :: "'a list \<Rightarrow> 'a \<Rightarrow> nat option" where
  "IndexByte [] c = None"
| "IndexByte (x # xs) c = (if x = c then Some 0 else map_option Suc (IndexByte xs c))"

fun IndexStr :: "string \<Rightarrow> string \<Rightarrow> nat option" where
  "IndexStr [] p = (if p = [] then Some 0 else None)"
| "IndexStr (x # xs) p = (if HasPrefix (x # xs) p then Some 0 else map_option Suc (IndexStr xs p))"

definition ContainsStr :: "string \<Rightarrow> string \<Rightarrow> bool" where
  "ContainsStr s p \<longleftrightarrow> IndexStr s p \<noteq> None"

definition Cut :: "string \<Rightarrow> char \<Rightarrow> (string \<times> string) option" where
  "Cut s c = map_option (\<lambda>i. (take i s, drop (Suc i) s)) (IndexByte s c)"

lemma HasPrefix_iff [text_simps]: "HasPrefix s p \<longleftrightarrow> (\<exists>t. s = p @ t)"
  by (metis HasPrefix_def append_eq_conv_conj append_take_drop_id)

lemma HasSuffix_iff [text_simps]: "HasSuffix s p \<longleftrightarrow> (\<exists>t. s = t @ p)"
  by (auto simp: HasSuffix_def) (metis append_take_drop_id)

lemma TrimSuffix_append [simp, text_simps]: "TrimSuffix (t @ p) p = t"
  by (simp add: TrimSuffix_def HasSuffix_def)

lemma TrimPrefix_append [simp, text_simps]: "TrimPrefix (p @ t) p = t"
  by (simp add: TrimPrefix_def HasPrefix_def)

lemma IndexByte_None [text_simps]: "IndexByte xs c = None \<longleftrightarrow> c \<notin> set xs"
  by (induction xs) auto

lemma IndexByte_SomeD:
  "IndexByte xs c = Some i \<Longrightarrow> i < length xs \<and> xs ! i = c \<and> c \<notin> set (take i xs)"
  by (induction xs arbitrary: i) (auto split: if_splits)

lemma IndexByte_append:
  "c \<notin> set xs \<Longrightarrow> IndexByte (xs @ c # ys) c = Some (length xs)"
  by (induction xs) auto

lemma Cut_append: "c \<notin> set a \<Longrightarrow> Cut (a @ c # b) c = Some (a, b)"
  by (simp add: Cut_def IndexByte_append)

lemma IndexStr_singleton: "IndexStr s [c] = IndexByte s c"
  by (induction s) (auto simp: HasPrefix_def)

lemma ContainsStr_singleton [simp, text_simps]: "ContainsStr s [c] \<longleftrightarrow> c \<in> set s"
  by (simp add: ContainsStr_def IndexStr_singleton IndexByte_None)

section \<open>Splitting into fields\<close>

text \<open>\<^verbatim>\<open>strings.FieldsFunc\<close>, with the separator test as the width of the separator at the head
  of the remaining input; \<open>cur\<close> is the current field, reversed.\<close>

function fieldsFunc :: "(string \<Rightarrow> nat) \<Rightarrow> string \<Rightarrow> string \<Rightarrow> string list" where
  "fieldsFunc sep [] cur = (if cur = [] then [] else [rev cur])"
| "fieldsFunc sep (c # cs) cur = (let n = sep (c # cs) in
     if n = 0 then fieldsFunc sep cs (c # cur)
     else (if cur = [] then [] else [rev cur]) @ fieldsFunc sep (drop (n - 1) cs) [])"
  by pat_completeness auto
termination
  by (relation "measure (\<lambda>(_, s, _). length s)") auto

definition Fields :: "string \<Rightarrow> string list" where
  "Fields s = fieldsFunc space_len s []"

lemma fieldsFunc_nonempty: "f \<in> set (fieldsFunc sep s cur) \<Longrightarrow> f \<noteq> []"
  by (induction sep s cur rule: fieldsFunc.induct) (auto simp: Let_def split: if_splits)

lemma fieldsFunc_no_sep1:
  assumes "\<forall>cs. sep (x # cs) \<noteq> 0"
  shows "x \<notin> set cur \<Longrightarrow> f \<in> set (fieldsFunc sep s cur) \<Longrightarrow> x \<notin> set f"
  using assms
proof (induction sep s cur rule: fieldsFunc.induct)
  case (2 sep c cs cur)
  then show ?case
    by (cases "c = x") (auto simp: Let_def split: if_splits)
qed (auto split: if_splits)

text \<open>\<^verbatim>\<open>strings.Split\<close> on a one-byte separator.\<close>

fun splitOn :: "'a \<Rightarrow> 'a list \<Rightarrow> 'a list list" where
  "splitOn c [] = [[]]"
| "splitOn c (x # xs) = (if x = c then [] # splitOn c xs
     else (case splitOn c xs of [] \<Rightarrow> [[x]] | y # ys \<Rightarrow> (x # y) # ys))"

lemma splitOn_nonempty [simp]: "splitOn c xs \<noteq> []"
  by (induction xs) (auto split: list.splits)

lemma splitOn_no_sep: "f \<in> set (splitOn c xs) \<Longrightarrow> c \<notin> set f"
proof (induction xs arbitrary: f)
  case (Cons x xs)
  then show ?case
    by (cases "splitOn c xs") (auto split: if_splits)
qed simp

section \<open>Decimal and hexadecimal text\<close>

fun dec_rev :: "nat \<Rightarrow> nat \<Rightarrow> string" where
  "dec_rev 0 n = []"
| "dec_rev (Suc k) n = char_of (48 + n mod 10) # (if n < 10 then [] else dec_rev k (n div 10))"

text \<open>The decimal text of a number; \<open>Suc n\<close> steps are always enough, since a step divides by ten.\<close>

definition itoa :: "nat \<Rightarrow> string" where
  "itoa n = rev (dec_rev (Suc n) n)"

definition hex_digit :: "nat \<Rightarrow> char" where
  "hex_digit d = char_of (if d < 10 then 48 + d else 87 + d)"

definition digit_val :: "char \<Rightarrow> nat" where
  "digit_val c = of_char c - 48"

definition hex_val :: "char \<Rightarrow> nat option" where
  "hex_val c = (if is_digit c then Some (of_char c - 48)
     else if 97 \<le> (of_char c :: nat) \<and> (of_char c :: nat) \<le> 102 then Some (of_char c - 87)
     else if 65 \<le> (of_char c :: nat) \<and> (of_char c :: nat) \<le> 70 then Some (of_char c - 55)
     else None)"

lemma hex_val_lt: "hex_val c = Some v \<Longrightarrow> v < 16"
  by (auto simp: hex_val_def is_digit_def split: if_splits)

lemma hex_val_hex_digit [simp]: "d < 16 \<Longrightarrow> hex_val (hex_digit d) = Some d"
  by (auto simp: hex_val_def hex_digit_def is_digit_def)

text \<open>\<^verbatim>\<open>strings.EqualFold\<close> against an ASCII string. Two non-ASCII runes fold to ASCII letters: U+017F
  (bytes C5 BF) to s and U+212A (bytes E2 84 AA) to k.\<close>

fun fold_ascii :: "string \<Rightarrow> string" where
  "fold_ascii [] = []"
| "fold_ascii (c # cs) =
     (if HasPrefix (c # cs) (rune2 0xC5 0xBF) then CHR ''s'' # fold_ascii (drop 1 cs)
      else if HasPrefix (c # cs) (rune3 0xE2 0x84 0xAA) then CHR ''k'' # fold_ascii (drop 2 cs)
      else lower_ascii c # fold_ascii cs)"

definition EqualFold :: "string \<Rightarrow> string \<Rightarrow> bool" where
  "EqualFold s t \<longleftrightarrow> fold_ascii s = map lower_ascii t"

end
