(* ===== verification/GoNet.thy ===== *)
theory GoNet
  imports GoText
begin

text \<open>
  The part of Go's \<^verbatim>\<open>net\<close> and \<^verbatim>\<open>net/netip\<close> packages the policy code is written against: textual
  addresses (\<open>ParseIP\<close>, \<open>ParseCIDR\<close>), the 4-/16-byte forms of \<^verbatim>\<open>net.IP\<close> (\<open>To4\<close>, \<open>To16\<close>),
  masks, membership of an address in a network, and printing. A \<^verbatim>\<open>net.IP\<close> is a byte list (nil is
  \<open>[]\<close>), a \<^verbatim>\<open>*net.IPNet\<close> an option of a record.

  The facts the components use: \<open>IPNet_Contains\<close> is agreement on the first \<open>n\<close> bits, a mask built
  by \<open>CIDRMask\<close> has the size it was built with, and printing then parsing an IPv4 address gives
  the address back.
\<close>

named_theorems net_simps \<open>facts on addresses and masks\<close>

section \<open>Addresses\<close>

definition v4InV6Prefix :: bytes where
  "v4InV6Prefix = [0, 0, 0, 0, 0, 0, 0, 0, 0, 0, 0xff, 0xff]"

definition To4 :: "bytes \<Rightarrow> bytes option" where
  "To4 ip = (if length ip = 4 then Some ip
     else if length ip = 16 \<and> take 12 ip = v4InV6Prefix then Some (drop 12 ip)
     else None)"

definition To16 :: "bytes \<Rightarrow> bytes option" where
  "To16 ip = (if length ip = 4 then Some (v4InV6Prefix @ ip)
     else if length ip = 16 then Some ip else None)"

definition IPv6loopback :: bytes where
  "IPv6loopback = replicate 15 0 @ [1]"

definition IP_Equal :: "bytes \<Rightarrow> bytes \<Rightarrow> bool" where
  "IP_Equal ip x = (if length ip = length x then ip = x
     else if length ip = 4 \<and> length x = 16 then take 12 x = v4InV6Prefix \<and> ip = drop 12 x
     else if length ip = 16 \<and> length x = 4 then take 12 ip = v4InV6Prefix \<and> drop 12 ip = x
     else False)"

definition IsLoopback :: "bytes \<Rightarrow> bool" where
  "IsLoopback ip = (case To4 ip of Some ip4 \<Rightarrow> hd ip4 = 127 | None \<Rightarrow> IP_Equal ip IPv6loopback)"

lemma length_v4InV6Prefix [simp]: "length v4InV6Prefix = 12"
  by (simp add: v4InV6Prefix_def)

lemma To4_length: "To4 ip = Some a \<Longrightarrow> length a = 4"
  by (auto simp: To4_def split: if_splits)

lemma To16_length: "To16 ip = Some a \<Longrightarrow> length a = 16"
  by (auto simp: To16_def split: if_splits)

lemma To4_4 [simp, net_simps]: "length ip = 4 \<Longrightarrow> To4 ip = Some ip"
  by (simp add: To4_def)

lemma To4_mapped [simp, net_simps]: "length a = 4 \<Longrightarrow> To4 (v4InV6Prefix @ a) = Some a"
  by (simp add: To4_def)

lemma To4_idem: "To4 ip = Some a \<Longrightarrow> To4 a = Some a"
  using To4_length by simp

lemma To4_None_To16: "To4 ip = None \<Longrightarrow> To16 ip = (if length ip = 16 then Some ip else None)"
  by (auto simp: To4_def To16_def split: if_splits)

section \<open>Textual addresses\<close>

datatype addr = A4 bytes | A6 bytes

fun v4_loop :: "string \<Rightarrow> nat \<Rightarrow> nat \<Rightarrow> bytes \<Rightarrow> bytes option" where
  "v4_loop [] val digLen fs = (if length fs < 3 then None else Some (fs @ [of_nat val]))"
| "v4_loop (c # cs) val digLen fs =
     (if is_digit c then
        (if digLen = 1 \<and> val = 0 then None
         else let v = val * 10 + digit_val c in
           if v > 255 then None else v4_loop cs v (Suc digLen) fs)
      else if c = CHR ''.'' then
        (if digLen = 0 \<or> cs = [] then None
         else if length fs = 3 then None
         else v4_loop cs 0 0 (fs @ [of_nat val]))
      else None)"

definition parseIPv4Fields :: "string \<Rightarrow> bytes option" where
  "parseIPv4Fields s = v4_loop s 0 0 []"

fun hex_group :: "string \<Rightarrow> nat \<Rightarrow> nat \<Rightarrow> (nat \<times> nat) option" where
  "hex_group [] acc off = Some (acc, off)"
| "hex_group (c # cs) acc off = (case hex_val c of None \<Rightarrow> Some (acc, off)
     | Some d \<Rightarrow> if off > 3 then None
       else if acc * 16 + d > 65535 then None
       else hex_group cs (acc * 16 + d) (Suc off))"

function v6_loop :: "string \<Rightarrow> bytes \<Rightarrow> nat option \<Rightarrow> (string \<times> bytes \<times> nat option) option" where
  "v6_loop s ip ell = (if 16 \<le> length ip then Some (s, ip, ell)
     else (case hex_group s 0 0 of None \<Rightarrow> None
     | Some (acc, off) \<Rightarrow>
       if off = 0 then None
       else if off < length s \<and> s ! off = CHR ''.'' then
         (if ell = None \<and> length ip \<noteq> 12 then None
          else if 16 < length ip + 4 then None
          else (case parseIPv4Fields s of None \<Rightarrow> None | Some f \<Rightarrow> Some ([], ip @ f, ell)))
       else (let ip' = ip @ be_bytes 2 acc; s' = drop off s in
         if s' = [] then Some ([], ip', ell)
         else if hd s' \<noteq> CHR '':'' then None
         else if length s' = 1 then None
         else if hd (tl s') = CHR '':'' then
           (if ell \<noteq> None then None
            else if tl (tl s') = [] then Some ([], ip', Some (length ip'))
            else v6_loop (tl (tl s')) ip' (Some (length ip')))
         else v6_loop (tl s') ip' ell)))"
  by pat_completeness auto
termination
  by (relation "measure (\<lambda>(_, ip, _). 16 - length ip)") auto

declare v6_loop.simps [simp del]

definition expand_ellipsis :: "bytes \<Rightarrow> nat option \<Rightarrow> bytes option" where
  "expand_ellipsis ip ell = (if length ip < 16
     then (case ell of None \<Rightarrow> None
       | Some k \<Rightarrow> Some (take k ip @ replicate (16 - length ip) 0 @ drop k ip))
     else if ell \<noteq> None then None else Some ip)"

text \<open>An address with a zone is refused by both callers, so a \<^verbatim>\<open>%\<close> anywhere is a failure.\<close>

definition parseIPv6 :: "string \<Rightarrow> bytes option" where
  "parseIPv6 s = (if CHR ''%'' \<in> set s then None
     else let lead = HasPrefix s ''::''; s1 = (if lead then drop 2 s else s);
              ell = (if lead then Some 0 else None) in
       if lead \<and> s1 = [] then Some (replicate 16 0)
       else (case v6_loop s1 [] ell of None \<Rightarrow> None
         | Some (rest, ip, e) \<Rightarrow> if rest \<noteq> [] then None else expand_ellipsis ip e))"

fun addr_kind :: "string \<Rightarrow> char option" where
  "addr_kind [] = None"
| "addr_kind (c # cs) = (if c \<in> {CHR ''.'', CHR '':'', CHR ''%''} then Some c else addr_kind cs)"

definition ParseAddr :: "string \<Rightarrow> addr option" where
  "ParseAddr s = (if addr_kind s = Some (CHR ''.'') then map_option A4 (parseIPv4Fields s)
     else if addr_kind s = Some (CHR '':'') then map_option A6 (parseIPv6 s)
     else None)"

fun As16 :: "addr \<Rightarrow> bytes" where
  "As16 (A4 b) = v4InV6Prefix @ b"
| "As16 (A6 b) = b"

fun BitLen :: "addr \<Rightarrow> nat" where
  "BitLen (A4 b) = 32"
| "BitLen (A6 b) = 128"

definition ParseIP :: "string \<Rightarrow> bytes option" where
  "ParseIP s = map_option As16 (ParseAddr s)"

section \<open>Masks and networks\<close>

record ipnet =
  net_ip :: bytes
  net_mask :: bytes

fun cidr_mask_bytes :: "nat \<Rightarrow> nat \<Rightarrow> bytes" where
  "cidr_mask_bytes 0 n = []"
| "cidr_mask_bytes (Suc k) n = (if 8 \<le> n then 0xff # cidr_mask_bytes k (n - 8)
     else NOT (drop_bit n 0xff) # cidr_mask_bytes k 0)"

definition CIDRMask :: "nat \<Rightarrow> nat \<Rightarrow> bytes" where
  "CIDRMask ones bits = cidr_mask_bytes (bits div 8) ones"

definition IP_Mask :: "bytes \<Rightarrow> bytes \<Rightarrow> bytes" where
  "IP_Mask ip0 m0 = (let
     m = (if length m0 = 16 \<and> length ip0 = 4 \<and> list_all (\<lambda>b. b = 0xff) (take 12 m0)
       then drop 12 m0 else m0);
     ip = (if length m = 4 \<and> length ip0 = 16 \<and> take 12 ip0 = v4InV6Prefix
       then drop 12 ip0 else ip0)
   in if length ip \<noteq> length m then [] else map2 (AND) ip m)"

fun dtoi_loop :: "string \<Rightarrow> nat \<Rightarrow> nat \<Rightarrow> (nat \<times> nat) option" where
  "dtoi_loop [] n i = Some (n, i)"
| "dtoi_loop (c # cs) n i = (if is_digit c
     then (let m = n * 10 + digit_val c in if 0xFFFFFF \<le> m then None else dtoi_loop cs m (Suc i))
     else Some (n, i))"

definition dtoi :: "string \<Rightarrow> (nat \<times> nat) option" where
  "dtoi s = (case dtoi_loop s 0 0 of None \<Rightarrow> None
     | Some (n, i) \<Rightarrow> if i = 0 then None else Some (n, i))"

definition ParseCIDR :: "string \<Rightarrow> (bytes \<times> ipnet) option" where
  "ParseCIDR s = (case Cut s (CHR ''/'') of None \<Rightarrow> None
     | Some (a, ms) \<Rightarrow>
       (case ParseAddr a of None \<Rightarrow> None
        | Some ad \<Rightarrow>
          (case dtoi ms of None \<Rightarrow> None
           | Some (n, i) \<Rightarrow>
             if i \<noteq> length ms \<or> BitLen ad < n then None
             else let m = CIDRMask n (BitLen ad); ip16 = As16 ad in
               Some (ip16, \<lparr>net_ip = IP_Mask ip16 m, net_mask = m\<rparr>))))"

fun lead_ones :: "nat \<Rightarrow> byte \<Rightarrow> nat \<Rightarrow> nat \<times> byte" where
  "lead_ones 0 v n = (n, v)"
| "lead_ones (Suc k) v n = (if v AND 0x80 \<noteq> 0 then lead_ones k (push_bit 1 v) (Suc n) else (n, v))"

text \<open>Eight steps are enough for a byte: each step shifts one bit out.\<close>

fun simpleMaskLength :: "bytes \<Rightarrow> nat \<Rightarrow> nat option" where
  "simpleMaskLength [] n = Some n"
| "simpleMaskLength (v # vs) n = (if v = 0xff then simpleMaskLength vs (n + 8)
     else (case lead_ones 8 v n of (m, r) \<Rightarrow>
       if r \<noteq> 0 then None else if list_all (\<lambda>b. b = 0) vs then Some m else None))"

definition IPMask_Size :: "bytes \<Rightarrow> nat \<times> nat" where
  "IPMask_Size m = (case simpleMaskLength m 0 of None \<Rightarrow> (0, 0) | Some n \<Rightarrow> (n, 8 * length m))"

definition networkNumberAndMask :: "ipnet \<Rightarrow> (bytes \<times> bytes) option" where
  "networkNumberAndMask n = (let ip = (case To4 (net_ip n) of Some a \<Rightarrow> a | None \<Rightarrow> net_ip n) in
     if length ip \<noteq> 4 \<and> length ip \<noteq> 16 then None
     else if length (net_mask n) = 4 then (if length ip \<noteq> 4 then None else Some (ip, net_mask n))
     else if length (net_mask n) = 16
       then Some (ip, if length ip = 4 then drop 12 (net_mask n) else net_mask n)
     else None)"

definition IPNet_Contains :: "ipnet \<Rightarrow> bytes \<Rightarrow> bool" where
  "IPNet_Contains n ip0 = (let ip = (case To4 ip0 of Some a \<Rightarrow> a | None \<Rightarrow> ip0) in
     (case networkNumberAndMask n of None \<Rightarrow> ip = []
      | Some (nn, m) \<Rightarrow> length ip = length nn \<and> map2 (AND) nn m = map2 (AND) ip m))"

section \<open>Printing\<close>

definition v4_string :: "bytes \<Rightarrow> string" where
  "v4_string a = itoa (unat (a ! 0)) @ ''.'' @ itoa (unat (a ! 1)) @ ''.'' @
     itoa (unat (a ! 2)) @ ''.'' @ itoa (unat (a ! 3))"

fun hex_trim :: "nat \<Rightarrow> nat \<Rightarrow> string" where
  "hex_trim 0 n = []"
| "hex_trim (Suc k) n = (if n < 16 then [] else hex_trim k (n div 16)) @ [hex_digit (n mod 16)]"

text \<open>The eight 16-bit groups of an IPv6 address, and the first longest run of at least two zero
  groups (\<^verbatim>\<open>netip.Addr.appendTo6\<close>).\<close>

fun groups :: "bytes \<Rightarrow> nat list" where
  "groups (a # b # r) = (unat a * 256 + unat b) # groups r"
| "groups _ = []"

definition zero_run :: "nat list \<Rightarrow> nat \<Rightarrow> nat" where
  "zero_run gs i = length (takeWhile (\<lambda>g. g = 0) (drop i gs))"

definition best_run :: "nat list \<Rightarrow> (nat \<times> nat) option" where
  "best_run gs = fold (\<lambda>i best. let l = zero_run gs i in
     if 2 \<le> l \<and> (case best of None \<Rightarrow> True | Some (_, bl) \<Rightarrow> bl < l) then Some (i, l) else best)
     [0 ..< length gs] None"

definition join_colon :: "nat list \<Rightarrow> string" where
  "join_colon gs = (case gs of [] \<Rightarrow> [] | g # r \<Rightarrow>
     hex_trim 4 g @ concat (map (\<lambda>x. '':'' @ hex_trim 4 x) r))"

definition v6_string :: "bytes \<Rightarrow> string" where
  "v6_string a = (let gs = groups a in case best_run gs of
     None \<Rightarrow> join_colon gs
   | Some (i, l) \<Rightarrow> join_colon (take i gs) @ ''::'' @ join_colon (drop (i + l) gs))"

definition IP_String :: "bytes \<Rightarrow> string" where
  "IP_String ip = (if ip = [] then ''<nil>''
     else if length ip \<noteq> 4 \<and> length ip \<noteq> 16
       then CHR ''?'' # concat (map (\<lambda>b. [hex_digit (unat b div 16), hex_digit (unat b mod 16)]) ip)
     else (case To4 ip of Some a \<Rightarrow> v4_string a | None \<Rightarrow> v6_string ip))"

definition IPMask_String :: "bytes \<Rightarrow> string" where
  "IPMask_String m = (if m = [] then ''<nil>''
     else concat (map (\<lambda>b. [hex_digit (unat b div 16), hex_digit (unat b mod 16)]) m))"

definition IPNet_String :: "ipnet \<Rightarrow> string" where
  "IPNet_String n = (case networkNumberAndMask n of None \<Rightarrow> ''<nil>''
     | Some (nn, m) \<Rightarrow> (case simpleMaskLength m 0 of
         None \<Rightarrow> IP_String nn @ ''/'' @ IPMask_String m
       | Some l \<Rightarrow> IP_String nn @ ''/'' @ itoa l))"

section \<open>Bits of an address\<close>

definition byte_bits :: "byte \<Rightarrow> bool list" where
  "byte_bits b = map (bit b) [7, 6, 5, 4, 3, 2, 1, 0]"

definition addr_bits :: "bytes \<Rightarrow> bool list" where
  "addr_bits bs = concat (map byte_bits bs)"

lemma length_byte_bits [simp]: "length (byte_bits b) = 8"
  by (simp add: byte_bits_def)

lemma length_addr_bits [simp]: "length (addr_bits bs) = 8 * length bs"
  by (induction bs) (simp_all add: addr_bits_def)

lemma nat_le_7_cases: "(n :: nat) < 8 \<Longrightarrow> n = 0 \<or> n = 1 \<or> n = 2 \<or> n = 3 \<or> n = 4 \<or> n = 5 \<or> n = 6 \<or> n = 7"
  by auto

lemma byte_all_bits: "(a :: byte) = b \<longleftrightarrow>
    bit a 7 = bit b 7 \<and> bit a 6 = bit b 6 \<and> bit a 5 = bit b 5 \<and> bit a 4 = bit b 4 \<and>
    bit a 3 = bit b 3 \<and> bit a 2 = bit b 2 \<and> bit a 1 = bit b 1 \<and> bit a 0 = bit b 0"
  (is "_ \<longleftrightarrow> ?B")
proof
  assume B: ?B
  show "a = b"
  proof (rule bit_word_eqI)
    fix i :: nat
    assume "i < LENGTH(8)"
    then show "bit a i = bit b i"
      using B nat_le_7_cases [of i] by auto
  qed
qed simp

lemma byte_bits_inj [simp]: "byte_bits a = byte_bits b \<longleftrightarrow> a = b"
  by (auto simp: byte_bits_def byte_all_bits)

lemma addr_bits_inj: "length a = length b \<Longrightarrow> addr_bits a = addr_bits b \<longleftrightarrow> a = b"
  by (induction a b rule: list_induct2) (auto simp: addr_bits_def)

lemma masked_byte_eq:
  assumes "n < 8"
  shows "(a AND NOT (drop_bit n 0xff) = (b :: byte) AND NOT (drop_bit n 0xff)) \<longleftrightarrow>
    take n (byte_bits a) = take n (byte_bits b)"
  using nat_le_7_cases [OF assms]
  by (elim disjE) (simp_all add: byte_all_bits bit_and_iff bit_not_iff bit_drop_bit_eq byte_bits_def)

lemma minus_256_byte [simp]: "(- 256 :: byte) = 0"
  by code_simp

lemma and_255_byte [simp]: "x AND 255 = (x :: byte)"
  by (simp add: byte_all_bits bit_and_iff)

lemma cidr_mask_zero: "list_all (\<lambda>b. b = 0) (cidr_mask_bytes k 0)"
  by (induction k) auto

lemma length_cidr_mask [simp]: "length (cidr_mask_bytes k n) = k"
  by (induction k arbitrary: n) auto

lemma length_CIDRMask [simp]: "length (CIDRMask n bits) = bits div 8"
  by (simp add: CIDRMask_def)

lemma map2_and_zero:
  "length a = length b \<Longrightarrow> map2 (AND) a (cidr_mask_bytes (length a) 0) =
     map2 (AND) b (cidr_mask_bytes (length b) (0 :: nat))"
  by (induction a b rule: list_induct2) auto

text \<open>Masking with a prefix mask compares exactly the first bits.\<close>

lemma masked_eq_iff [net_simps]:
  "length a = length b \<Longrightarrow>
   map2 (AND) a (cidr_mask_bytes (length a) n) = map2 (AND) b (cidr_mask_bytes (length a) n) \<longleftrightarrow>
   take n (addr_bits a) = take n (addr_bits b)"
proof (induction a b arbitrary: n rule: list_induct2)
  case (Cons x xs y ys)
  show ?case
  proof (cases "8 \<le> n")
    case True
    then show ?thesis
      using Cons.IH [of "n - 8"] by (simp add: addr_bits_def)
  next
    case False
    then show ?thesis
      using Cons.hyps masked_byte_eq [of n x y] map2_and_zero [of xs ys]
      by (simp add: addr_bits_def)
  qed
qed simp

section \<open>Sizes and shapes\<close>

lemma lead_ones_acc:
  "lead_ones k v m = (m + fst (lead_ones k v 0), snd (lead_ones k v 0))"
proof (induction k arbitrary: v m)
  case (Suc k)
  show ?case
    using Suc.IH [of "push_bit 1 v" "Suc m"] Suc.IH [of "push_bit 1 v" "Suc 0"] by simp
qed simp

lemma lead_ones_table: "\<forall>n \<in> set [0 ..< 8]. lead_ones 8 (NOT (drop_bit n 0xff)) 0 = (n, 0)"
  by code_simp

lemma lead_ones_mask: "n < 8 \<Longrightarrow> lead_ones 8 (NOT (drop_bit n 0xff)) m = (m + n, 0)"
  using lead_ones_table lead_ones_acc [of 8 "NOT (drop_bit n 0xff)" m] by simp

lemma mask_not_ff:
  assumes "n < 8"
  shows "NOT (drop_bit n 0xff) \<noteq> (0xff :: byte)"
  using nat_le_7_cases [OF assms] by (elim disjE) simp_all

lemma simpleMaskLength_cidr:
  "n \<le> 8 * k \<Longrightarrow> simpleMaskLength (cidr_mask_bytes k n) m = Some (m + n)"
proof (induction k arbitrary: n m)
  case (Suc k)
  then show ?case
    using lead_ones_mask [of n m] mask_not_ff [of n] cidr_mask_zero [of k]
    by (cases "8 \<le> n") auto
qed simp

lemma IPMask_Size_CIDRMask [simp, net_simps]:
  "n \<le> 32 \<Longrightarrow> IPMask_Size (CIDRMask n 32) = (n, 32)"
  "n \<le> 128 \<Longrightarrow> IPMask_Size (CIDRMask n 128) = (n, 128)"
  by (simp_all add: IPMask_Size_def CIDRMask_def simpleMaskLength_cidr)

lemma v4_loop_length:
  "v4_loop s v d fs = Some r \<Longrightarrow> length fs \<le> 3 \<Longrightarrow> length r = 4"
  by (induction s v d fs rule: v4_loop.induct) (auto simp: Let_def split: if_splits)

lemma parseIPv4Fields_length: "parseIPv4Fields s = Some r \<Longrightarrow> length r = 4"
  unfolding parseIPv4Fields_def by (rule v4_loop_length) auto

lemma v6_loop_step:
  assumes "v6_loop s ip ell = Some (rest, ip', ell')" "length ip < 16" "even (length ip)"
  shows "length ip' \<le> 16 \<or>
    (\<exists>s2 acc ell2. v6_loop s2 (ip @ be_bytes 2 acc) ell2 = Some (rest, ip', ell'))"
proof -
  have "length ip + 2 \<le> 16"
    using assms(2,3) by presburger
  with assms(1,2) show ?thesis
    unfolding v6_loop.simps [of s ip ell]
    by (auto simp: Let_def parseIPv4Fields_length split: if_splits option.splits)
qed

lemma v6_loop_length:
  "v6_loop s ip ell = Some (rest, ip', ell') \<Longrightarrow> length ip \<le> 16 \<Longrightarrow> even (length ip) \<Longrightarrow>
   length ip' \<le> 16"
proof (induction "16 - length ip" arbitrary: s ip ell rule: less_induct)
  case less
  show ?case
  proof (cases "16 \<le> length ip")
    case True
    with less.prems show ?thesis
      by (simp add: v6_loop.simps)
  next
    case False
    with less.prems(3) have le: "length ip + 2 \<le> 16"
      by presburger
    consider "length ip' \<le> 16"
      | s2 acc ell2 where "v6_loop s2 (ip @ be_bytes 2 acc) ell2 = Some (rest, ip', ell')"
      using v6_loop_step [OF less.prems(1)] le less.prems(3) by auto
    then show ?thesis
    proof cases
      case 2
      with le less.prems(3) show ?thesis
        by (intro less.hyps [OF _ 2]) auto
    qed
  qed
qed

lemma parseIPv6_length: "parseIPv6 s = Some r \<Longrightarrow> length r = 16"
proof -
  assume p: "parseIPv6 s = Some r"
  show ?thesis
  proof (cases "HasPrefix s ''::'' \<and> drop 2 s = []")
    case True
    then show ?thesis using p by (auto simp: parseIPv6_def Let_def split: if_splits)
  next
    case False
    then obtain s1 ell rest ip e where "v6_loop s1 [] ell = Some (rest, ip, e)"
      and e: "expand_ellipsis ip e = Some r"
      using p by (auto simp: parseIPv6_def Let_def split: if_splits option.splits)
    from v6_loop_length [OF this(1)] have "length ip \<le> 16" by simp
    with e show ?thesis
      by (auto simp: expand_ellipsis_def split: if_splits option.splits)
  qed
qed

fun wf_addr :: "addr \<Rightarrow> bool" where
  "wf_addr (A4 b) = (length b = 4)"
| "wf_addr (A6 b) = (length b = 16)"

lemma ParseAddr_wf: "ParseAddr s = Some ad \<Longrightarrow> wf_addr ad"
  by (auto simp: ParseAddr_def parseIPv4Fields_length parseIPv6_length split: if_splits)

lemma length_As16 [simp]: "wf_addr ad \<Longrightarrow> length (As16 ad) = 16"
  by (cases ad) auto

lemma ParseIP_length: "ParseIP s = Some ip \<Longrightarrow> length ip = 16"
  by (auto simp: ParseIP_def dest: ParseAddr_wf)

text \<open>A network parsed from text is either a dotted one with a 4-byte mask or a colon one with a
  16-byte mask, its address already masked.\<close>

definition is_net4 :: "nat \<Rightarrow> ipnet \<Rightarrow> bool" where
  "is_net4 n net \<longleftrightarrow> n \<le> 32 \<and> length (net_ip net) = 4 \<and> net_mask net = CIDRMask n 32 \<and>
     map2 (AND) (net_ip net) (net_mask net) = net_ip net"

definition is_net6 :: "nat \<Rightarrow> ipnet \<Rightarrow> bool" where
  "is_net6 n net \<longleftrightarrow> n \<le> 128 \<and> length (net_ip net) = 16 \<and> net_mask net = CIDRMask n 128 \<and>
     map2 (AND) (net_ip net) (net_mask net) = net_ip net"

lemma map2_and_idem: "map2 (AND) (map2 (AND) a m) m = map2 (AND) a (m :: bytes)"
proof (induction a m rule: list_induct2')
  case (4 x xs y ys)
  then show ?case by (simp add: and.assoc)
qed simp_all

lemma ParseCIDR_shape:
  assumes "ParseCIDR s = Some (ip, net)"
  obtains (v4) b n where "ip = v4InV6Prefix @ b" "length b = 4" "is_net4 n net"
      "net_ip net = map2 (AND) b (CIDRMask n 32)"
    | (v6) n where "length ip = 16" "is_net6 n net" "net_ip net = map2 (AND) ip (CIDRMask n 128)"
proof -
  from assms obtain a ms where c: "Cut s (CHR ''/'') = Some (a, ms)"
    by (auto simp: ParseCIDR_def split: option.splits)
  with assms obtain ad where ad: "ParseAddr a = Some ad"
    by (auto simp: ParseCIDR_def split: option.splits)
  from assms c ad obtain n i where "dtoi ms = Some (n, i)"
    by (auto simp: ParseCIDR_def split: option.splits)
  with assms c ad have n: "n \<le> BitLen ad" and ip: "ip = As16 ad"
    and net: "net = \<lparr>net_ip = IP_Mask ip (CIDRMask n (BitLen ad)),
      net_mask = CIDRMask n (BitLen ad)\<rparr>"
    by (auto simp: ParseCIDR_def Let_def split: if_splits)
  show thesis
  proof (cases ad)
    case (A4 b)
    with ParseAddr_wf [OF ad] have "length b = 4" by simp
    with A4 n ip net show thesis
      by (intro v4 [of b n]) (auto simp: is_net4_def IP_Mask_def map2_and_idem)
  next
    case (A6 b)
    with ParseAddr_wf [OF ad] have "length b = 16" by simp
    with A6 n ip net show thesis
      by (intro v6 [of n]) (auto simp: is_net6_def IP_Mask_def map2_and_idem)
  qed
qed

lemma IPNet_Contains_net4 [net_simps]:
  assumes "is_net4 n net" "To4 a = Some a4"
  shows "IPNet_Contains net a \<longleftrightarrow> take n (addr_bits a4) = take n (addr_bits (net_ip net))"
  using assms To4_length [OF assms(2)] masked_eq_iff [of "net_ip net" a4 n]
  by (auto simp: IPNet_Contains_def networkNumberAndMask_def is_net4_def CIDRMask_def)

lemma IPNet_Contains_net4_v6:
  assumes "is_net4 n net" "To4 a = None"
  shows "\<not> IPNet_Contains net a"
  using assms
  by (auto simp: IPNet_Contains_def networkNumberAndMask_def is_net4_def To4_def split: if_splits)

lemma IPNet_Contains_net6 [net_simps]:
  assumes "is_net6 n net" "To4 (net_ip net) = None" "To4 a = None" "length a = 16"
  shows "IPNet_Contains net a \<longleftrightarrow> take n (addr_bits a) = take n (addr_bits (net_ip net))"
  using assms masked_eq_iff [of "net_ip net" a n]
  by (auto simp: IPNet_Contains_def networkNumberAndMask_def is_net6_def CIDRMask_def)

section \<open>Decimal text and the IPv4 round trip\<close>

lemma dec_rev_fuel: "n < k \<Longrightarrow> dec_rev k n = dec_rev (Suc n) n"
proof (induction n arbitrary: k rule: less_induct)
  case (less n)
  then obtain k' where k: "k = Suc k'" "n \<le> k'"
    by (metis Suc_leI less_imp_Suc_add less_Suc_eq_le)
  show ?case
  proof (cases "n < 10")
    case False
    then have "n div 10 < n" "n div 10 < k'"
      using k(2) by auto
    then show ?thesis
      using False k(1) less.IH [of "n div 10" k'] less.IH [of "n div 10" n] by simp
  qed (simp add: k)
qed

lemma itoa_rec: "itoa n = (if n < 10 then [char_of (48 + n)] else itoa (n div 10) @ [char_of (48 + n mod 10)])"
  using dec_rev_fuel [of "n div 10" n] by (simp add: itoa_def)

declare itoa_def [code del]
declare itoa_rec [code]

definition dec_val :: "string \<Rightarrow> nat" where
  "dec_val s = foldl (\<lambda>a c. a * 10 + digit_val c) 0 s"

lemma digit_val_char [simp]: "(d :: nat) < 10 \<Longrightarrow> digit_val (char_of (48 + d)) = d"
  by (simp add: digit_val_def)

lemma is_digit_char [simp]: "(d :: nat) < 10 \<Longrightarrow> is_digit (char_of (48 + d))"
  by (simp add: is_digit_def)

lemma dec_val_itoa [simp]: "dec_val (itoa n) = n"
proof (induction n rule: less_induct)
  case (less n)
  then show ?case
    by (subst itoa_rec) (auto simp: dec_val_def)
qed

lemma itoa_inj [simp]: "itoa m = itoa n \<longleftrightarrow> m = n"
  by (metis dec_val_itoa)

lemma itoa_digits: "list_all is_digit (itoa n)"
proof (induction n rule: less_induct)
  case (less n)
  then show ?case
    by (subst itoa_rec) auto
qed

lemma itoa_nonempty [simp]: "itoa n \<noteq> []"
  by (subst itoa_rec) auto

lemma itoa_no_char: "\<not> is_digit c \<Longrightarrow> c \<notin> set (itoa n)"
  using itoa_digits [of n] by (auto simp: list_all_iff)

lemma itoa_1: "n < 10 \<Longrightarrow> itoa n = [char_of (48 + n)]"
  by (simp add: itoa_rec)

lemma itoa_2: "10 \<le> n \<Longrightarrow> n < 100 \<Longrightarrow> itoa n = [char_of (48 + n div 10), char_of (48 + n mod 10)]"
  by (simp add: itoa_rec [of n] itoa_1)

lemma itoa_3: "100 \<le> n \<Longrightarrow> n < 1000 \<Longrightarrow>
    itoa n = [char_of (48 + n div 100), char_of (48 + n div 10 mod 10), char_of (48 + n mod 10)]"
  by (simp add: itoa_rec [of n] itoa_2 div_mult2_eq [symmetric])

lemma v4_loop_digit:
  "d < 10 \<Longrightarrow> \<not> (l = 1 \<and> v = 0) \<Longrightarrow> v * 10 + d < 256 \<Longrightarrow>
   v4_loop (char_of (48 + d) # r) v l fs = v4_loop r (v * 10 + d) (Suc l) fs"
  by (auto simp: Let_def)

lemma v4_loop_itoa:
  assumes "n < 256"
  shows "\<exists>d > 0. v4_loop (itoa n @ r) 0 0 fs = v4_loop r n d fs"
proof -
  consider "n < 10" | "10 \<le> n" "n < 100" | "100 \<le> n"
    by linarith
  then show ?thesis
  proof cases
    case 1
    then show ?thesis
      by (intro exI [of _ "Suc 0"]) (simp add: itoa_1 v4_loop_digit del: v4_loop.simps)
  next
    case 2
    define t u where "t = n div 10" and "u = n mod 10"
    then have tu: "t < 10" "u < 10" "t \<noteq> 0" "t * 10 + u = n"
      using 2 by auto
    then have "v4_loop (itoa n @ r) 0 0 fs = v4_loop r (t * 10 + u) (Suc (Suc 0)) fs"
      using 2 assms by (simp add: itoa_2 v4_loop_digit t_def [symmetric] u_def [symmetric]
          del: v4_loop.simps)
    with tu show ?thesis
      by auto
  next
    case 3
    define h t u where "h = n div 100" and "t = n div 10 mod 10" and "u = n mod 10"
    have "n div 10 = h * 10 + t"
      using div_mult_mod_eq [of "n div 10" 10] by (simp add: div_mult2_eq [symmetric] h_def t_def)
    then have n: "(h * 10 + t) * 10 + u = n"
      using div_mult_mod_eq [of n 10] by (simp add: u_def)
    have "t < 10" "u < 10"
      by (simp_all add: t_def u_def)
    with n 3 assms have tu: "h < 10" "t < 10" "u < 10" "h \<noteq> 0" "(h * 10 + t) * 10 + u = n"
      by auto
    then have "v4_loop (itoa n @ r) 0 0 fs = v4_loop r ((h * 10 + t) * 10 + u) (Suc (Suc (Suc 0))) fs"
      using 3 assms by (simp add: itoa_3 v4_loop_digit h_def [symmetric] t_def [symmetric]
          u_def [symmetric] del: v4_loop.simps)
    with tu show ?thesis
      by auto
  qed
qed

lemma not_digit_dot [simp]: "\<not> is_digit (CHR ''.'')"
  by (simp add: is_digit_def)

lemma v4_loop_itoa_dot:
  assumes "n < 256" "r \<noteq> []" "length fs < 3"
  shows "v4_loop (itoa n @ CHR ''.'' # r) 0 0 fs = v4_loop r 0 0 (fs @ [of_nat n])"
  using v4_loop_itoa [OF assms(1), of "CHR ''.'' # r" fs] assms(2,3) by auto

lemma v4_loop_itoa_end:
  assumes "n < 256" "length fs = 3"
  shows "v4_loop (itoa n) 0 0 fs = Some (fs @ [of_nat n])"
  using v4_loop_itoa [OF assms(1), of "[]" fs] assms(2) by auto

lemma parseIPv4Fields_string:
  "parseIPv4Fields (v4_string [a, b, c, d]) = Some [a, b, c, d]"
  by (simp add: parseIPv4Fields_def v4_string_def v4_loop_itoa_dot v4_loop_itoa_end)

lemma addr_kind_digits: "list_all is_digit p \<Longrightarrow> addr_kind (p @ s) = addr_kind s"
  by (induction p) (auto simp: is_digit_def)

lemma list4: "length xs = 4 \<Longrightarrow> \<exists>a b c d. xs = [a, b, c, d]"
  by (auto simp: length_Suc_conv eval_nat_numeral)

lemma ParseAddr_v4_string:
  assumes "length a = 4"
  shows "ParseAddr (v4_string a) = Some (A4 a)"
proof -
  have "addr_kind (v4_string a) = Some (CHR ''.'')"
    using itoa_digits by (simp add: v4_string_def addr_kind_digits)
  moreover have "parseIPv4Fields (v4_string a) = Some a"
    using list4 [OF assms] parseIPv4Fields_string by auto
  ultimately show ?thesis
    by (simp add: ParseAddr_def)
qed

lemma ParseIP_v4_string: "length a = 4 \<Longrightarrow> ParseIP (v4_string a) = Some (v4InV6Prefix @ a)"
  by (simp add: ParseIP_def ParseAddr_v4_string)

lemma v4_string_inj: "length a = 4 \<Longrightarrow> length b = 4 \<Longrightarrow> v4_string a = v4_string b \<longleftrightarrow> a = b"
  by (metis ParseAddr_v4_string addr.inject(1) option.inject)

lemma v4_string_no_slash: "length a = 4 \<Longrightarrow> CHR ''/'' \<notin> set (v4_string a)"
  using itoa_no_char [of "CHR ''/''"] by (auto simp: v4_string_def is_digit_def)

lemma IP_String_4: "length a = 4 \<Longrightarrow> IP_String a = v4_string a"
  by (auto simp: IP_String_def)

lemma IPNet_String_net4:
  "is_net4 n net \<Longrightarrow> IPNet_String net = v4_string (net_ip net) @ ''/'' @ itoa n"
  by (simp add: IPNet_String_def networkNumberAndMask_def is_net4_def CIDRMask_def
      simpleMaskLength_cidr IP_String_4)

lemma IPNet_String_inj:
  assumes "is_net4 m a" "is_net4 n b"
  shows "IPNet_String a = IPNet_String b \<longleftrightarrow> net_ip a = net_ip b \<and> m = n"
proof -
  have l: "length (net_ip a) = 4" "length (net_ip b) = 4"
    using assms by (simp_all add: is_net4_def)
  have c: "Cut (IPNet_String a) (CHR ''/'') = Some (v4_string (net_ip a), itoa m)"
    "Cut (IPNet_String b) (CHR ''/'') = Some (v4_string (net_ip b), itoa n)"
    using l by (simp_all add: IPNet_String_net4 [OF assms(1)] IPNet_String_net4 [OF assms(2)]
        Cut_append v4_string_no_slash)
  show ?thesis
  proof
    assume "IPNet_String a = IPNet_String b"
    with c have "v4_string (net_ip a) = v4_string (net_ip b)" "itoa m = itoa n"
      by auto
    with l show "net_ip a = net_ip b \<and> m = n"
      by (simp add: v4_string_inj)
  next
    assume "net_ip a = net_ip b \<and> m = n"
    then show "IPNet_String a = IPNet_String b"
      by (simp add: IPNet_String_net4 [OF assms(1)] IPNet_String_net4 [OF assms(2)])
  qed
qed

end
