(* ===== verification/AddrSets.thy ===== *)
theory AddrSets
  imports GoNet
begin

text \<open>
  \<^verbatim>\<open>policy.IPv4Set\<close> and \<^verbatim>\<open>policy.IPv6Set\<close> (\<^verbatim>\<open>internal/policy/allowlist.go\<close>): sets of fixed-size
  address keys. Both are modelled as the duplicate-free list of their keys, and both meet the
  contract \<open>addr_set\<close>, from which the lemmas the allowlist code needs are derived once.
\<close>

type_synonym IPv4Set = "bytes list"
type_synonym IPv6Set = "bytes list"

definition IPv4Set_Add :: "IPv4Set \<Rightarrow> bytes \<Rightarrow> IPv4Set" where
  "IPv4Set_Add s ip = (case To4 ip of None \<Rightarrow> s | Some k \<Rightarrow> sadd k s)"

definition IPv4Set_Contains :: "IPv4Set \<Rightarrow> bytes \<Rightarrow> bool" where
  "IPv4Set_Contains s ip = (case To4 ip of None \<Rightarrow> False
     | Some k \<Rightarrow> if length s = 0 then False else k \<in> set s)"

definition IPv4Set_Len :: "IPv4Set \<Rightarrow> nat" where
  "IPv4Set_Len s = length s"

definition IPv4Set_ForEach :: "IPv4Set \<Rightarrow> (bytes \<Rightarrow> 'a \<Rightarrow> 'a) \<Rightarrow> 'a \<Rightarrow> 'a" where
  "IPv4Set_ForEach s fn st = fold fn s st"

definition IPv6Set_Add :: "IPv6Set \<Rightarrow> bytes \<Rightarrow> IPv6Set" where
  "IPv6Set_Add s ip = (if ip = [] then s
     else if To4 ip \<noteq> None then s
     else (case To16 ip of None \<Rightarrow> s | Some k \<Rightarrow> sadd k s))"

definition IPv6Set_Contains :: "IPv6Set \<Rightarrow> bytes \<Rightarrow> bool" where
  "IPv6Set_Contains s ip = (if ip = [] \<or> length s = 0 then False
     else if To4 ip \<noteq> None then False
     else (case To16 ip of None \<Rightarrow> False | Some k \<Rightarrow> k \<in> set s))"

definition IPv6Set_Len :: "IPv6Set \<Rightarrow> nat" where
  "IPv6Set_Len s = length s"

definition IPv6Set_ForEach :: "IPv6Set \<Rightarrow> (bytes \<Rightarrow> 'a \<Rightarrow> 'a) \<Rightarrow> 'a \<Rightarrow> 'a" where
  "IPv6Set_ForEach s fn st = fold fn s st"

section \<open>The contract\<close>

text \<open>\<open>key ip\<close> is the key under which an address is stored, \<open>None\<close> when the set rejects it.\<close>

locale addr_set =
  fixes key :: "bytes \<Rightarrow> bytes option"
    and add :: "bytes list \<Rightarrow> bytes \<Rightarrow> bytes list"
    and contains :: "bytes list \<Rightarrow> bytes \<Rightarrow> bool"
    and len :: "bytes list \<Rightarrow> nat"
    and invar :: "bytes list \<Rightarrow> bool"
  assumes key_idem: "key ip = Some k \<Longrightarrow> key k = Some k"
    and invar_empty: "invar []"
    and invar_add: "invar s \<Longrightarrow> invar (add s ip)"
    and invar_keys: "invar s \<Longrightarrow> k \<in> set s \<Longrightarrow> key k = Some k"
    and set_add: "set (add s ip) = set s \<union> set_option (key ip)"
    and contains_iff: "contains s ip \<longleftrightarrow> (\<exists>k. key ip = Some k \<and> k \<in> set s)"
    and len_card: "invar s \<Longrightarrow> len s = card (set s)"
begin

lemma contains_add:
  "contains (add s ip) x \<longleftrightarrow> contains s x \<or> (\<exists>k. key x = Some k \<and> key ip = Some k)"
  by (auto simp: contains_iff set_add)

lemma contains_same_key: "key x = key y \<Longrightarrow> contains s x = contains s y"
  by (simp add: contains_iff)

lemma add_rejected: "key ip = None \<Longrightarrow> set (add s ip) = set s"
  by (simp add: set_add)

lemma set_fold_add: "set (foldl add s ips) = set s \<union> {k. \<exists>ip \<in> set ips. key ip = Some k}"
  by (induction ips arbitrary: s) (auto simp: set_add)

lemma invar_fold_add: "invar s \<Longrightarrow> invar (foldl add s ips)"
  by (induction ips arbitrary: s) (auto simp: invar_add)

lemma contains_fold_add:
  "contains (foldl add [] ips) x \<longleftrightarrow> (\<exists>ip \<in> set ips. \<exists>k. key x = Some k \<and> key ip = Some k)"
  by (auto simp: contains_iff set_fold_add)

lemma contains_member: "invar s \<Longrightarrow> k \<in> set s \<Longrightarrow> contains s k"
  using invar_keys by (auto simp: contains_iff)

end

definition key6 :: "bytes \<Rightarrow> bytes option" where
  "key6 ip = (if To4 ip = None then To16 ip else None)"

definition wf_v4set :: "IPv4Set \<Rightarrow> bool" where
  "wf_v4set s \<longleftrightarrow> distinct s \<and> (\<forall>k \<in> set s. length k = 4)"

definition wf_v6set :: "IPv6Set \<Rightarrow> bool" where
  "wf_v6set s \<longleftrightarrow> distinct s \<and> (\<forall>k \<in> set s. length k = 16 \<and> To4 k = None)"

interpretation v4: addr_set To4 IPv4Set_Add IPv4Set_Contains IPv4Set_Len wf_v4set
proof unfold_locales
  show "wf_v4set s \<Longrightarrow> wf_v4set (IPv4Set_Add s ip)" for s ip
    by (auto simp: wf_v4set_def IPv4Set_Add_def To4_length split: option.splits)
qed (auto simp: wf_v4set_def IPv4Set_Add_def IPv4Set_Contains_def IPv4Set_Len_def To4_idem
    distinct_card split: option.splits)

interpretation v6: addr_set key6 IPv6Set_Add IPv6Set_Contains IPv6Set_Len wf_v6set
proof unfold_locales
  show "key6 ip = Some k \<Longrightarrow> key6 k = Some k" for ip k
    by (auto simp: key6_def To4_None_To16 split: if_splits)
  show "wf_v6set s \<Longrightarrow> wf_v6set (IPv6Set_Add s ip)" for s ip
    by (auto simp: wf_v6set_def IPv6Set_Add_def To4_None_To16 split: option.splits if_splits)
  show "set (IPv6Set_Add s ip) = set s \<union> set_option (key6 ip)" for s ip
    by (auto simp: IPv6Set_Add_def key6_def To16_def split: option.splits if_splits)
  show "IPv6Set_Contains s ip \<longleftrightarrow> (\<exists>k. key6 ip = Some k \<and> k \<in> set s)" for s ip
    by (auto simp: IPv6Set_Contains_def key6_def To16_def split: option.splits if_splits)
qed (auto simp: wf_v6set_def key6_def To16_def IPv6Set_Len_def distinct_card)

text \<open>The two sets never hold the same address: a key of one is rejected by the other.\<close>

lemma v4_v6_keys_disjoint: "key6 ip = Some k \<Longrightarrow> To4 ip = None"
  by (auto simp: key6_def split: if_splits)

end
