(* ===== verification/Policy.thy ===== *)
theory Policy
  imports AddrSets
begin

text \<open>
  The egress policy (\<^verbatim>\<open>internal/policy/policy.go\<close>, \<^verbatim>\<open>ignore.go\<close>, \<^verbatim>\<open>ipv6_bypass.go\<close>,
  \<^verbatim>\<open>egress_backstop.go\<close>, \<^verbatim>\<open>system_resolvers.go\<close>): parsing of the allow lists, the merge of the ignored
  networks, classification of an observed destination, and the address classes that bypass
  enforcement. A slice of \<^verbatim>\<open>*net.IPNet\<close> is a list of options, a nil policy is \<open>None\<close>.
  \<open>ul\<close> is the non-ASCII branch of \<^verbatim>\<open>strings.ToLower\<close> throughout.
\<close>

section \<open>Constants, classes and the policy record\<close>

definition MaxIgnoredIPv4Nets :: nat where "MaxIgnoredIPv4Nets = 128"
definition MaxAllowedDefendIPv4Keys :: nat where "MaxAllowedDefendIPv4Keys = 4096"
definition MaxAllowedDefendIPv6Keys :: nat where "MaxAllowedDefendIPv6Keys = 4096"
definition MaxAllowedHostnameBytes :: nat where "MaxAllowedHostnameBytes = 253"

datatype Class = ClassMonitor | ClassAllowed | ClassNotListed | ClassUnknown | ClassIgnored

record policy =
  enabled :: bool
  exactHosts :: "string list"
  wildSuffixes :: "string list"
  ips :: "bytes list"
  nets :: "ipnet option list"
  ignored :: "ipnet option list"
  ipv6s :: "bytes list"
  ipv6nets :: "ipnet option list"

datatype policy_error =
    WildcardTooLong
  | WildcardInvalid string
  | HostTooLong
  | HostInvalid string
  | InvalidCIDR string
  | InvalidAllowedIP string
  | TooManyIPv6
  | InvalidIgnoredCIDR string
  | IgnoredNotIPv4 string
  | TooManyIgnored nat

section \<open>Hostname text\<close>

definition host_alnum :: "char \<Rightarrow> bool" where
  "host_alnum c \<longleftrightarrow> is_lower c \<or> is_digit c"

definition host_char :: "char \<Rightarrow> bool" where
  "host_char c \<longleftrightarrow> host_alnum c \<or> c = CHR ''.'' \<or> c = CHR ''-''"

text \<open>The regular expression \<^verbatim>\<open>^[a-z0-9]([a-z0-9.-]*[a-z0-9])?$\<close>.\<close>

definition validHostnameSuffix :: "string \<Rightarrow> bool" where
  "validHostnameSuffix s \<longleftrightarrow> s \<noteq> [] \<and> host_alnum (hd s) \<and> host_alnum (last s) \<and> list_all host_char s"

definition sep_fields :: "string \<Rightarrow> nat" where
  "sep_fields s = (case s of [] \<Rightarrow> 0 | c # _ \<Rightarrow> if c = CHR '','' then 1 else space_len s)"

definition splitFields :: "string \<Rightarrow> string list" where
  "splitFields s = fieldsFunc sep_fields s []"

definition hostMatchesWildcard :: "string \<Rightarrow> string \<Rightarrow> bool" where
  "hostMatchesWildcard fqdn suf = (if \<not> HasSuffix fqdn (CHR ''.'' # suf) then False
     else let pre = TrimSuffix fqdn (CHR ''.'' # suf) in pre \<noteq> [] \<and> \<not> ContainsStr pre ''.'')"

section \<open>Parsing\<close>

definition parse_host :: "(string \<Rightarrow> string) \<Rightarrow> string \<Rightarrow> policy \<Rightarrow> policy_error + policy" where
  "parse_host ul h0 p = (let h = toLower ul (TrimSpace h0) in
     if h = [] then Inr p
     else if HasPrefix h ''*.'' then
       (let suf = TrimPrefix h ''*.'' in
        if suf = [] \<or> ContainsStr suf ''*'' then Inr p
        else if MaxAllowedHostnameBytes < length suf then Inl WildcardTooLong
        else if \<not> validHostnameSuffix suf then Inl (WildcardInvalid suf)
        else Inr (p\<lparr>wildSuffixes := wildSuffixes p @ [suf]\<rparr>))
     else if MaxAllowedHostnameBytes < length h then Inl HostTooLong
     else if \<not> validHostnameSuffix (TrimSuffix h ''.'') then Inl (HostInvalid h)
     else Inr (p\<lparr>exactHosts := sadd h (exactHosts p)\<rparr>))"

definition parse_ip :: "string \<Rightarrow> policy \<Rightarrow> policy_error + policy" where
  "parse_ip raw0 p = (let raw = TrimSpace raw0 in
     if raw = [] then Inr p
     else if ContainsStr raw ''/'' then
       (case ParseCIDR raw of None \<Rightarrow> Inl (InvalidCIDR raw)
        | Some (ip, ipNet) \<Rightarrow>
          if To4 ip \<noteq> None then Inr (p\<lparr>nets := nets p @ [Some ipNet]\<rparr>)
          else Inr (p\<lparr>ipv6nets := ipv6nets p @ [Some ipNet]\<rparr>))
     else (case ParseIP raw of None \<Rightarrow> Inl (InvalidAllowedIP raw)
        | Some ip \<Rightarrow> (case To4 ip of Some ip4 \<Rightarrow> Inr (p\<lparr>ips := sadd ip4 (ips p)\<rparr>)
          | None \<Rightarrow> (case To16 ip of Some ip16 \<Rightarrow> Inr (p\<lparr>ipv6s := sadd ip16 (ipv6s p)\<rparr>)
            | None \<Rightarrow> Inl (InvalidAllowedIP raw)))))"

text \<open>A \<^verbatim>\<open>for range\<close> loop over tokens that stops at the first error.\<close>

fun each :: "('a \<Rightarrow> 's \<Rightarrow> 'e + 's) \<Rightarrow> 'a list \<Rightarrow> 's \<Rightarrow> 'e + 's" where
  "each f [] s = Inr s"
| "each f (x # xs) s = (case f x s of Inl e \<Rightarrow> Inl e | Inr s' \<Rightarrow> each f xs s')"

definition empty_policy :: policy where
  "empty_policy = \<lparr>enabled = False, exactHosts = [], wildSuffixes = [], ips = [], nets = [],
     ignored = [], ipv6s = [], ipv6nets = []\<rparr>"

definition Parse :: "(string \<Rightarrow> string) \<Rightarrow> string \<Rightarrow> string \<Rightarrow> policy_error + policy" where
  "Parse ul allowedHosts allowedIPs =
     (case each (parse_host ul) (splitFields allowedHosts) empty_policy of Inl e \<Rightarrow> Inl e
      | Inr p1 \<Rightarrow> (case each parse_ip (splitFields allowedIPs) p1 of Inl e \<Rightarrow> Inl e
        | Inr p \<Rightarrow>
          if MaxAllowedDefendIPv6Keys < length (ipv6s p) \<or>
             MaxAllowedDefendIPv6Keys < length (ipv6nets p) then Inl TooManyIPv6
          else Inr (p\<lparr>enabled := exactHosts p \<noteq> [] \<or> wildSuffixes p \<noteq> [] \<or> ips p \<noteq> [] \<or>
            nets p \<noteq> [] \<or> ipv6s p \<noteq> [] \<or> ipv6nets p \<noteq> []\<rparr>)))"

section \<open>Ignored networks\<close>

definition parse_ignored :: "string \<Rightarrow> ipnet option list \<Rightarrow> policy_error + ipnet option list" where
  "parse_ignored tok out = (case ParseCIDR tok of None \<Rightarrow> Inl (InvalidIgnoredCIDR tok)
     | Some (_, ipnet) \<Rightarrow> (case To4 (net_ip ipnet) of None \<Rightarrow> Inl (IgnoredNotIPv4 tok)
       | Some a \<Rightarrow> Inr (out @ [Some \<lparr>net_ip = a, net_mask = net_mask ipnet\<rparr>])))"

definition ParseIgnoredIPNets :: "string \<Rightarrow> policy_error + ipnet option list" where
  "ParseIgnoredIPNets raw = each parse_ignored (splitFields raw) []"

definition DefaultIgnoredIPv4Nets :: "policy_error + ipnet option list" where
  "DefaultIgnoredIPv4Nets = ParseIgnoredIPNets ''10.0.0.0/8 172.16.0.0/12''"

fun merge_nets :: "ipnet option list \<Rightarrow> string list \<Rightarrow> ipnet option list \<Rightarrow> ipnet option list" where
  "merge_nets [] seen out = out"
| "merge_nets (None # ns) seen out = merge_nets ns seen out"
| "merge_nets (Some n # ns) seen out = (let s = IPNet_String n in
     if s \<in> set seen then merge_nets ns seen out
     else (case To4 (net_ip n) of None \<Rightarrow> merge_nets ns (sadd s seen) out
       | Some ip \<Rightarrow> merge_nets ns (sadd s seen) (out @ [Some \<lparr>net_ip = ip, net_mask = net_mask n\<rparr>])))"

definition mergeDedupedNets :: "ipnet option list \<Rightarrow> ipnet option list \<Rightarrow> ipnet option list" where
  "mergeDedupedNets a b = merge_nets (a @ b) [] []"

definition MergeDefaultIgnoredNets :: "ipnet option list \<Rightarrow> policy_error + ipnet option list" where
  "MergeDefaultIgnoredNets user = (case DefaultIgnoredIPv4Nets of Inl e \<Rightarrow> Inl e
     | Inr def \<Rightarrow> Inr (mergeDedupedNets def user))"

definition NetsContains :: "ipnet option list \<Rightarrow> bytes \<Rightarrow> bool" where
  "NetsContains ns ip = (if ns = [] \<or> ip = [] then False
     else (case To4 ip of None \<Rightarrow> False
       | Some ip4 \<Rightarrow> list_ex (\<lambda>n. case n of None \<Rightarrow> False | Some n \<Rightarrow> IPNet_Contains n ip4) ns))"

definition BuildPolicyEx ::
  "(string \<Rightarrow> string) \<Rightarrow> string \<Rightarrow> string \<Rightarrow> string \<Rightarrow> bool \<Rightarrow> policy_error + policy" where
  "BuildPolicyEx ul allowedHosts allowedIPs ignoredIPNets mergeDefault =
     (case Parse ul allowedHosts allowedIPs of Inl e \<Rightarrow> Inl e
      | Inr p \<Rightarrow> (case ParseIgnoredIPNets ignoredIPNets of Inl e \<Rightarrow> Inl e
        | Inr user \<Rightarrow>
          (case (if mergeDefault then MergeDefaultIgnoredNets user
             else Inr (mergeDedupedNets [] user)) of Inl e \<Rightarrow> Inl e
           | Inr merged \<Rightarrow> if MaxIgnoredIPv4Nets < length merged then Inl (TooManyIgnored (length merged))
             else Inr (p\<lparr>ignored := merged\<rparr>))))"

definition BuildPolicy ::
  "(string \<Rightarrow> string) \<Rightarrow> string \<Rightarrow> string \<Rightarrow> string \<Rightarrow> policy_error + policy" where
  "BuildPolicy ul allowedHosts allowedIPs ignoredIPNets =
     BuildPolicyEx ul allowedHosts allowedIPs ignoredIPNets True"

section \<open>Accessors and classification\<close>

definition IgnoredIPv4Nets :: "policy option \<Rightarrow> ipnet option list" where
  "IgnoredIPv4Nets p = (case p of None \<Rightarrow> [] | Some p \<Rightarrow> ignored p)"

definition AllowedDomains :: "policy option \<Rightarrow> string list" where
  "AllowedDomains p = (case p of None \<Rightarrow> [] | Some p \<Rightarrow> exactHosts p)"

definition HasWildSuffixes :: "policy option \<Rightarrow> bool" where
  "HasWildSuffixes p = (case p of None \<Rightarrow> False | Some p \<Rightarrow> wildSuffixes p \<noteq> [])"

definition AllowedIPv4Nets :: "policy option \<Rightarrow> ipnet option list" where
  "AllowedIPv4Nets p = (case p of None \<Rightarrow> [] | Some p \<Rightarrow> nets p)"

definition AllowedIPv6Nets :: "policy option \<Rightarrow> ipnet option list" where
  "AllowedIPv6Nets p = (case p of None \<Rightarrow> [] | Some p \<Rightarrow> ipv6nets p)"

definition MergeLiteralAllowedIPv4Keys :: "policy option \<Rightarrow> bytes list \<Rightarrow> bytes list" where
  "MergeLiteralAllowedIPv4Keys p keys = (case p of None \<Rightarrow> keys
     | Some p \<Rightarrow> fold (\<lambda>s ks. if length s \<noteq> 4 then ks else sadd s ks) (ips p) keys)"

definition MergeLiteralAllowedIPv4Into :: "policy option \<Rightarrow> IPv4Set \<Rightarrow> IPv4Set" where
  "MergeLiteralAllowedIPv4Into p s = (case p of None \<Rightarrow> s
     | Some p \<Rightarrow> foldl (\<lambda>s k. if length k \<noteq> 4 then s else IPv4Set_Add s k) s (ips p))"

definition MergeLiteralAllowedIPv6Into :: "policy option \<Rightarrow> IPv6Set \<Rightarrow> IPv6Set" where
  "MergeLiteralAllowedIPv6Into p s = (case p of None \<Rightarrow> s
     | Some p \<Rightarrow> foldl (\<lambda>s k. if length k \<noteq> 16 then s else IPv6Set_Add s k) s (ipv6s p))"

definition classify_host :: "(string \<Rightarrow> string) \<Rightarrow> policy \<Rightarrow> string \<Rightarrow> Class" where
  "classify_host ul p fqdn0 = (let fqdn = toLower ul (TrimSpace fqdn0) in
     if fqdn = [] then ClassUnknown
     else if fqdn \<in> set (exactHosts p) then ClassAllowed
     else if list_ex (hostMatchesWildcard fqdn) (wildSuffixes p) then ClassAllowed
     else ClassNotListed)"

definition Classify :: "(string \<Rightarrow> string) \<Rightarrow> policy option \<Rightarrow> string \<Rightarrow> bytes \<Rightarrow> Class" where
  "Classify ul po fqdn ip = (case po of None \<Rightarrow> ClassMonitor
     | Some p \<Rightarrow>
       if (case To4 ip of None \<Rightarrow> False | Some ip4 \<Rightarrow> enabled p \<and>
             (ip4 \<in> set (ips p) \<or> nets p \<noteq> [] \<and> NetsContains (nets p) ip4)) then ClassAllowed
       else if (case To4 ip of None \<Rightarrow> False | Some ip4 \<Rightarrow>
             ignored p \<noteq> [] \<and> NetsContains (ignored p) ip4) then ClassIgnored
       else if \<not> enabled p then ClassMonitor
       else classify_host ul p fqdn)"

fun Display :: "Class \<Rightarrow> string" where
  "Display ClassMonitor = ''monitor''"
| "Display ClassAllowed = ''allowed''"
| "Display ClassNotListed = ''not listed''"
| "Display ClassUnknown = ''unknown''"
| "Display ClassIgnored = ''ignored''"

section \<open>Address classes that bypass enforcement\<close>

definition IPv6BypassesDefend :: "bytes \<Rightarrow> bool" where
  "IPv6BypassesDefend ip = (if ip = [] then False
     else if To4 ip \<noteq> None then False
     else (case To16 ip of None \<Rightarrow> False
       | Some ip16 \<Rightarrow> if IsLoopback ip16 then True
         else ip16 ! 0 = 0xfe \<and> (ip16 ! 1) AND 0xc0 = 0x80))"

definition IPv4MappedEmbeddedIPv4 :: "bytes \<Rightarrow> bytes option" where
  "IPv4MappedEmbeddedIPv4 ip = (case To16 ip of None \<Rightarrow> None
     | Some ip16 \<Rightarrow> if list_ex (\<lambda>i. ip16 ! i \<noteq> 0) [0 ..< 10] then None
       else if ip16 ! 10 \<noteq> 0xff \<or> ip16 ! 11 \<noteq> 0xff then None
       else Some (take 4 (drop 12 ip16)))"

definition EgressBackstopBypasses :: "bytes \<Rightarrow> bool" where
  "EgressBackstopBypasses ip = (if ip = [] then False
     else (case To4 ip of Some v4 \<Rightarrow> v4 ! 0 = 127
       | None \<Rightarrow> if IsLoopback ip then True
         else length ip = 16 \<and> ip ! 0 = 0xfe \<and> (ip ! 1) AND 0xc0 = 0x80))"

section \<open>System resolvers\<close>

definition maxSystemResolvers :: nat where "maxSystemResolvers = 8"

definition DefaultResolvConfPaths :: "string list" where
  "DefaultResolvConfPaths = [''/run/systemd/resolve/resolv.conf'', ''/etc/resolv.conf'']"

record resolver_scan =
  seen_ips :: "string list"
  res_v4 :: "bytes list"
  res_v6 :: "bytes list"

definition resolver_line :: "string \<Rightarrow> resolver_scan \<Rightarrow> resolver_scan" where
  "resolver_line text st = (let line = TrimSpace text in
     if line = [] \<or> HasPrefix line ''#'' \<or> HasPrefix line '';'' then st
     else let fields = Fields line in
       if length fields < 2 \<or> fields ! 0 \<noteq> ''nameserver'' then st
       else (case ParseIP (fields ! 1) of None \<Rightarrow> st
         | Some ip \<Rightarrow>
           if IsLoopback ip then st
           else if IP_String ip \<in> set (seen_ips st) then st
           else if maxSystemResolvers \<le> length (seen_ips st) then st
           else let st = st\<lparr>seen_ips := sadd (IP_String ip) (seen_ips st)\<rparr> in
             if To4 ip \<noteq> None then st\<lparr>res_v4 := res_v4 st @ [ip]\<rparr>
             else st\<lparr>res_v6 := res_v6 st @ [ip]\<rparr>))"

text \<open>\<open>files\<close> holds, for each path in order, the lines \<^verbatim>\<open>bufio.Scanner\<close> delivers, or \<open>None\<close> when the
  file cannot be opened.\<close>

definition SystemResolverIPs :: "string list option list \<Rightarrow> bytes list \<times> bytes list" where
  "SystemResolverIPs files = (let st = foldl (\<lambda>st f. case f of None \<Rightarrow> st
       | Some ls \<Rightarrow> foldl (\<lambda>st l. resolver_line l st) st ls)
       \<lparr>seen_ips = [], res_v4 = [], res_v6 = []\<rparr> files
     in (res_v4 st, res_v6 st))"

section \<open>The parsed policy is well formed\<close>

lemma each_invariant:
  assumes "\<And>x s s'. f x s = Inr s' \<Longrightarrow> I s \<Longrightarrow> I s'"
  shows "each f xs s = Inr s' \<Longrightarrow> I s \<Longrightarrow> I s'"
  by (induction xs arbitrary: s) (auto split: sum.splits intro: assms)

lemma each_append: "each f (xs @ ys) s = (case each f xs s of Inl e \<Rightarrow> Inl e | Inr s' \<Rightarrow> each f ys s')"
  by (induction xs arbitrary: s) (auto split: sum.splits)

definition wf_host :: "string \<Rightarrow> bool" where
  "wf_host h \<longleftrightarrow> length h \<le> MaxAllowedHostnameBytes \<and> validHostnameSuffix (TrimSuffix h ''.'')"

definition wf_wild :: "string \<Rightarrow> bool" where
  "wf_wild s \<longleftrightarrow> length s \<le> MaxAllowedHostnameBytes \<and> validHostnameSuffix s"

definition wf_allow_net :: "ipnet option \<Rightarrow> bool" where
  "wf_allow_net x \<longleftrightarrow> (\<exists>net n. x = Some net \<and> (is_net4 n net \<or> is_net6 n net))"

definition wf_allow_net6 :: "ipnet option \<Rightarrow> bool" where
  "wf_allow_net6 x \<longleftrightarrow> (\<exists>net n. x = Some net \<and> is_net6 n net)"

definition wf_lists :: "policy \<Rightarrow> bool" where
  "wf_lists p \<longleftrightarrow> distinct (exactHosts p) \<and> list_all wf_host (exactHosts p) \<and>
     list_all wf_wild (wildSuffixes p) \<and> wf_v4set (ips p) \<and> wf_v6set (ipv6s p) \<and>
     list_all wf_allow_net (nets p) \<and> list_all wf_allow_net6 (ipv6nets p)"

lemma wf_lists_empty [simp]: "wf_lists empty_policy"
  by (simp add: wf_lists_def empty_policy_def wf_v4set_def wf_v6set_def)

lemma parse_host_wf: "parse_host ul h p = Inr p' \<Longrightarrow> wf_lists p \<Longrightarrow> wf_lists p'"
  by (auto simp: parse_host_def Let_def wf_lists_def wf_host_def wf_wild_def list_all_iff
      split: if_splits)

lemma wf_allow_net_ParseCIDR: "ParseCIDR s = Some (ip, net) \<Longrightarrow> wf_allow_net (Some net)"
  by (elim ParseCIDR_shape) (auto simp: wf_allow_net_def)

lemma wf_allow_net6_ParseCIDR:
  "ParseCIDR s = Some (ip, net) \<Longrightarrow> To4 ip = None \<Longrightarrow> wf_allow_net6 (Some net)"
  by (elim ParseCIDR_shape) (auto simp: wf_allow_net6_def)

lemma parse_ip_wf: "parse_ip raw p = Inr p' \<Longrightarrow> wf_lists p \<Longrightarrow> wf_lists p'"
  by (auto simp: parse_ip_def Let_def wf_lists_def wf_v4set_def wf_v6set_def To4_None_To16
      dest: To4_length split: if_splits option.splits)
    (rule wf_allow_net_ParseCIDR wf_allow_net6_ParseCIDR, assumption+)+

definition wf_policy :: "policy \<Rightarrow> bool" where
  "wf_policy p \<longleftrightarrow> wf_lists p \<and> length (ipv6s p) \<le> MaxAllowedDefendIPv6Keys \<and>
     length (ipv6nets p) \<le> MaxAllowedDefendIPv6Keys \<and>
     (enabled p \<longleftrightarrow> exactHosts p \<noteq> [] \<or> wildSuffixes p \<noteq> [] \<or> ips p \<noteq> [] \<or> nets p \<noteq> [] \<or>
        ipv6s p \<noteq> [] \<or> ipv6nets p \<noteq> [])"

lemma wf_lists_enabled [simp]: "wf_lists (p\<lparr>enabled := b\<rparr>) = wf_lists p"
  by (simp add: wf_lists_def)

lemma wf_policy_ignored [simp]: "wf_policy (p\<lparr>ignored := b\<rparr>) = wf_policy p"
  by (simp add: wf_policy_def wf_lists_def)

lemma Parse_wf: "Parse ul h i = Inr p \<Longrightarrow> wf_policy p"
proof -
  assume "Parse ul h i = Inr p"
  then obtain p1 p2 where 1: "each (parse_host ul) (splitFields h) empty_policy = Inr p1"
    and 2: "each parse_ip (splitFields i) p1 = Inr p2"
    and p: "length (ipv6s p2) \<le> MaxAllowedDefendIPv6Keys"
      "length (ipv6nets p2) \<le> MaxAllowedDefendIPv6Keys"
      "p = p2\<lparr>enabled := exactHosts p2 \<noteq> [] \<or> wildSuffixes p2 \<noteq> [] \<or> ips p2 \<noteq> [] \<or>
            nets p2 \<noteq> [] \<or> ipv6s p2 \<noteq> [] \<or> ipv6nets p2 \<noteq> []\<rparr>"
    by (auto simp: Parse_def not_less split: sum.splits if_splits)
  have "wf_lists p1"
    using each_invariant [of "parse_host ul" wf_lists, OF _ 1] parse_host_wf by auto
  then have "wf_lists p2"
    using each_invariant [of parse_ip wf_lists, OF _ 2] parse_ip_wf by blast
  with p show ?thesis
    by (auto simp: wf_policy_def)
qed

lemma Parse_ignored: "Parse ul h i = Inr p \<Longrightarrow> ignored p = []"
proof -
  have h: "parse_host ul x s = Inr s' \<Longrightarrow> ignored s = [] \<Longrightarrow> ignored s' = []" for x s s'
    by (auto simp: parse_host_def Let_def split: if_splits)
  have i: "parse_ip x s = Inr s' \<Longrightarrow> ignored s = [] \<Longrightarrow> ignored s' = []" for x s s'
    by (auto simp: parse_ip_def Let_def split: if_splits option.splits)
  assume "Parse ul h i = Inr p"
  then obtain p1 p2 where 1: "each (parse_host ul) (splitFields h) empty_policy = Inr p1"
    and 2: "each parse_ip (splitFields i) p1 = Inr p2" and p: "ignored p = ignored p2"
    by (auto simp: Parse_def split: sum.splits if_splits)
  from each_invariant [of "parse_host ul" "\<lambda>s. ignored s = []", OF h 1] have "ignored p1 = []"
    by (simp add: empty_policy_def)
  with each_invariant [of parse_ip "\<lambda>s. ignored s = []", OF i 2] p show ?thesis
    by simp
qed

section \<open>One label under a wildcard\<close>

lemma hostMatchesWildcard_iff:
  "hostMatchesWildcard fqdn suf \<longleftrightarrow>
     (\<exists>label. label \<noteq> [] \<and> CHR ''.'' \<notin> set label \<and> fqdn = label @ CHR ''.'' # suf)"
proof (cases "HasSuffix fqdn (CHR ''.'' # suf)")
  case True
  then obtain t where t: "fqdn = t @ CHR ''.'' # suf"
    by (auto simp: HasSuffix_iff)
  then show ?thesis
    by (auto simp: hostMatchesWildcard_def HasSuffix_iff)
next
  case False
  then show ?thesis
    by (auto simp: hostMatchesWildcard_def HasSuffix_iff)
qed

section \<open>Merged networks\<close>

text \<open>\<open>eff4 n net\<close>: the network is effectively the IPv4 prefix of length \<open>n\<close> of its address. A
  16-byte mask on a 4-byte address counts, since Go then uses its last four bytes.\<close>

definition eff4 :: "nat \<Rightarrow> ipnet \<Rightarrow> bool" where
  "eff4 n net \<longleftrightarrow> n \<le> 32 \<and> length (net_ip net) = 4 \<and>
     networkNumberAndMask net = Some (net_ip net, CIDRMask n 32)"

definition wf_ignored :: "ipnet option \<Rightarrow> bool" where
  "wf_ignored x \<longleftrightarrow> (\<exists>net n. x = Some net \<and> eff4 n net)"

lemma eff4_is_net4: "is_net4 n net \<Longrightarrow> eff4 n net"
  by (simp add: eff4_def is_net4_def networkNumberAndMask_def)

lemma eff4_Contains:
  assumes "eff4 n net" "length a = 4"
  shows "IPNet_Contains net a \<longleftrightarrow> take n (addr_bits a) = take n (addr_bits (net_ip net))"
  using assms masked_eq_iff [of "net_ip net" a n]
  by (auto simp: IPNet_Contains_def eff4_def CIDRMask_def)

lemma eff4_String: "eff4 n net \<Longrightarrow> IPNet_String net = v4_string (net_ip net) @ ''/'' @ itoa n"
  by (simp add: IPNet_String_def eff4_def CIDRMask_def simpleMaskLength_cidr IP_String_4)

lemma eff4_String_inj:
  assumes "eff4 m a" "eff4 n b" "IPNet_String a = IPNet_String b"
  shows "net_ip a = net_ip b \<and> m = n"
proof -
  have l: "length (net_ip a) = 4" "length (net_ip b) = 4"
    using assms by (simp_all add: eff4_def)
  have "Cut (IPNet_String a) (CHR ''/'') = Some (v4_string (net_ip a), itoa m)"
    "Cut (IPNet_String b) (CHR ''/'') = Some (v4_string (net_ip b), itoa n)"
    using l by (simp_all add: eff4_String [OF assms(1)] eff4_String [OF assms(2)]
        Cut_append v4_string_no_slash)
  with assms(3) have "v4_string (net_ip a) = v4_string (net_ip b)" "itoa m = itoa n"
    by auto
  with l show ?thesis
    by (simp add: v4_string_inj)
qed

lemma eff4_Contains_String:
  assumes "eff4 m a" "eff4 n b" "IPNet_String a = IPNet_String b" "length x = 4"
  shows "IPNet_Contains a x = IPNet_Contains b x"
  using eff4_String_inj [OF assms(1-3)] assms by (simp add: eff4_Contains)

lemma list_ex_NetsContains:
  "length a = 4 \<Longrightarrow> NetsContains ns a \<longleftrightarrow> (\<exists>n. Some n \<in> set ns \<and> IPNet_Contains n a)"
  by (auto simp: NetsContains_def list_ex_iff split: option.splits)

lemma ipnet_eta [simp]: "\<lparr>net_ip = net_ip net, net_mask = net_mask net\<rparr> = (net :: ipnet)"
  by simp

abbreviation net_strings :: "ipnet option list \<Rightarrow> string list" where
  "net_strings ns \<equiv> map (\<lambda>x. IPNet_String (the x)) ns"

lemma wf_ignored_Cons:
  assumes "list_all wf_ignored (x # ns)"
  obtains n net where "x = Some net" "eff4 n net" "To4 (net_ip net) = Some (net_ip net)"
    "list_all wf_ignored ns"
  using assms by (auto simp: wf_ignored_def eff4_def)

lemma merge_nets_wf:
  assumes "list_all wf_ignored ns" "list_all wf_ignored out"
    "distinct (net_strings out)" "set seen = set (net_strings out)"
  shows "list_all wf_ignored (merge_nets ns seen out) \<and>
    distinct (net_strings (merge_nets ns seen out)) \<and> length (merge_nets ns seen out) \<le> length out + length ns"
  using assms
proof (induction ns arbitrary: seen out)
  case (Cons x ns)
  from Cons.prems(1) show ?case
  proof (rule wf_ignored_Cons)
    fix n net
    assume net: "x = Some net" "eff4 n net" "To4 (net_ip net) = Some (net_ip net)"
      "list_all wf_ignored ns"
    then have "wf_ignored (Some net)"
      by (auto simp: wf_ignored_def)
    with net Cons.prems Cons.IH [of out seen]
      Cons.IH [of "out @ [Some net]" "sadd (IPNet_String net) seen"]
    show ?thesis
      by (auto simp: Let_def)
  qed
qed simp

lemma merge_nets_contains:
  assumes "list_all wf_ignored ns" "list_all wf_ignored out" "set seen = set (net_strings out)"
    "length a = 4"
  shows "NetsContains (merge_nets ns seen out) a \<longleftrightarrow> NetsContains out a \<or> NetsContains ns a"
  using assms
proof (induction ns arbitrary: seen out)
  case Nil
  then show ?case
    by (simp add: NetsContains_def)
next
  case (Cons x ns)
  from Cons.prems(1) show ?case
  proof (rule wf_ignored_Cons)
    fix n net
    assume net: "x = Some net" "eff4 n net" "To4 (net_ip net) = Some (net_ip net)"
      "list_all wf_ignored ns"
    then have wf: "wf_ignored (Some net)"
      by (auto simp: wf_ignored_def)
    show ?thesis
    proof (cases "IPNet_String net \<in> set seen")
      case True
      then obtain m where m: "Some m \<in> set out" "IPNet_String m = IPNet_String net"
        using Cons.prems(2,3) by (fastforce simp: list_all_iff wf_ignored_def)
      with Cons.prems(2) obtain k where "eff4 k m"
        by (force simp: list_all_iff wf_ignored_def)
      with m net Cons.prems(4) have "IPNet_Contains net a = IPNet_Contains m a"
        using eff4_Contains_String by metis
      with True net m Cons.prems Cons.IH [of out seen] show ?thesis
        by (auto simp: Let_def list_ex_NetsContains)
    next
      case False
      with net wf Cons.prems Cons.IH [of "out @ [Some net]" "sadd (IPNet_String net) seen"]
      show ?thesis
        by (auto simp: Let_def list_ex_NetsContains)
    qed
  qed
qed

lemma mergeDedupedNets_wf:
  assumes "list_all wf_ignored a" "list_all wf_ignored b"
  shows "list_all wf_ignored (mergeDedupedNets a b)" "distinct (net_strings (mergeDedupedNets a b))"
    "length (mergeDedupedNets a b) \<le> length a + length b"
  using merge_nets_wf [of "a @ b" "[]" "[]"] assms by (simp_all add: mergeDedupedNets_def)

lemma mergeDedupedNets_contains:
  assumes "list_all wf_ignored a" "list_all wf_ignored b" "length x = 4"
  shows "NetsContains (mergeDedupedNets a b) x \<longleftrightarrow> NetsContains a x \<or> NetsContains b x"
  using merge_nets_contains [of "a @ b" "[]" "[]" x] assms
  by (auto simp: mergeDedupedNets_def list_ex_NetsContains)

section \<open>Ignored networks are IPv4\<close>

lemma drop_cidr_mask: "drop j (cidr_mask_bytes k n) = cidr_mask_bytes (k - j) (n - 8 * j)"
proof (induction k arbitrary: j n)
  case (Suc k)
  then show ?case
    by (cases j) (auto simp: algebra_simps)
qed simp

lemma and_eq_ff: "x AND m = 0xff \<Longrightarrow> m = (0xff :: byte)"
  by (auto simp: byte_all_bits bit_and_iff)

lemma mapped_mask_ge:
  assumes "is_net6 n net" "To4 (net_ip net) = Some a"
  shows "96 \<le> n"
proof (rule ccontr)
  assume "\<not> 96 \<le> n"
  then have n: "n - 88 < 8" by simp
  have "take 12 (net_ip net) = v4InV6Prefix"
    using assms by (auto simp: is_net6_def To4_def split: if_splits)
  then have "net_ip net ! 11 = 0xff"
    by (auto simp: v4InV6Prefix_def dest: arg_cong [of _ _ "\<lambda>l. l ! 11"])
  moreover have "net_ip net ! 11 = (net_ip net ! 11) AND (net_mask net ! 11)"
  proof -
    have "length (net_ip net) = 16" "length (net_mask net) = 16"
      using assms(1) by (simp_all add: is_net6_def)
    then have "map2 (AND) (net_ip net) (net_mask net) ! 11 = (net_ip net ! 11) AND (net_mask net ! 11)"
      by simp
    moreover have "map2 (AND) (net_ip net) (net_mask net) = net_ip net"
      using assms(1) unfolding is_net6_def by blast
    ultimately show ?thesis
      by simp
  qed
  ultimately have "net_mask net ! 11 = 0xff"
    using and_eq_ff by metis
  moreover have "net_mask net ! 11 = hd (drop 11 (cidr_mask_bytes 16 n))"
    using assms(1) by (simp add: is_net6_def CIDRMask_def hd_drop_conv_nth)
  moreover have "hd (drop 11 (cidr_mask_bytes 16 n)) = NOT (drop_bit (n - 88) 0xff)"
    using n cidr_mask_bytes.simps(2) [of 4 "n - 88"] by (simp add: drop_cidr_mask)
  ultimately show False
    using mask_not_ff [OF n] by simp
qed

lemma eff4_parsed:
  assumes "ParseCIDR s = Some (ip, net)" "To4 (net_ip net) = Some a"
  shows "\<exists>n. eff4 n \<lparr>net_ip = a, net_mask = net_mask net\<rparr>"
  using assms(1)
proof (cases rule: ParseCIDR_shape)
  case (v4 b n)
  then have "a = net_ip net"
    using assms(2) by (simp add: is_net4_def)
  with v4(3) show ?thesis
    using eff4_is_net4 by auto
next
  case (v6 n)
  have a: "length a = 4"
    using To4_length [OF assms(2)] .
  have "drop 12 (CIDRMask n 128) = CIDRMask (n - 96) 32"
    by (simp add: CIDRMask_def drop_cidr_mask)
  with v6 a mapped_mask_ge [OF v6(2) assms(2)] show ?thesis
    by (intro exI [of _ "n - 96"]) (auto simp: eff4_def networkNumberAndMask_def is_net6_def)
qed

lemma ParseIgnoredIPNets_wf: "ParseIgnoredIPNets raw = Inr ns \<Longrightarrow> list_all wf_ignored ns"
proof -
  have step: "parse_ignored t s = Inr s' \<Longrightarrow> list_all wf_ignored s \<Longrightarrow> list_all wf_ignored s'" for t s s'
    by (auto simp: parse_ignored_def wf_ignored_def split: option.splits)
      (rule eff4_parsed, assumption+)
  assume "ParseIgnoredIPNets raw = Inr ns"
  then show ?thesis
    using each_invariant [of parse_ignored "list_all wf_ignored", OF step]
    by (auto simp: ParseIgnoredIPNets_def)
qed

definition default_nets :: "ipnet option list" where
  "default_nets = [Some \<lparr>net_ip = [10, 0, 0, 0], net_mask = [255, 0, 0, 0]\<rparr>,
     Some \<lparr>net_ip = [172, 16, 0, 0], net_mask = [255, 240, 0, 0]\<rparr>]"

lemma DefaultIgnored_value: "DefaultIgnoredIPv4Nets = Inr default_nets"
  by code_simp

lemma default_nets_contains:
  assumes "length a = 4"
  shows "NetsContains default_nets a \<longleftrightarrow> a ! 0 = 10 \<or> a ! 0 = 172 \<and> (a ! 1) AND 0xf0 = 0x10"
  using list4 [OF assms]
  by (auto simp: default_nets_def NetsContains_def IPNet_Contains_def networkNumberAndMask_def)

lemma default_nets_wf: "list_all wf_ignored (if md then default_nets else [])"
  using ParseIgnoredIPNets_wf DefaultIgnored_value by (simp add: DefaultIgnoredIPv4Nets_def)

lemma BuildPolicyEx_cases:
  assumes "BuildPolicyEx ul h i g md = Inr p"
  obtains q user where "Parse ul h i = Inr q" "ParseIgnoredIPNets g = Inr user"
    "p = q\<lparr>ignored := mergeDedupedNets (if md then default_nets else []) user\<rparr>"
    "length (ignored p) \<le> MaxIgnoredIPv4Nets"
proof (cases md)
  case True
  with assms that show thesis
    by (simp add: BuildPolicyEx_def MergeDefaultIgnoredNets_def DefaultIgnored_value not_less
        split: sum.splits if_splits)
next
  case False
  with assms that show thesis
    by (simp add: BuildPolicyEx_def not_less split: sum.splits if_splits)
qed

lemma BuildPolicyEx_wf:
  assumes "BuildPolicyEx ul h i g md = Inr p"
  shows "wf_policy p \<and> list_all wf_ignored (ignored p) \<and> distinct (net_strings (ignored p)) \<and>
    length (ignored p) \<le> MaxIgnoredIPv4Nets"
  using assms
proof (rule BuildPolicyEx_cases)
  fix q user
  assume *: "Parse ul h i = Inr q" "ParseIgnoredIPNets g = Inr user"
    "p = q\<lparr>ignored := mergeDedupedNets (if md then default_nets else []) user\<rparr>"
    "length (ignored p) \<le> MaxIgnoredIPv4Nets"
  show ?thesis
    using * Parse_wf [OF *(1)]
      mergeDedupedNets_wf [OF default_nets_wf [of md] ParseIgnoredIPNets_wf [OF *(2)]]
    by (simp del: map_map)
qed

lemma BuildPolicyEx_ignored:
  assumes "BuildPolicyEx ul h i g md = Inr p" "length a = 4"
  shows "NetsContains (ignored p) a \<longleftrightarrow>
    md \<and> (a ! 0 = 10 \<or> a ! 0 = 172 \<and> (a ! 1) AND 0xf0 = 0x10) \<or>
    (\<exists>user. ParseIgnoredIPNets g = Inr user \<and> NetsContains user a)"
  using assms(1)
proof (rule BuildPolicyEx_cases)
  fix q user
  assume *: "Parse ul h i = Inr q" "ParseIgnoredIPNets g = Inr user"
    "p = q\<lparr>ignored := mergeDedupedNets (if md then default_nets else []) user\<rparr>"
  show ?thesis
    using * mergeDedupedNets_contains [OF default_nets_wf [of md] ParseIgnoredIPNets_wf [OF *(2)] assms(2)]
      default_nets_contains [OF assms(2)]
    by (cases md) (auto simp: NetsContains_def [of "[]"])
qed

section \<open>System resolvers\<close>

definition wf_scan :: "resolver_scan \<Rightarrow> bool" where
  "wf_scan st \<longleftrightarrow> distinct (seen_ips st) \<and> length (seen_ips st) \<le> maxSystemResolvers \<and>
     set (seen_ips st) = IP_String ` (set (res_v4 st) \<union> set (res_v6 st)) \<and>
     length (res_v4 st) + length (res_v6 st) = length (seen_ips st) \<and>
     (\<forall>ip \<in> set (res_v4 st). length ip = 16 \<and> \<not> IsLoopback ip \<and> To4 ip \<noteq> None) \<and>
     (\<forall>ip \<in> set (res_v6 st). length ip = 16 \<and> \<not> IsLoopback ip \<and> To4 ip = None)"

lemma resolver_line_wf: "wf_scan st \<Longrightarrow> wf_scan (resolver_line l st)"
  by (auto simp: resolver_line_def wf_scan_def Let_def sadd_def dest: ParseIP_length
      split: option.splits if_splits)

lemma SystemResolverIPs_wf:
  assumes "SystemResolverIPs files = (v4, v6)"
  shows "length v4 + length v6 \<le> maxSystemResolvers \<and>
    (\<forall>ip \<in> set v4. \<not> IsLoopback ip \<and> To4 ip \<noteq> None) \<and>
    (\<forall>ip \<in> set v6. \<not> IsLoopback ip \<and> To4 ip = None \<and> length ip = 16)"
proof -
  have l: "wf_scan st \<Longrightarrow> wf_scan (foldl (\<lambda>st l. resolver_line l st) st ls)" for st ls
    by (induction ls arbitrary: st) (auto simp: resolver_line_wf)
  have "wf_scan st \<Longrightarrow> wf_scan (foldl (\<lambda>st f. case f of None \<Rightarrow> st
       | Some ls \<Rightarrow> foldl (\<lambda>st l. resolver_line l st) st ls) st files)" for st
    by (induction files arbitrary: st) (auto simp: l split: option.splits)
  from this [of "\<lparr>seen_ips = [], res_v4 = [], res_v6 = []\<rparr>"] assms show ?thesis
    by (auto simp: SystemResolverIPs_def wf_scan_def Let_def)
qed

section \<open>Properties\<close>

text \<open>C27. Every policy the agent builds is well formed: hosts and wildcard suffixes are valid lower-case
  names, literal addresses have their family's length without duplicates, networks carry canonical
  masks, the IPv6 lists respect their caps, the policy is enabled exactly when something is listed,
  and the ignored networks are IPv4, pairwise different and within their cap.\<close>

theorem built_policy_wf:
  "BuildPolicyEx ul h i g md = Inr p \<Longrightarrow>
   wf_policy p \<and> list_all wf_ignored (ignored p) \<and> distinct (net_strings (ignored p)) \<and>
   length (ignored p) \<le> MaxIgnoredIPv4Nets"
  by (rule BuildPolicyEx_wf)

lemma built_example:
  "\<exists>p. BuildPolicyEx (\<lambda>s. s) ''*.example.com GitHub.com'' ''10.1.2.3 192.168.0.0/16 2001:db8::1''
     ''169.254.0.0/16 10.0.0.0/8'' True = Inr p"
proof -
  let ?r = "BuildPolicyEx (\<lambda>s. s) ''*.example.com GitHub.com'' ''10.1.2.3 192.168.0.0/16 2001:db8::1''
     ''169.254.0.0/16 10.0.0.0/8'' True"
  have "isl ?r = False"
    by code_simp
  then show ?thesis
    by (cases ?r) auto
qed

theorem built_policy_wf_witness:
  "\<exists>p. BuildPolicyEx (\<lambda>s. s) ''*.example.com GitHub.com'' ''10.1.2.3 192.168.0.0/16 2001:db8::1''
     ''169.254.0.0/16 10.0.0.0/8'' True = Inr p \<and> wf_policy p \<and> list_all wf_ignored (ignored p)"
  using built_example built_policy_wf by blast

text \<open>The ignored networks of a built policy cover an IPv4 address exactly when the default private
  ranges 10.0.0.0/8 and 172.16.0.0/12 were asked for and cover it, or one of the operator's networks
  does: merging and deduplicating changes no verdict.\<close>

theorem built_policy_ignores:
  "BuildPolicyEx ul h i g md = Inr p \<Longrightarrow> length a = 4 \<Longrightarrow>
   NetsContains (IgnoredIPv4Nets (Some p)) a \<longleftrightarrow>
     md \<and> (a ! 0 = 10 \<or> a ! 0 = 172 \<and> (a ! 1) AND 0xf0 = 0x10) \<or>
     (\<exists>user. ParseIgnoredIPNets g = Inr user \<and> NetsContains user a)"
  using BuildPolicyEx_ignored [of ul h i g md p a] by (simp add: IgnoredIPv4Nets_def)

theorem built_policy_ignores_witness:
  "\<exists>p. BuildPolicyEx (\<lambda>s. s) ''*.example.com GitHub.com'' ''10.1.2.3 192.168.0.0/16 2001:db8::1''
     ''169.254.0.0/16 10.0.0.0/8'' True = Inr p \<and> NetsContains (IgnoredIPv4Nets (Some p)) [172, 20, 0, 1]"
proof -
  obtain p where p: "BuildPolicyEx (\<lambda>s. s) ''*.example.com GitHub.com''
      ''10.1.2.3 192.168.0.0/16 2001:db8::1'' ''169.254.0.0/16 10.0.0.0/8'' True = Inr p"
    using built_example by blast
  have "NetsContains (IgnoredIPv4Nets (Some p)) [172, 20, 0, 1]"
    using built_policy_ignores [OF p, of "[172, 20, 0, 1]"] by simp
  with p show ?thesis
    by blast
qed

text \<open>A wildcard suffix matches exactly the names made of one non-empty label, a dot and the suffix.\<close>

theorem wildcard_one_label:
  "hostMatchesWildcard fqdn suf \<longleftrightarrow>
     (\<exists>label. label \<noteq> [] \<and> CHR ''.'' \<notin> set label \<and> fqdn = label @ CHR ''.'' # suf)"
  by (rule hostMatchesWildcard_iff)

text \<open>C28. A destination is classified as allowed exactly when the policy is enabled and its IPv4 address
  is listed, or its address is not an ignored one and its trimmed lower-case name is an exact host or
  one label below a wildcard suffix.\<close>

theorem classified_allowed:
  "Classify ul (Some p) fqdn ip = ClassAllowed \<longleftrightarrow> enabled p \<and>
     ((\<exists>a. To4 ip = Some a \<and> (a \<in> set (ips p) \<or> NetsContains (nets p) a)) \<or>
      (\<nexists>a. To4 ip = Some a \<and> NetsContains (ignored p) a) \<and>
      (\<exists>host. host = toLower ul (TrimSpace fqdn) \<and> host \<noteq> [] \<and>
        (host \<in> set (exactHosts p) \<or>
         (\<exists>suf label. suf \<in> set (wildSuffixes p) \<and> label \<noteq> [] \<and> CHR ''.'' \<notin> set label \<and>
            host = label @ CHR ''.'' # suf))))"
proof -
  have e: "NetsContains [] a = False" for a
    by (simp add: NetsContains_def)
  show ?thesis
    by (cases "To4 ip")
      (auto simp: Classify_def classify_host_def Let_def list_ex_iff hostMatchesWildcard_iff e)
qed

text \<open>The resolvers taken from the system's resolv.conf files number at most eight in all, none is
  a loopback stub, and each list holds addresses of its own family.\<close>

theorem system_resolvers_bounded:
  "SystemResolverIPs files = (v4, v6) \<Longrightarrow> length v4 + length v6 \<le> maxSystemResolvers \<and>
   (\<forall>ip \<in> set v4. \<not> IsLoopback ip \<and> To4 ip \<noteq> None) \<and>
   (\<forall>ip \<in> set v6. \<not> IsLoopback ip \<and> To4 ip = None \<and> length ip = 16)"
  by (rule SystemResolverIPs_wf)

theorem system_resolvers_bounded_witness:
  "\<exists>v4 v6. SystemResolverIPs [Some [''nameserver 127.0.0.53'', ''nameserver 10.0.0.2''], None,
     Some [''nameserver 2001:db8::53'']] = (v4, v6) \<and> v4 \<noteq> [] \<and> v6 \<noteq> [] \<and> (\<forall>ip \<in> set v4. \<not> IsLoopback ip)"
proof -
  let ?r = "SystemResolverIPs [Some [''nameserver 127.0.0.53'', ''nameserver 10.0.0.2''], None,
     Some [''nameserver 2001:db8::53'']]"
  have "fst ?r \<noteq> [] \<and> snd ?r \<noteq> []"
    by code_simp
  then show ?thesis
    using system_resolvers_bounded [of _ "fst ?r" "snd ?r"] by (metis prod.collapse)
qed

end
