(* ===== verification/Allowlist.thy ===== *)
theory Allowlist
  imports Policy "HOL-Library.List_Lexorder" "HOL-Library.Char_ord"
begin

text \<open>
  Compilation of the domain allowlist (\<^verbatim>\<open>internal/policy/allowlist.go\<close>): normalisation, the
  per-domain resolution worker with its retry loop, the merge of the workers' results, the
  IP-to-owner map of the late-binding path, and the drift report.

  The resolver and the context are not part of the program: they are the argument \<open>env\<close>. A lookup
  may answer differently on every attempt. Workers write disjoint slots of a slice that is read
  only after they have all finished, so the concurrent run has the result of the sequential one.
  Log output is left out.
\<close>

datatype lookup = LookOk "bytes list" | LookCtx | LookErr

text \<open>\<open>gctx d k i\<close>: is the parent context done when the worker of \<open>d\<close> looks at it in attempt \<open>k\<close>,
  at the loop head (0), after the A lookup (1) or after the AAAA lookup (2).\<close>

record env =
  lk4 :: "string \<Rightarrow> nat \<Rightarrow> lookup"
  lk6 :: "string \<Rightarrow> nat \<Rightarrow> lookup"
  gctx :: "string \<Rightarrow> nat \<Rightarrow> nat \<Rightarrow> bool"

record CompileResult =
  Domains :: "string list"
  AllowedIPv4 :: IPv4Set
  AllowedIPv6 :: IPv6Set
  UnresolvedDomains :: "string list"
  WildcardRiskDomains :: "string list"
  CompileTimestamp :: int

record domainResult =
  dr_domain :: string
  ips4 :: "bytes list"
  ips6 :: "bytes list"
  resolved4 :: bool
  resolved6 :: bool

section \<open>Normalisation and wildcard risk\<close>

definition normalizeAllowlistDomains :: "(string \<Rightarrow> string) \<Rightarrow> string list \<Rightarrow> string list" where
  "normalizeAllowlistDomains ul domains = foldl (\<lambda>out raw.
     let domain = toLower ul (TrimSpace raw) in if domain = [] then out else sadd domain out) [] domains"

definition NormalizeDomainsFromRaw :: "(string \<Rightarrow> string) \<Rightarrow> string \<Rightarrow> string list" where
  "NormalizeDomainsFromRaw ul raw = normalizeAllowlistDomains ul (splitFields raw)"

definition highRiskWildcardSuffixes :: "string list" where
  "highRiskWildcardSuffixes = [''.githubusercontent.com'', ''.s3.amazonaws.com'',
     ''.blob.core.windows.net'', ''.azureedge.net'', ''.cloudfront.net'', ''.r2.dev'', ''.pages.dev'']"

definition scoreWildcardRisk :: "string list \<Rightarrow> string list" where
  "scoreWildcardRisk domains = filter (\<lambda>d. HasPrefix d ''*.'' \<and>
     list_ex (EqualFold (drop 1 d)) highRiskWildcardSuffixes) domains"

section \<open>The resolution worker\<close>

definition attempt4 :: "env \<Rightarrow> nat \<Rightarrow> domainResult \<Rightarrow> bool \<times> domainResult" where
  "attempt4 env k res = (if resolved4 res then (False, res)
     else (case lk4 env (dr_domain res) k of
       LookCtx \<Rightarrow> (gctx env (dr_domain res) k 1, res)
     | LookOk addrs \<Rightarrow> (let good = filter (\<lambda>ip. To4 ip \<noteq> None) addrs in
         (False, res\<lparr>ips4 := ips4 res @ good, resolved4 := good \<noteq> []\<rparr>))
     | LookErr \<Rightarrow> (False, res)))"

definition attempt6 :: "env \<Rightarrow> nat \<Rightarrow> domainResult \<Rightarrow> bool \<times> domainResult" where
  "attempt6 env k res = (if resolved6 res then (False, res)
     else (case lk6 env (dr_domain res) k of
       LookCtx \<Rightarrow> (gctx env (dr_domain res) k 2, res)
     | LookOk addrs \<Rightarrow> (let good = filter (\<lambda>ip. To4 ip = None \<and> To16 ip \<noteq> None) addrs in
         (False, res\<lparr>ips6 := ips6 res @ good, resolved6 := good \<noteq> []\<rparr>))
     | LookErr \<Rightarrow> (False, res)))"

fun worker :: "env \<Rightarrow> nat \<Rightarrow> nat \<Rightarrow> domainResult \<Rightarrow> domainResult" where
  "worker env k 0 res = res"
| "worker env k (Suc n) res = (if gctx env (dr_domain res) k 0 then res
     else (case attempt4 env k res of (True, r) \<Rightarrow> r
       | (False, r) \<Rightarrow> (case attempt6 env k r of (True, r) \<Rightarrow> r
         | (False, r) \<Rightarrow> if resolved4 r \<and> resolved6 r then r else worker env (Suc k) n r)))"

definition clampAttempts :: "int \<Rightarrow> nat" where
  "clampAttempts maxAttempts = nat (if maxAttempts < 1 then 1 else maxAttempts)"

definition resolveDomain :: "env \<Rightarrow> int \<Rightarrow> string \<Rightarrow> domainResult" where
  "resolveDomain env maxAttempts d = worker env 0 (clampAttempts maxAttempts)
     \<lparr>dr_domain = d, ips4 = [], ips6 = [], resolved4 = False, resolved6 = False\<rparr>"

section \<open>Merging the results\<close>

definition mergeResult :: "CompileResult \<Rightarrow> domainResult \<Rightarrow> CompileResult" where
  "mergeResult result res = (if \<not> (resolved4 res \<or> resolved6 res)
     then result\<lparr>UnresolvedDomains := UnresolvedDomains result @ [dr_domain res]\<rparr>
     else result\<lparr>AllowedIPv4 := foldl IPv4Set_Add (AllowedIPv4 result) (ips4 res),
       AllowedIPv6 := foldl IPv6Set_Add (AllowedIPv6 result) (ips6 res)\<rparr>)"

definition CompileDomainAllowlist ::
  "(string \<Rightarrow> string) \<Rightarrow> env \<Rightarrow> int \<Rightarrow> string list \<Rightarrow> int \<Rightarrow> CompileResult" where
  "CompileDomainAllowlist ul env now domains maxAttempts = (let
     normalized = normalizeAllowlistDomains ul domains;
     result = foldl mergeResult \<lparr>Domains = normalized, AllowedIPv4 = [], AllowedIPv6 = [],
       UnresolvedDomains = [], WildcardRiskDomains = [], CompileTimestamp = 0\<rparr>
       (map (resolveDomain env maxAttempts) normalized)
   in result\<lparr>UnresolvedDomains := sort (UnresolvedDomains result),
       WildcardRiskDomains := scoreWildcardRisk normalized, CompileTimestamp := now\<rparr>)"

definition ReResolve ::
  "(string \<Rightarrow> string) \<Rightarrow> env \<Rightarrow> int \<Rightarrow> CompileResult \<Rightarrow> int \<Rightarrow> CompileResult" where
  "ReResolve ul env now original maxAttempts =
     CompileDomainAllowlist ul env now (Domains original) maxAttempts"

section \<open>Owners of resolved addresses\<close>

fun owner_worker :: "env \<Rightarrow> string \<Rightarrow> nat \<Rightarrow> nat \<Rightarrow> bytes list" where
  "owner_worker env d k 0 = []"
| "owner_worker env d k (Suc n) = (if gctx env d k 0 then []
     else (case lk4 env d k of LookOk addrs \<Rightarrow> filter (\<lambda>ip. To4 ip \<noteq> None) addrs
       | _ \<Rightarrow> if gctx env d k 1 then [] else owner_worker env d (Suc k) n))"

definition owner_result :: "env \<Rightarrow> int \<Rightarrow> string \<Rightarrow> string \<times> bytes list" where
  "owner_result env maxAttempts d = (if HasPrefix d ''*.'' then ([], [])
     else (d, owner_worker env d 0 (clampAttempts maxAttempts)))"

definition own_ip :: "string \<Rightarrow> bytes \<Rightarrow> (bytes \<times> string) list \<Rightarrow> (bytes \<times> string) list" where
  "own_ip d ip out = (case To4 ip of None \<Rightarrow> out
     | Some k \<Rightarrow> (case map_of out k of None \<Rightarrow> AList.update k d out
       | Some existing \<Rightarrow> if d < existing then AList.update k d out else out))"

definition own_domain :: "string \<times> bytes list \<Rightarrow> (bytes \<times> string) list \<Rightarrow> (bytes \<times> string) list" where
  "own_domain res out = (if fst res = [] then out else fold (own_ip (fst res)) (snd res) out)"

definition ResolveOwners ::
  "(string \<Rightarrow> string) \<Rightarrow> env \<Rightarrow> string list \<Rightarrow> int \<Rightarrow> (bytes \<times> string) list" where
  "ResolveOwners ul env domains maxAttempts =
     fold own_domain (map (owner_result env maxAttempts) (normalizeAllowlistDomains ul domains)) []"

section \<open>Drift\<close>

record DriftReport =
  AddedIPs :: "string list"
  RemovedIPs :: "string list"
  CheckedAt :: int

definition Diff :: "int \<Rightarrow> CompileResult \<Rightarrow> CompileResult \<Rightarrow> DriftReport" where
  "Diff now original updated = \<lparr>
     AddedIPs = sort (IPv4Set_ForEach (AllowedIPv4 updated) (\<lambda>k acc.
       if \<not> IPv4Set_Contains (AllowedIPv4 original) k then acc @ [IP_String k] else acc) []),
     RemovedIPs = sort (IPv4Set_ForEach (AllowedIPv4 original) (\<lambda>k acc.
       if \<not> IPv4Set_Contains (AllowedIPv4 updated) k then acc @ [IP_String k] else acc) []),
     CheckedAt = now\<rparr>"

section \<open>Normalised domains\<close>

lemma set_normalize:
  "set (normalizeAllowlistDomains ul ds) = {d. d \<noteq> [] \<and> (\<exists>r \<in> set ds. d = toLower ul (TrimSpace r))}"
proof -
  have "set (foldl (\<lambda>out raw. let domain = toLower ul (TrimSpace raw) in
      if domain = [] then out else sadd domain out) out ds) =
    set out \<union> {d. d \<noteq> [] \<and> (\<exists>r \<in> set ds. d = toLower ul (TrimSpace r))}" for out
    by (induction ds arbitrary: out) (auto simp: Let_def)
  then show ?thesis
    by (simp add: normalizeAllowlistDomains_def)
qed

lemma distinct_normalize: "distinct (normalizeAllowlistDomains ul ds)"
proof -
  have "distinct out \<Longrightarrow> distinct (foldl (\<lambda>out raw. let domain = toLower ul (TrimSpace raw) in
      if domain = [] then out else sadd domain out) out ds)" for out
    by (induction ds arbitrary: out) (auto simp: Let_def)
  then show ?thesis
    by (simp add: normalizeAllowlistDomains_def)
qed

section \<open>What a worker returns\<close>

text \<open>\<open>offered4 env d n\<close>: the IPv4 addresses the resolver returned for \<open>d\<close> in its first \<open>n\<close>
  attempts; \<open>offered6\<close> likewise.\<close>

definition offered4 :: "env \<Rightarrow> string \<Rightarrow> nat \<Rightarrow> bytes set" where
  "offered4 env d n = {ip. To4 ip \<noteq> None \<and> (\<exists>k < n. \<exists>addrs. lk4 env d k = LookOk addrs \<and> ip \<in> set addrs)}"

definition offered6 :: "env \<Rightarrow> string \<Rightarrow> nat \<Rightarrow> bytes set" where
  "offered6 env d n = {ip. key6 ip \<noteq> None \<and> (\<exists>k < n. \<exists>addrs. lk6 env d k = LookOk addrs \<and> ip \<in> set addrs)}"

definition worker_inv :: "env \<Rightarrow> nat \<Rightarrow> domainResult \<Rightarrow> bool" where
  "worker_inv env k res \<longleftrightarrow> set (ips4 res) \<subseteq> offered4 env (dr_domain res) k \<and>
     set (ips6 res) \<subseteq> offered6 env (dr_domain res) k \<and>
     (resolved4 res \<longleftrightarrow> ips4 res \<noteq> []) \<and> (resolved6 res \<longleftrightarrow> ips6 res \<noteq> [])"

lemma offered_mono:
  "j \<le> k \<Longrightarrow> offered4 env d j \<subseteq> offered4 env d k" "j \<le> k \<Longrightarrow> offered6 env d j \<subseteq> offered6 env d k"
  by (auto simp: offered4_def offered6_def intro: less_le_trans)

lemma worker_inv_mono: "j \<le> k \<Longrightarrow> worker_inv env j res \<Longrightarrow> worker_inv env k res"
  using offered_mono [of j k env "dr_domain res"] by (auto simp: worker_inv_def)

lemma attempt4_dom: "attempt4 env k res = (b, r) \<Longrightarrow> dr_domain r = dr_domain res"
  by (auto simp: attempt4_def Let_def split: if_splits lookup.splits)

lemma attempt6_dom: "attempt6 env k res = (b, r) \<Longrightarrow> dr_domain r = dr_domain res"
  by (auto simp: attempt6_def Let_def split: if_splits lookup.splits)

lemma attempt4_inv:
  assumes "attempt4 env k res = (b, r)" "worker_inv env (Suc k) res"
  shows "worker_inv env (Suc k) r"
  using assms
  by (auto simp: attempt4_def Let_def worker_inv_def offered4_def split: if_splits lookup.splits)

lemma attempt6_inv:
  assumes "attempt6 env k res = (b, r)" "worker_inv env (Suc k) res"
  shows "worker_inv env (Suc k) r"
  using assms
  by (auto simp: attempt6_def Let_def worker_inv_def offered6_def key6_def
      split: if_splits lookup.splits)

lemma worker_inv_worker:
  "worker_inv env k res \<Longrightarrow> worker_inv env (k + n) (worker env k n res) \<and>
     dr_domain (worker env k n res) = dr_domain res"
proof (induction env k n res rule: worker.induct)
  case (2 env k n res)
  show ?case
  proof (cases "gctx env (dr_domain res) k 0")
    case True
    then show ?thesis
      using "2.prems" worker_inv_mono [of k "k + Suc n"] by simp
  next
    case False
    obtain b r where 4: "attempt4 env k res = (b, r)"
      by fastforce
    obtain c s where 6: "attempt6 env k r = (c, s)"
      by fastforce
    have "worker_inv env (Suc k) r" "worker_inv env (Suc k) s"
      using attempt4_inv [OF 4] attempt6_inv [OF 6] "2.prems" worker_inv_mono [of k "Suc k"] by auto
    moreover have "Suc k \<le> k + Suc n"
      by simp
    ultimately show ?thesis
      using False 4 6 "2.IH" attempt4_dom [OF 4] attempt6_dom [OF 6]
        worker_inv_mono [of "Suc k" "k + Suc n"]
      by (cases b; cases c) auto
  qed
qed simp

lemma resolveDomain_inv:
  "worker_inv env (clampAttempts m) (resolveDomain env m d) \<and> dr_domain (resolveDomain env m d) = d"
proof -
  have "worker_inv env 0
      \<lparr>dr_domain = d, ips4 = [], ips6 = [], resolved4 = False, resolved6 = False\<rparr>"
    by (simp add: worker_inv_def)
  from worker_inv_worker [OF this, of "clampAttempts m"] show ?thesis
    by (simp add: resolveDomain_def)
qed

lemma attempt4_keeps: "attempt4 env k res = (b, r) \<Longrightarrow> resolved4 res \<Longrightarrow> resolved4 r"
  by (auto simp: attempt4_def)

lemma attempt6_keeps: "attempt6 env k res = (b, r) \<Longrightarrow> resolved4 res \<Longrightarrow> resolved4 r"
  by (auto simp: attempt6_def Let_def split: if_splits lookup.splits)

lemma worker_keeps: "resolved4 res \<Longrightarrow> resolved4 (worker env k n res)"
proof (induction env k n res rule: worker.induct)
  case (2 env k n res)
  obtain b r where 4: "attempt4 env k res = (b, r)"
    by fastforce
  obtain c s where 6: "attempt6 env k r = (c, s)"
    by fastforce
  from attempt4_keeps [OF 4] attempt6_keeps [OF 6] "2.prems" have "resolved4 r" "resolved4 s"
    by simp_all
  with 4 6 2 show ?case
    by (cases b; cases c) auto
qed simp

lemma attempt_continues:
  assumes "\<And>i. \<not> gctx env (dr_domain res) k i"
  shows "attempt4 env k res = (False, snd (attempt4 env k res))"
    "attempt6 env k res = (False, snd (attempt6 env k res))"
  using assms by (auto simp: attempt4_def attempt6_def Let_def split: lookup.splits)

lemma attempt4_answer:
  assumes "lk4 env (dr_domain res) k = LookOk addrs" "\<exists>ip \<in> set addrs. To4 ip \<noteq> None"
  shows "resolved4 (snd (attempt4 env k res))"
  using assms by (auto simp: attempt4_def Let_def filter_empty_conv)

lemma worker_resolves4:
  assumes "\<And>j i. \<not> gctx env (dr_domain res) j i" "k \<le> j" "j < k + n"
    "lk4 env (dr_domain res) j = LookOk addrs" "\<exists>ip \<in> set addrs. To4 ip \<noteq> None"
  shows "resolved4 (worker env k n res)"
  using assms
proof (induction env k n res rule: worker.induct)
  case (2 env k n res)
  define r s where "r = snd (attempt4 env k res)" and "s = snd (attempt6 env k r)"
  have 4: "attempt4 env k res = (False, r)"
    using attempt_continues(1) [of env res k] "2.prems"(1) by (simp add: r_def)
  note d4 = attempt4_dom [OF 4]
  have 6: "attempt6 env k r = (False, s)"
    using attempt_continues(2) [of env r k] "2.prems"(1) d4 by (simp add: s_def)
  note d6 = attempt6_dom [OF 6]
  show ?case
  proof (cases "j = k")
    case True
    then have "resolved4 s"
      using "2.prems"(4,5) attempt4_answer [of env res k] attempt6_keeps [OF 6] by (simp add: r_def)
    then show ?thesis
      using 4 6 "2.prems"(1) worker_keeps by simp
  next
    case False
    then show ?thesis
      using "2.IH" "2.prems" 4 6 d4 d6 by auto
  qed
qed simp

section \<open>The compiled allowlist\<close>

lemma foldl_mergeResult:
  "AllowedIPv4 (foldl mergeResult r rs) =
     foldl IPv4Set_Add (AllowedIPv4 r) (concat (map ips4 (filter (\<lambda>x. resolved4 x \<or> resolved6 x) rs)))"
  "AllowedIPv6 (foldl mergeResult r rs) =
     foldl IPv6Set_Add (AllowedIPv6 r) (concat (map ips6 (filter (\<lambda>x. resolved4 x \<or> resolved6 x) rs)))"
  "UnresolvedDomains (foldl mergeResult r rs) =
     UnresolvedDomains r @ map dr_domain (filter (\<lambda>x. \<not> (resolved4 x \<or> resolved6 x)) rs)"
  "Domains (foldl mergeResult r rs) = Domains r"
  by (induction rs arbitrary: r) (auto simp: mergeResult_def)

definition reached :: "env \<Rightarrow> int \<Rightarrow> string \<Rightarrow> bool" where
  "reached env m d \<longleftrightarrow> resolved4 (resolveDomain env m d) \<or> resolved6 (resolveDomain env m d)"

lemma Compile_Domains [simp]:
  "Domains (CompileDomainAllowlist ul env now ds m) = normalizeAllowlistDomains ul ds"
  by (simp add: CompileDomainAllowlist_def Let_def foldl_mergeResult)

lemma Compile_Unresolved:
  "UnresolvedDomains (CompileDomainAllowlist ul env now ds m) =
     sort (filter (\<lambda>d. \<not> reached env m d) (normalizeAllowlistDomains ul ds))"
  using resolveDomain_inv [of env m]
  by (simp add: CompileDomainAllowlist_def Let_def foldl_mergeResult filter_map comp_def reached_def)

lemma ips4_reached: "ip \<in> set (ips4 (resolveDomain env m d)) \<Longrightarrow> reached env m d"
  using resolveDomain_inv [of env m d] by (auto simp: worker_inv_def reached_def)

lemma ips6_reached: "ip \<in> set (ips6 (resolveDomain env m d)) \<Longrightarrow> reached env m d"
  using resolveDomain_inv [of env m d] by (auto simp: worker_inv_def reached_def)

lemma Compile_IPv4:
  "set (AllowedIPv4 (CompileDomainAllowlist ul env now ds m)) =
     {k. \<exists>d \<in> set (normalizeAllowlistDomains ul ds). \<exists>ip \<in> set (ips4 (resolveDomain env m d)).
        To4 ip = Some k}"
  by (auto simp: CompileDomainAllowlist_def Let_def foldl_mergeResult v4.set_fold_add
      reached_def [symmetric] dest: ips4_reached)

lemma Compile_IPv6:
  "set (AllowedIPv6 (CompileDomainAllowlist ul env now ds m)) =
     {k. \<exists>d \<in> set (normalizeAllowlistDomains ul ds). \<exists>ip \<in> set (ips6 (resolveDomain env m d)).
        key6 ip = Some k}"
  by (auto simp: CompileDomainAllowlist_def Let_def foldl_mergeResult v6.set_fold_add
      reached_def [symmetric] dest: ips6_reached)

lemma Compile_wf:
  "wf_v4set (AllowedIPv4 (CompileDomainAllowlist ul env now ds m))"
  "wf_v6set (AllowedIPv6 (CompileDomainAllowlist ul env now ds m))"
  by (simp_all add: CompileDomainAllowlist_def Let_def foldl_mergeResult v4.invar_fold_add
      v6.invar_fold_add v4.invar_empty v6.invar_empty)

lemma resolveDomain_offered:
  "ip \<in> set (ips4 (resolveDomain env m d)) \<Longrightarrow> ip \<in> offered4 env d (clampAttempts m)"
  "ip \<in> set (ips6 (resolveDomain env m d)) \<Longrightarrow> ip \<in> offered6 env d (clampAttempts m)"
  using resolveDomain_inv [of env m d] by (auto simp: worker_inv_def)

section \<open>Owners\<close>

lemma own_ip_wf: "wf_map out \<Longrightarrow> wf_map (own_ip d ip out)"
  by (auto simp: own_ip_def wf_map_update split: option.splits)

text \<open>\<open>owned rs k\<close>: the domains of \<open>rs\<close> that own the address key \<open>k\<close>.\<close>

definition owned :: "(string \<times> bytes list) list \<Rightarrow> bytes \<Rightarrow> string set" where
  "owned rs k = {d. d \<noteq> [] \<and> (\<exists>addrs. (d, addrs) \<in> set rs \<and> (\<exists>ip \<in> set addrs. To4 ip = Some k))}"

definition min_opt :: "string set \<Rightarrow> string option" where
  "min_opt D = (if D = {} then None else Some (Min D))"

lemma own_ip_lookup:
  "map_of (own_ip d ip out) k = (if To4 ip = Some k
     then Some (case map_of out k of None \<Rightarrow> d | Some e \<Rightarrow> min d e) else map_of out k)"
  by (auto simp: own_ip_def AList.update_conv' min_def split: option.splits)

lemma own_ips_lookup:
  "map_of (fold (own_ip d) addrs out) k = (if \<exists>ip \<in> set addrs. To4 ip = Some k
     then Some (case map_of out k of None \<Rightarrow> d | Some e \<Rightarrow> min d e) else map_of out k)"
proof (induction addrs arbitrary: out)
  case (Cons ip addrs)
  show ?case
    by (auto simp: Cons.IH own_ip_lookup split: option.splits)
qed simp

lemma finite_owned: "finite (owned rs k)"
proof (rule finite_subset)
  show "owned rs k \<subseteq> fst ` set rs"
    by (force simp: owned_def)
qed simp

lemma own_domain_lookup:
  "map_of (own_domain (d, addrs) out) k = (if d \<noteq> [] \<and> (\<exists>ip \<in> set addrs. To4 ip = Some k)
     then Some (case map_of out k of None \<Rightarrow> d | Some e \<Rightarrow> min d e) else map_of out k)"
  by (simp add: own_domain_def own_ips_lookup)

lemma min_opt_min: "finite A \<Longrightarrow> min_opt (insert (min d e) A) = min_opt (insert d (insert e A))"
  by (cases "A = {}") (simp_all add: min_opt_def min.assoc)

lemma own_domains_lookup:
  "map_of (fold own_domain rs out) k = min_opt (owned rs k \<union> set_option (map_of out k))"
proof (induction rs arbitrary: out)
  case Nil
  then show ?case
    by (cases "map_of out k") (auto simp: owned_def min_opt_def)
next
  case (Cons r rs)
  obtain d addrs where r: "r = (d, addrs)"
    by fastforce
  have o: "owned (r # rs) k = owned rs k \<union>
      (if d \<noteq> [] \<and> (\<exists>ip \<in> set addrs. To4 ip = Some k) then {d} else {})"
    by (auto simp: owned_def r)
  show ?case
  proof (cases "d \<noteq> [] \<and> (\<exists>ip \<in> set addrs. To4 ip = Some k)")
    case True
    then show ?thesis
      using min_opt_min [OF finite_owned, of d _ rs k] unfolding o
      by (cases "map_of out k") (simp_all add: Cons.IH r own_domain_lookup insert_commute)
  next
    case False
    then show ?thesis
      unfolding o by (auto simp: Cons.IH r own_domain_lookup)
  qed
qed

lemma owner_worker_offered:
  "ip \<in> set (owner_worker env d k n) \<Longrightarrow> ip \<in> offered4 env d (k + n)"
proof (induction env d k n rule: owner_worker.induct)
  case (2 env d k n)
  show ?case
  proof (cases "lk4 env d k")
    case (LookOk addrs)
    with 2 show ?thesis
      by (auto simp: offered4_def split: if_splits intro!: exI [of _ k])
  qed (use 2 in \<open>auto simp: offered4_def split: if_splits\<close>)
qed simp

text \<open>\<open>resolvesTo env m d k\<close>: the owner worker of \<open>d\<close> returned an address with key \<open>k\<close>.\<close>

definition resolvesTo :: "env \<Rightarrow> int \<Rightarrow> string \<Rightarrow> bytes \<Rightarrow> bool" where
  "resolvesTo env m d k \<longleftrightarrow>
     (\<exists>ip \<in> set (owner_worker env d 0 (clampAttempts m)). To4 ip = Some k)"

lemma owned_owner_results:
  "owned (map (owner_result env m) (normalizeAllowlistDomains ul ds)) k =
     {d \<in> set (normalizeAllowlistDomains ul ds). \<not> HasPrefix d ''*.'' \<and> resolvesTo env m d k}"
  by (auto simp: owned_def owner_result_def resolvesTo_def set_normalize image_iff split: if_splits)

lemma ResolveOwners_lookup:
  "map_of (ResolveOwners ul env ds m) k = min_opt
     {d \<in> set (normalizeAllowlistDomains ul ds). \<not> HasPrefix d ''*.'' \<and> resolvesTo env m d k}"
  unfolding ResolveOwners_def own_domains_lookup owned_owner_results by simp

lemma ResolveOwners_wf: "wf_map (ResolveOwners ul env ds m)"
proof -
  have i: "wf_map out \<Longrightarrow> wf_map (fold (own_ip d) addrs out)" for d addrs out
    by (induction addrs arbitrary: out) (auto simp: own_ip_wf)
  have "wf_map out \<Longrightarrow> wf_map (fold own_domain rs out)" for rs out
    by (induction rs arbitrary: out) (auto simp: own_domain_def i)
  then show ?thesis
    by (simp add: ResolveOwners_def)
qed

section \<open>Drift reports\<close>

lemma ForEach_collect:
  "IPv4Set_ForEach s (\<lambda>k acc. if P k then acc @ [f k] else acc) [] = map f (filter P s)"
proof -
  have "fold (\<lambda>k acc. if P k then acc @ [f k] else acc) s acc = acc @ map f (filter P s)" for acc
    by (induction s arbitrary: acc) auto
  then show ?thesis
    by (simp add: IPv4Set_ForEach_def)
qed

lemma Diff_lists:
  "AddedIPs (Diff now a b) =
     sort (map IP_String (filter (\<lambda>k. \<not> IPv4Set_Contains (AllowedIPv4 a) k) (AllowedIPv4 b)))"
  "RemovedIPs (Diff now a b) =
     sort (map IP_String (filter (\<lambda>k. \<not> IPv4Set_Contains (AllowedIPv4 b) k) (AllowedIPv4 a)))"
  by (simp_all add: Diff_def ForEach_collect)

lemma v4set_Contains_key: "wf_v4set s \<Longrightarrow> length k = 4 \<Longrightarrow> IPv4Set_Contains s k \<longleftrightarrow> k \<in> set s"
  by (auto simp: IPv4Set_Contains_def)

lemma mset_perm_sort: "mset xs = mset ys \<Longrightarrow> sort xs = sort (ys :: string list)"
  by (metis properties_for_sort sorted_sort mset_sort)

section \<open>Properties\<close>


text \<open>Retries are not wasted: while no deadline or cancellation strikes, a domain for which any of the
  permitted attempts returns an IPv4 address is not reported as unresolved, whatever the other
  attempts return.\<close>

theorem retry_resolves:
  assumes "\<And>j i. \<not> gctx env d j i" "j < clampAttempts m" "lk4 env d j = LookOk addrs"
    "ip \<in> set addrs" "To4 ip = Some k"
  shows "d \<notin> set (UnresolvedDomains (CompileDomainAllowlist ul env now ds m))"
proof -
  have "resolved4 (worker env 0 (clampAttempts m)
      \<lparr>dr_domain = d, ips4 = [], ips6 = [], resolved4 = False, resolved6 = False\<rparr>)"
    by (rule worker_resolves4 [of _ _ _ j _ addrs]) (use assms in auto)
  then show ?thesis
    by (simp add: Compile_Unresolved reached_def resolveDomain_def)
qed

definition flaky_env :: env where
  "flaky_env = \<lparr>lk4 = (\<lambda>d k. if k < 2 then LookErr else LookOk [[140, 82, 112, 4]]),
     lk6 = (\<lambda>d k. LookErr), gctx = (\<lambda>d k i. False)\<rparr>"

theorem retry_resolves_witness:
  "''github.com'' \<notin> set (UnresolvedDomains (CompileDomainAllowlist (\<lambda>s. s) flaky_env 0 [''GitHub.com''] 3))"
  by (rule retry_resolves [of _ _ 2 _ "[[140, 82, 112, 4]]" "[140, 82, 112, 4]"])
    (simp_all add: flaky_env_def clampAttempts_def To4_def)

text \<open>The owner recorded for an address is the alphabetically first of the configured non-wildcard
  domains that resolve to it, and an address none of them resolves to has no owner: the seeded map
  does not depend on the order in which lookups finish.\<close>

theorem owner_is_least:
  "map_of (ResolveOwners ul env ds m) k = min_opt
     {d \<in> set (normalizeAllowlistDomains ul ds). \<not> HasPrefix d ''*.'' \<and> resolvesTo env m d k} \<and>
   distinct (map fst (ResolveOwners ul env ds m))"
  by (simp add: ResolveOwners_lookup ResolveOwners_wf)

lemma Contains_iff: "IPv4Set_Contains s ip \<longleftrightarrow> (\<exists>k. To4 ip = Some k \<and> k \<in> set s)"
  by (auto simp: IPv4Set_Contains_def split: option.splits)

text \<open>The drift report lists, sorted, exactly the addresses of the new compilation that the old one
  lacks, and of the old that the new lacks; it depends on the two sets only, not on the order in
  which they are walked.\<close>

theorem drift_is_difference:
  assumes "wf_v4set (AllowedIPv4 a)" "wf_v4set (AllowedIPv4 b)"
  shows "sorted (AddedIPs (Diff now a b)) \<and> sorted (RemovedIPs (Diff now a b)) \<and>
    set (AddedIPs (Diff now a b)) = IP_String ` (set (AllowedIPv4 b) - set (AllowedIPv4 a)) \<and>
    set (RemovedIPs (Diff now a b)) = IP_String ` (set (AllowedIPv4 a) - set (AllowedIPv4 b)) \<and>
    (\<forall>a' b'. mset (AllowedIPv4 a') = mset (AllowedIPv4 a) \<longrightarrow> mset (AllowedIPv4 b') = mset (AllowedIPv4 b) \<longrightarrow>
       Diff now a' b' = Diff now a b)"
proof -
  have len: "length k = 4" if "k \<in> set (AllowedIPv4 a) \<union> set (AllowedIPv4 b)" for k
    using that assms by (auto simp: wf_v4set_def list_all_iff)
  have s: "set (filter (\<lambda>k. \<not> IPv4Set_Contains (AllowedIPv4 a) k) (AllowedIPv4 b)) =
      set (AllowedIPv4 b) - set (AllowedIPv4 a)"
    "set (filter (\<lambda>k. \<not> IPv4Set_Contains (AllowedIPv4 b) k) (AllowedIPv4 a)) =
      set (AllowedIPv4 a) - set (AllowedIPv4 b)"
    using v4set_Contains_key [OF assms(1)] v4set_Contains_key [OF assms(2)] len by auto
  have d: "Diff now a' b' = Diff now a b"
    if m: "mset (AllowedIPv4 a') = mset (AllowedIPv4 a)" "mset (AllowedIPv4 b') = mset (AllowedIPv4 b)" for a' b'
  proof -
    have "IPv4Set_Contains (AllowedIPv4 a') = IPv4Set_Contains (AllowedIPv4 a)"
      "IPv4Set_Contains (AllowedIPv4 b') = IPv4Set_Contains (AllowedIPv4 b)"
      using mset_eq_setD [OF m(1)] mset_eq_setD [OF m(2)] by (simp_all add: fun_eq_iff Contains_iff)
    then have "AddedIPs (Diff now a' b') = AddedIPs (Diff now a b)"
      "RemovedIPs (Diff now a' b') = RemovedIPs (Diff now a b)"
      unfolding Diff_lists using m by (simp_all add: mset_perm_sort)
    then show ?thesis
      by (simp add: Diff_def)
  qed
  show ?thesis
    unfolding Diff_lists set_sort set_map s by (intro conjI allI impI sorted_sort refl) (rule d)
qed

definition compiled_with :: "bytes list \<Rightarrow> CompileResult" where
  "compiled_with as = \<lparr>Domains = [], AllowedIPv4 = as, AllowedIPv6 = [], UnresolvedDomains = [],
     WildcardRiskDomains = [], CompileTimestamp = 0\<rparr>"

theorem drift_is_difference_witness:
  "set (AddedIPs (Diff 7 (compiled_with [[1, 1, 1, 1], [8, 8, 8, 8]]) (compiled_with [[8, 8, 8, 8], [9, 9, 9, 9]]))) =
     IP_String ` ({[8, 8, 8, 8], [9, 9, 9, 9]} - {[1, 1, 1, 1], [8, 8, 8, 8]})"
proof -
  let ?a = "compiled_with [[1, 1, 1, 1], [8, 8, 8, 8]]" and ?b = "compiled_with [[8, 8, 8, 8], [9, 9, 9, 9]]"
  have "set (AddedIPs (Diff 7 ?a ?b)) = IP_String ` (set (AllowedIPv4 ?b) - set (AllowedIPv4 ?a))"
    by (rule drift_is_difference [THEN conjunct2, THEN conjunct2, THEN conjunct1])
      (simp_all add: compiled_with_def wf_v4set_def)
  then show ?thesis
    by (simp add: compiled_with_def)
qed

end
