(* ===== verification/BpfMap.thy ===== *)
theory BpfMap
  imports Prelude
begin

text \<open>
  The eBPF maps the agent writes through \<^verbatim>\<open>github.com/cilium/ebpf\<close>. The library and the kernel are
  not part of the program, so a map is an abstract state with the four operations the agent calls,
  each of which may fail: \<open>map_ops\<close>. What the agent relies on is the contract \<open>bpf_map\<close>: a
  successful \<^verbatim>\<open>Update\<close> or \<^verbatim>\<open>Delete\<close> changes exactly one entry, and a successful iteration lists
  every entry once. Two keys name the same entry when \<open>canon\<close> maps them to the same value: for a
  hash or array map this is equality, for an LPM trie it is the prefix the key denotes.

  The reference map \<open>list_map\<close> meets the contract and never fails.
\<close>

datatype 'm del_result = Deleted 'm | KeyNotExist | DeleteFailed

datatype 'v find_result = Found 'v | NotFound | FindFailed

record ('m, 'k, 'v) map_ops =
  m_update :: "'m \<Rightarrow> 'k \<Rightarrow> 'v \<Rightarrow> 'm option"
  m_delete :: "'m \<Rightarrow> 'k \<Rightarrow> 'm del_result"
  m_find :: "'m \<Rightarrow> 'k \<Rightarrow> 'v find_result"
  m_iterate :: "'m \<Rightarrow> ('k \<times> 'v) list option"

locale bpf_map =
  fixes canon :: "'k \<Rightarrow> 'c"
    and invar :: "'m \<Rightarrow> bool"
    and ents :: "'m \<Rightarrow> ('k \<times> 'v) list"
    and ops :: "('m, 'k, 'v) map_ops"
  assumes one_entry: "invar m \<Longrightarrow> distinct (map (\<lambda>e. canon (fst e)) (ents m))"
    and update_ok: "invar m \<Longrightarrow> m_update ops m k v = Some m' \<Longrightarrow> invar m' \<and>
      set (ents m') = insert (k, v) {e \<in> set (ents m). canon (fst e) \<noteq> canon k}"
    and delete_ok: "invar m \<Longrightarrow> m_delete ops m k = Deleted m' \<Longrightarrow> invar m' \<and>
      (\<exists>e \<in> set (ents m). canon (fst e) = canon k) \<and>
      set (ents m') = {e \<in> set (ents m). canon (fst e) \<noteq> canon k}"
    and delete_missing: "invar m \<Longrightarrow> m_delete ops m k = KeyNotExist \<Longrightarrow>
      \<forall>e \<in> set (ents m). canon (fst e) \<noteq> canon k"
    and iterate_ok: "invar m \<Longrightarrow> m_iterate ops m = Some es \<Longrightarrow>
      set es = set (ents m) \<and> distinct (map fst es)"
    and find_ok: "invar m \<Longrightarrow> m_find ops m k = Found v \<Longrightarrow>
      \<exists>e \<in> set (ents m). canon (fst e) = canon k \<and> snd e = v"
    and find_missing: "invar m \<Longrightarrow> m_find ops m k = NotFound \<Longrightarrow>
      \<forall>e \<in> set (ents m). canon (fst e) \<noteq> canon k"
begin

lemma keys_update:
  "invar m \<Longrightarrow> m_update ops m k v = Some m' \<Longrightarrow>
   fst ` set (ents m') = insert k {j \<in> fst ` set (ents m). canon j \<noteq> canon k}"
  using update_ok [of m k v m'] by auto

lemma keys_delete:
  "invar m \<Longrightarrow> m_delete ops m k = Deleted m' \<Longrightarrow>
   fst ` set (ents m') = {j \<in> fst ` set (ents m). canon j \<noteq> canon k}"
  using delete_ok [of m k m'] by auto

lemma keys_iterate: "invar m \<Longrightarrow> m_iterate ops m = Some es \<Longrightarrow> fst ` set es = fst ` set (ents m)"
  using iterate_ok [of m es] by simp

lemma canon_inj: "invar m \<Longrightarrow> inj_on canon (fst ` set (ents m))"
  using one_entry [of m] by (auto simp: distinct_map inj_on_def)

end

section \<open>The reference map\<close>

definition list_map :: "('k \<Rightarrow> 'c) \<Rightarrow> (('k \<times> 'v) list, 'k, 'v) map_ops" where
  "list_map canon = \<lparr>
     m_update = (\<lambda>es k v. Some ((k, v) # filter (\<lambda>e. canon (fst e) \<noteq> canon k) es)),
     m_delete = (\<lambda>es k. if list_ex (\<lambda>e. canon (fst e) = canon k) es
        then Deleted (filter (\<lambda>e. canon (fst e) \<noteq> canon k) es) else KeyNotExist),
     m_find = (\<lambda>es k. case filter (\<lambda>e. canon (fst e) = canon k) es of
        [] \<Rightarrow> NotFound | e # _ \<Rightarrow> Found (snd e)),
     m_iterate = (\<lambda>es. Some es)\<rparr>"

definition list_invar :: "('k \<Rightarrow> 'c) \<Rightarrow> ('k \<times> 'v) list \<Rightarrow> bool" where
  "list_invar canon es \<longleftrightarrow> distinct (map (\<lambda>e. canon (fst e)) es)"

lemma distinct_canon_filter:
  "distinct (map (\<lambda>e. canon (fst e)) es) \<Longrightarrow>
   distinct (map (\<lambda>e. canon (fst e)) (filter P es))"
  by (induction es) auto

lemma distinct_canon_fst: "distinct (map (\<lambda>e. canon (fst e)) es) \<Longrightarrow> distinct (map fst es)"
  by (induction es) force+

lemma list_map_contract: "bpf_map canon (list_invar canon) (\<lambda>es. es) (list_map canon)"
proof unfold_locales
  fix es es' :: "('a \<times> 'c) list" and k v
  assume i: "list_invar canon es"
  show "m_update (list_map canon) es k v = Some es' \<Longrightarrow> list_invar canon es' \<and>
      set es' = insert (k, v) {e \<in> set es. canon (fst e) \<noteq> canon k}"
    using i by (auto simp: list_map_def list_invar_def distinct_canon_filter)
  show "m_delete (list_map canon) es k = Deleted es' \<Longrightarrow> list_invar canon es' \<and>
      (\<exists>e \<in> set es. canon (fst e) = canon k) \<and> set es' = {e \<in> set es. canon (fst e) \<noteq> canon k}"
    using i by (auto simp: list_map_def list_invar_def distinct_canon_filter list_ex_iff
        split: if_splits)
  show "m_find (list_map canon) es k = Found v \<Longrightarrow> \<exists>e \<in> set es. canon (fst e) = canon k \<and> snd e = v"
    by (auto simp: list_map_def split: list.splits dest: filter_eq_ConsD)
  show "m_find (list_map canon) es k = NotFound \<Longrightarrow> \<forall>e \<in> set es. canon (fst e) \<noteq> canon k"
    by (auto simp: list_map_def filter_empty_conv split: list.splits)
qed (auto simp: list_map_def list_invar_def list_ex_iff distinct_canon_fst split: if_splits)

interpretation ref: bpf_map canon "list_invar canon" "\<lambda>es. es" "list_map canon" for canon
  by (rule list_map_contract)

end
