(* ===== verification/LpmMaps.thy ===== *)
theory LpmMaps
  imports Allowlist BpfMap
begin

text \<open>
  Programming of the defend maps (\<^verbatim>\<open>internal/agent/agent_linux_policy_maps.go\<close>,
  \<^verbatim>\<open>agent_linux.go:loadAllowedDomainsMap\<close>, \<^verbatim>\<open>defend_dns_seed.go\<close>) and their repair after tampering
  (\<^verbatim>\<open>defend_rearm.go\<close>). An LPM key is its wire form: four little-endian bytes of prefix length, then
  the address in network order. The maps are the argument \<open>ops\<close> (see \<^verbatim>\<open>BpfMap\<close>); a nil map is
  \<open>None\<close>. Go iterates a map in any order; the definitions take the order of the list that
  represents it, and the results are about sets and counts.
\<close>

datatype load_error =
    DefendEmptyAllowlist
  | DefendEmptyNormalized
  | DefendPolicy policy_error
  | DefendNothingEffective "string list"
  | NilCIDR
  | NonIPv4Mask
  | NonIPv4CIDR
  | BadNetwork
  | TooManyEntries nat
  | MapIsNil nat
  | MapUpdateFailed bytes
  | MapIterateFailed
  | MapDeleteFailed bytes
  | DomainUpdateFailed string
  | CfgUpdateFailed
  | ObjectsMissing

section \<open>Compiling the defend allowlist\<close>

record defend_input =
  di_defend :: bool
  di_domains :: "string list"
  di_policy :: "policy_error + policy"

definition empty_compile :: CompileResult where
  "empty_compile = \<lparr>Domains = [], AllowedIPv4 = [], AllowedIPv6 = [], UnresolvedDomains = [],
     WildcardRiskDomains = [], CompileTimestamp = 0\<rparr>"

definition compileDefendAllowlist ::
  "(string \<Rightarrow> string) \<Rightarrow> env \<Rightarrow> int \<Rightarrow> defend_input \<Rightarrow> int \<Rightarrow> load_error + CompileResult" where
  "compileDefendAllowlist ul env now cfg maxAttempts =
     (if \<not> di_defend cfg then Inr empty_compile
      else if di_domains cfg = [] then Inl DefendEmptyAllowlist
      else let compiled = CompileDomainAllowlist ul env now (di_domains cfg) maxAttempts in
        if Domains compiled = [] then Inl DefendEmptyNormalized
        else (case di_policy cfg of Inl e \<Rightarrow> Inl (DefendPolicy e)
          | Inr pol \<Rightarrow>
            let c4 = compiled\<lparr>AllowedIPv4 := MergeLiteralAllowedIPv4Into (Some pol) (AllowedIPv4 compiled)\<rparr>;
                c6 = c4\<lparr>AllowedIPv6 := MergeLiteralAllowedIPv6Into (Some pol) (AllowedIPv6 c4)\<rparr> in
            if IPv4Set_Len (AllowedIPv4 c6) = 0 \<and> IPv6Set_Len (AllowedIPv6 c6) = 0 \<and>
               AllowedIPv4Nets (Some pol) = [] \<and> AllowedIPv6Nets (Some pol) = []
            then Inl (DefendNothingEffective (UnresolvedDomains c6))
            else Inr c6))"

definition autoAllowSystemResolvers :: "string list option list \<Rightarrow> CompileResult \<Rightarrow> CompileResult" where
  "autoAllowSystemResolvers files compiled = (case SystemResolverIPs files of (v4, v6) \<Rightarrow>
     compiled\<lparr>AllowedIPv4 := foldl IPv4Set_Add (AllowedIPv4 compiled) v4,
       AllowedIPv6 := foldl IPv6Set_Add (AllowedIPv6 compiled) v6\<rparr>)"

section \<open>LPM keys\<close>

definition single_key :: "bytes \<Rightarrow> bytes" where
  "single_key addr = le_bytes 4 32 @ addr"

definition single_key6 :: "bytes \<Rightarrow> bytes" where
  "single_key6 addr = le_bytes 4 128 @ addr"

text \<open>The key of an IPv4 network, with the reason when it has none.\<close>

definition lpm_key4 :: "ipnet \<Rightarrow> load_error + bytes" where
  "lpm_key4 n = (case IPMask_Size (net_mask n) of (ones, bits) \<Rightarrow>
     if bits \<noteq> 32 \<or> 32 < ones then Inl NonIPv4Mask
     else (case To4 (net_ip n) of None \<Rightarrow> Inl NonIPv4CIDR
       | Some ip4 \<Rightarrow> let network = IP_Mask ip4 (net_mask n) in
         if network = [] then Inl BadNetwork
         else Inr (le_bytes 4 ones @ be_bytes 4 (be_nat (take 4 network)))))"

record allowedLPMPlan =
  singleIPKeys :: "bytes list"
  cidrKeys :: "bytes list"
  totalEntries :: nat

fun plan_singles :: "bytes list \<Rightarrow> bytes list \<Rightarrow> bytes list \<Rightarrow> bytes list \<times> bytes list" where
  "plan_singles [] seen out = (seen, out)"
| "plan_singles (a # as) seen out = (let key = single_key a in
     if key \<in> set seen then plan_singles as seen out
     else plan_singles as (seen @ [key]) (out @ [key]))"

fun plan_cidrs :: "ipnet option list \<Rightarrow> bytes list \<Rightarrow> bytes list \<Rightarrow> load_error + (bytes list \<times> bytes list)" where
  "plan_cidrs [] seen out = Inr (seen, out)"
| "plan_cidrs (None # ns) seen out = Inl NilCIDR"
| "plan_cidrs (Some n # ns) seen out = (case lpm_key4 n of Inl e \<Rightarrow> Inl e
     | Inr key \<Rightarrow> if key \<in> set seen then plan_cidrs ns seen out
       else plan_cidrs ns (seen @ [key]) (out @ [key]))"

definition buildAllowedLPMPlan :: "bytes list \<Rightarrow> ipnet option list \<Rightarrow> load_error + allowedLPMPlan" where
  "buildAllowedLPMPlan ipKeys ns = (case plan_singles (sort ipKeys) [] [] of (seen, singles) \<Rightarrow>
     (case plan_cidrs ns seen [] of Inl e \<Rightarrow> Inl e
      | Inr (seen', cidrs) \<Rightarrow>
        Inr \<lparr>singleIPKeys = singles, cidrKeys = cidrs, totalEntries = length seen'\<rparr>))"

definition snapshot_v4keys :: "CompileResult \<Rightarrow> policy option \<Rightarrow> bytes list" where
  "snapshot_v4keys compiled pol = MergeLiteralAllowedIPv4Keys pol
     (IPv4Set_ForEach (AllowedIPv4 compiled) sadd [])"

definition buildDefendAllowedPlan :: "CompileResult \<Rightarrow> policy option \<Rightarrow> load_error + allowedLPMPlan" where
  "buildDefendAllowedPlan compiled pol =
     (case buildAllowedLPMPlan (snapshot_v4keys compiled pol) (AllowedIPv4Nets pol) of Inl e \<Rightarrow> Inl e
      | Inr plan \<Rightarrow> if MaxAllowedDefendIPv4Keys < totalEntries plan
        then Inl (TooManyEntries (totalEntries plan)) else Inr plan)"

section \<open>Loading\<close>

type_synonym 'm lpm_ops = "('m, bytes, byte) map_ops"

fun update_all :: "'m lpm_ops \<Rightarrow> bytes list \<Rightarrow> 'm \<Rightarrow> 'm \<times> load_error option" where
  "update_all ops [] m = (m, None)"
| "update_all ops (k # ks) m = (case m_update ops m k 1 of None \<Rightarrow> (m, Some (MapUpdateFailed k))
     | Some m' \<Rightarrow> update_all ops ks m')"

definition loadAllowedLPMMap :: "'m lpm_ops \<Rightarrow> allowedLPMPlan \<Rightarrow> 'm option \<Rightarrow> 'm option \<times> load_error option" where
  "loadAllowedLPMMap ops plan mo = (case mo of
     None \<Rightarrow> (None, if 0 < totalEntries plan then Some (MapIsNil (totalEntries plan)) else None)
   | Some m \<Rightarrow> (case update_all ops (singleIPKeys plan) m of
       (m1, Some e) \<Rightarrow> (Some m1, Some e)
     | (m1, None) \<Rightarrow> (case update_all ops (cidrKeys plan) m1 of (m2, e) \<Rightarrow> (Some m2, e))))"

fun load_ignored :: "'m lpm_ops \<Rightarrow> ipnet option list \<Rightarrow> nat \<Rightarrow> 'm \<Rightarrow> 'm \<times> (load_error + nat)" where
  "load_ignored ops [] programmed m = (m, Inr programmed)"
| "load_ignored ops (None # ns) programmed m = load_ignored ops ns programmed m"
| "load_ignored ops (Some n # ns) programmed m = (case lpm_key4 n of
     Inl _ \<Rightarrow> load_ignored ops ns programmed m
   | Inr key \<Rightarrow> (case m_update ops m key 1 of None \<Rightarrow> (m, Inl (MapUpdateFailed key))
     | Some m' \<Rightarrow> load_ignored ops ns (Suc programmed) m'))"

definition loadIgnoredLPMMap ::
  "'m lpm_ops \<Rightarrow> ipnet option list \<Rightarrow> 'm option \<Rightarrow> 'm option \<times> (load_error + nat)" where
  "loadIgnoredLPMMap ops ns mo = (if ns = [] then (mo, Inr 0)
     else (case mo of None \<Rightarrow> (None, Inl (MapIsNil (length ns)))
       | Some m \<Rightarrow> if MaxIgnoredIPv4Nets < length ns then (mo, Inl (TooManyEntries (length ns)))
         else (case load_ignored ops ns 0 m of (m', r) \<Rightarrow> (Some m', r))))"

type_synonym 'd domain_ops = "('d, bytes, byte) map_ops"

text \<open>Go's \<^verbatim>\<open>var buf [n]byte; copy(buf[:], s)\<close>.\<close>

definition copy_into :: "nat \<Rightarrow> bytes \<Rightarrow> bytes" where
  "copy_into n bs = take n bs @ replicate (n - length bs) 0"

fun load_domains :: "'d domain_ops \<Rightarrow> string list \<Rightarrow> 'd \<Rightarrow> 'd \<times> load_error option" where
  "load_domains ops [] m = (m, None)"
| "load_domains ops (d # ds) m = (case m_update ops m (copy_into 256 (sbytes d)) 1 of
     None \<Rightarrow> (m, Some (DomainUpdateFailed d)) | Some m' \<Rightarrow> load_domains ops ds m')"

definition loadAllowedDomainsMap :: "'d domain_ops \<Rightarrow> policy option \<Rightarrow> 'd \<Rightarrow> 'd \<times> load_error option" where
  "loadAllowedDomainsMap ops pol m = load_domains ops (AllowedDomains pol) m"

type_synonym 'c cfg_ops = "('c, 32 word, 32 word) map_ops"

text \<open>The maps of one backend and the operations on them.\<close>

record ('c, 'm, 'd) defendMapSet =
  dm_cfg :: 'c
  dm_ignored :: "'m option"
  dm_allowed :: "'m option"
  dm_domains :: 'd

record ('c, 'm, 'd) backend_ops =
  b_cfg :: "'c cfg_ops"
  b_lpm :: "'m lpm_ops"
  b_dom :: "'d domain_ops"

definition loadDefendMapsForBackend :: "('c, 'm, 'd) backend_ops \<Rightarrow> CompileResult \<Rightarrow> policy option \<Rightarrow>
    ('c, 'm, 'd) defendMapSet \<Rightarrow> ('c, 'm, 'd) defendMapSet \<times> (load_error + (nat \<times> nat))" where
  "loadDefendMapsForBackend ops compiled pol maps =
     (case m_update (b_cfg ops) (dm_cfg maps) 0 1 of None \<Rightarrow> (maps, Inl CfgUpdateFailed)
      | Some cfg' \<Rightarrow> let maps1 = maps\<lparr>dm_cfg := cfg'\<rparr> in
        (case (if pol = None then (dm_ignored maps1, Inr 0)
               else loadIgnoredLPMMap (b_lpm ops) (IgnoredIPv4Nets pol) (dm_ignored maps1)) of
           (ig, Inl e) \<Rightarrow> (maps1\<lparr>dm_ignored := ig\<rparr>, Inl e)
         | (ig, Inr ignoredCount) \<Rightarrow> let maps2 = maps1\<lparr>dm_ignored := ig\<rparr> in
           (case buildDefendAllowedPlan compiled pol of Inl e \<Rightarrow> (maps2, Inl e)
            | Inr plan \<Rightarrow>
              (case loadAllowedLPMMap (b_lpm ops) plan (dm_allowed maps2) of
                 (al, Some e) \<Rightarrow> (maps2\<lparr>dm_allowed := al\<rparr>, Inl e)
               | (al, None) \<Rightarrow> let maps3 = maps2\<lparr>dm_allowed := al\<rparr> in
                 (case loadAllowedDomainsMap (b_dom ops) pol (dm_domains maps3) of
                    (d, Some e) \<Rightarrow> (maps3\<lparr>dm_domains := d\<rparr>, Inl e)
                  | (d, None) \<Rightarrow>
                    (maps3\<lparr>dm_domains := d\<rparr>, Inr (totalEntries plan, ignoredCount)))))))"

definition v6_cidr_key :: "ipnet \<Rightarrow> bytes option" where
  "v6_cidr_key n = (case IPMask_Size (net_mask n) of (ones, bits) \<Rightarrow>
     if bits \<noteq> 128 then None
     else map_option (\<lambda>ip16. le_bytes 4 ones @ copy_into 16 ip16) (To16 (net_ip n)))"

fun load_v6_cidrs :: "'m lpm_ops \<Rightarrow> ipnet list \<Rightarrow> nat \<Rightarrow> 'm \<Rightarrow> 'm \<times> nat \<times> load_error option" where
  "load_v6_cidrs ops [] programmed m = (m, programmed, None)"
| "load_v6_cidrs ops (n # ns) programmed m = (case v6_cidr_key n of
     None \<Rightarrow> load_v6_cidrs ops ns programmed m
   | Some key \<Rightarrow> (case m_update ops m key 1 of None \<Rightarrow> (m, programmed, Some (MapUpdateFailed key))
     | Some m' \<Rightarrow> load_v6_cidrs ops ns (Suc programmed) m'))"

fun load_v6_singles :: "'m lpm_ops \<Rightarrow> bytes list \<Rightarrow> nat \<Rightarrow> 'm \<Rightarrow> 'm \<times> nat \<times> load_error option" where
  "load_v6_singles ops [] programmed m = (m, programmed, None)"
| "load_v6_singles ops (a # as) programmed m = (case m_update ops m (single_key6 a) 1 of
     None \<Rightarrow> (m, programmed, Some (MapUpdateFailed (single_key6 a)))
   | Some m' \<Rightarrow> load_v6_singles ops as (Suc programmed) m')"

text \<open>The networks come from \<^verbatim>\<open>Parse\<close> and are dereferenced without a nil test, hence the list of
  networks instead of options.\<close>

definition populateAllowedIPv6Map :: "'m lpm_ops \<Rightarrow> CompileResult \<Rightarrow> policy option \<Rightarrow> 'm option \<Rightarrow>
    'm option \<times> nat \<times> load_error option" where
  "populateAllowedIPv6Map ops compiled pol mo = (case mo of None \<Rightarrow> (None, 0, None)
     | Some m \<Rightarrow> let v6 = MergeLiteralAllowedIPv6Into pol (AllowedIPv6 compiled);
           keys = sort (IPv6Set_ForEach v6 (\<lambda>k acc. acc @ [k]) []);
           cidrs = map the (AllowedIPv6Nets pol) in
       if MaxAllowedDefendIPv6Keys < length keys + length cidrs
       then (mo, 0, Some (TooManyEntries (length keys + length cidrs)))
       else (case load_v6_singles ops keys 0 m of
           (m1, n, Some e) \<Rightarrow> (Some m1, n, Some e)
         | (m1, n, None) \<Rightarrow> (case load_v6_cidrs ops cidrs n m1 of (m2, n', e) \<Rightarrow> (Some m2, n', e))))"

section \<open>Per-CPU counters\<close>

definition MaxUint32 :: int where "MaxUint32 = 4294967295"

definition clampPerCPUSumToUint32 :: "int \<Rightarrow> 32 word" where
  "clampPerCPUSumToUint32 n = (if n \<le> 0 then 0
     else if MaxUint32 < n then of_int MaxUint32 else of_int n)"

definition readUint32PerCPUKeySum :: "('k \<Rightarrow> 32 word list find_result) option \<Rightarrow> 'k \<Rightarrow> int" where
  "readUint32PerCPUKeySum m key = (case m of None \<Rightarrow> 0
     | Some look \<Rightarrow> (case look key of Found vals \<Rightarrow> foldl (\<lambda>n v. n + uint v) 0 vals | _ \<Rightarrow> 0))"

section \<open>Owner seeding\<close>

definition dnsBPFNameMax :: nat where "dnsBPFNameMax = 255"

definition ownerBPFValue :: "string \<Rightarrow> bytes \<times> bool" where
  "ownerBPFValue name = (let truncated = dnsBPFNameMax < length name;
       name' = (if truncated then take dnsBPFNameMax name else name) in
     (copy_into 256 (sbytes name'), truncated))"

fun seed_owners :: "('o, bytes, bytes) map_ops \<Rightarrow> (bytes \<times> string) list \<Rightarrow> nat \<Rightarrow> nat \<Rightarrow> 'o \<Rightarrow> 'o \<times> nat \<times> nat" where
  "seed_owners ops [] programmed failures m = (m, programmed, failures)"
| "seed_owners ops ((ip, name) # os) programmed failures m = (if name = [] then seed_owners ops os programmed failures m
     else (case m_update ops m ip (fst (ownerBPFValue name)) of
       None \<Rightarrow> seed_owners ops os programmed (Suc failures) m
     | Some m' \<Rightarrow> seed_owners ops os (Suc programmed) failures m'))"

definition seedDefendOwners :: "('o, bytes, bytes) map_ops \<Rightarrow> (bytes \<times> string) list \<Rightarrow> 'o option \<Rightarrow> 'o option \<times> nat \<times> nat" where
  "seedDefendOwners ops owners mo = (case mo of None \<Rightarrow> (None, 0, 0)
     | Some m \<Rightarrow> if owners = [] then (mo, 0, 0)
       else (case seed_owners ops owners 0 0 m of (m', r) \<Rightarrow> (Some m', r)))"

section \<open>Expected key sets and reconciliation\<close>

definition expected_nets :: "ipnet option list \<Rightarrow> bytes list \<Rightarrow> bytes list" where
  "expected_nets ns expected = fold (\<lambda>n acc. case n of None \<Rightarrow> acc
     | Some n \<Rightarrow> (case lpm_key4 n of Inl _ \<Rightarrow> acc | Inr key \<Rightarrow> sadd key acc)) ns expected"

definition expectedAllowedKeys :: "CompileResult \<Rightarrow> policy option \<Rightarrow> bytes list" where
  "expectedAllowedKeys compiled pol = expected_nets (AllowedIPv4Nets pol)
     (fold (\<lambda>a acc. sadd (single_key a) acc) (snapshot_v4keys compiled pol) [])"

definition expectedIgnoredKeys :: "policy option \<Rightarrow> bytes list" where
  "expectedIgnoredKeys pol = expected_nets (IgnoredIPv4Nets pol) []"

fun insert_expected :: "'m lpm_ops \<Rightarrow> bytes list \<Rightarrow> bytes list \<Rightarrow> nat \<Rightarrow> 'm \<Rightarrow> 'm \<times> nat \<times> load_error option" where
  "insert_expected ops existing [] added m = (m, added, None)"
| "insert_expected ops existing (k # ks) added m = (case m_update ops m k 1 of
     None \<Rightarrow> (m, added, Some (MapUpdateFailed k))
   | Some m' \<Rightarrow> insert_expected ops existing ks (if k \<in> set existing then added else Suc added) m')"

fun delete_stale :: "'m lpm_ops \<Rightarrow> bytes list \<Rightarrow> nat \<Rightarrow> 'm \<Rightarrow> 'm \<times> nat \<times> load_error option" where
  "delete_stale ops [] removed m = (m, removed, None)"
| "delete_stale ops (k # ks) removed m = (case m_delete ops m k of
     Deleted m' \<Rightarrow> delete_stale ops ks (Suc removed) m'
   | KeyNotExist \<Rightarrow> delete_stale ops ks removed m
   | DeleteFailed \<Rightarrow> (m, removed, Some (MapDeleteFailed k)))"

definition reconcileLPMMap :: "'m lpm_ops \<Rightarrow> bytes list \<Rightarrow> 'm option \<Rightarrow> 'm option \<times> nat \<times> nat \<times> load_error option" where
  "reconcileLPMMap ops expected mo = (case mo of
     None \<Rightarrow> (None, 0, 0, if expected \<noteq> [] then Some (MapIsNil (length expected)) else None)
   | Some m \<Rightarrow> (case m_iterate ops m of None \<Rightarrow> (Some m, 0, 0, Some MapIterateFailed)
     | Some es \<Rightarrow> let existing = map fst es; stale = filter (\<lambda>k. k \<notin> set expected) existing in
       (case insert_expected ops existing expected 0 m of
          (m1, added, Some e) \<Rightarrow> (Some m1, added, 0, Some e)
        | (m1, added, None) \<Rightarrow> (case delete_stale ops stale 0 m1 of
            (m2, removed, e) \<Rightarrow> (Some m2, added, removed, e)))))"

definition rearmAllowedFromSnapshot ::
  "'m lpm_ops \<Rightarrow> CompileResult \<Rightarrow> policy option \<Rightarrow> 'm option \<Rightarrow> 'm option \<times> nat \<times> nat \<times> load_error option" where
  "rearmAllowedFromSnapshot ops compiled pol m = reconcileLPMMap ops (expectedAllowedKeys compiled pol) m"

definition rearmIgnoredFromPolicy ::
  "'m lpm_ops \<Rightarrow> policy option \<Rightarrow> 'm option \<Rightarrow> 'm option \<times> nat \<times> nat \<times> load_error option" where
  "rearmIgnoredFromPolicy ops pol m = reconcileLPMMap ops (expectedIgnoredKeys pol) m"

section \<open>Plans\<close>

lemma plan_singles_spec:
  "plan_singles as seen out = (seen', out') \<Longrightarrow> distinct seen \<Longrightarrow>
   \<exists>new. seen' = seen @ new \<and> out' = out @ new \<and> distinct seen' \<and>
     set seen' = set seen \<union> single_key ` set as"
proof (induction as seen out arbitrary: seen' out' rule: plan_singles.induct)
  case (2 a as seen out)
  show ?case
  proof (cases "single_key a \<in> set seen")
    case True
    with 2 show ?thesis
      by (simp add: Let_def) (metis Un_insert_right insert_absorb sup_left_commute Un_iff)
  next
    case False
    with "2.prems" have "plan_singles as (seen @ [single_key a]) (out @ [single_key a]) = (seen', out')"
      "distinct (seen @ [single_key a])"
      by (simp_all add: Let_def)
    from "2.IH"(2) [OF refl False this] show ?thesis
      by auto
  qed
qed simp

lemma plan_cidrs_spec:
  "plan_cidrs ns seen out = Inr (seen', out') \<Longrightarrow> distinct seen \<Longrightarrow>
   \<exists>new. seen' = seen @ new \<and> out' = out @ new \<and> distinct seen' \<and>
     set seen' = set seen \<union> {key. \<exists>n. Some n \<in> set ns \<and> lpm_key4 n = Inr key}"
proof (induction ns seen out arbitrary: seen' out' rule: plan_cidrs.induct)
  case (3 n ns seen out)
  from "3.prems"(1) obtain key where k: "lpm_key4 n = Inr key"
    by (auto split: sum.splits)
  show ?case
  proof (cases "key \<in> set seen")
    case True
    with 3 k show ?thesis
      by fastforce
  next
    case False
    with "3.prems" k have "plan_cidrs ns (seen @ [key]) (out @ [key]) = Inr (seen', out')"
      "distinct (seen @ [key])"
      by simp_all
    from "3.IH"(2) [OF k False this] k show ?thesis
      by auto
  qed
qed auto

lemma set_expected_nets:
  "set (expected_nets ns acc) = set acc \<union> {key. \<exists>n. Some n \<in> set ns \<and> lpm_key4 n = Inr key}"
  unfolding expected_nets_def
  by (induction ns arbitrary: acc) (auto split: option.splits sum.splits)

lemma distinct_expected_nets: "distinct (expected_nets ns acc) = distinct acc"
  unfolding expected_nets_def
  by (induction ns arbitrary: acc) (auto split: option.splits sum.splits)

lemma set_fold_single:
  "set (fold (\<lambda>a acc. sadd (single_key a) acc) as acc) = set acc \<union> single_key ` set as"
  by (induction as arbitrary: acc) auto

lemma distinct_fold_single: "distinct (fold (\<lambda>a acc. sadd (single_key a) acc) as acc) = distinct acc"
  by (induction as arbitrary: acc) auto

lemma set_expectedAllowedKeys:
  "set (expectedAllowedKeys compiled pol) = single_key ` set (snapshot_v4keys compiled pol) \<union>
     {key. \<exists>n. Some n \<in> set (AllowedIPv4Nets pol) \<and> lpm_key4 n = Inr key}"
  by (simp add: expectedAllowedKeys_def set_expected_nets set_fold_single)

lemma set_expectedIgnoredKeys:
  "set (expectedIgnoredKeys pol) = {key. \<exists>n. Some n \<in> set (IgnoredIPv4Nets pol) \<and> lpm_key4 n = Inr key}"
  by (simp add: expectedIgnoredKeys_def set_expected_nets)

lemma distinct_expected:
  "distinct (expectedAllowedKeys compiled pol)" "distinct (expectedIgnoredKeys pol)"
  by (simp_all add: expectedAllowedKeys_def expectedIgnoredKeys_def distinct_expected_nets
      distinct_fold_single)

lemma buildAllowedLPMPlan_spec:
  assumes "buildAllowedLPMPlan ks ns = Inr plan"
  shows "distinct (singleIPKeys plan @ cidrKeys plan)"
    "set (singleIPKeys plan @ cidrKeys plan) = single_key ` set ks \<union>
       {key. \<exists>n. Some n \<in> set ns \<and> lpm_key4 n = Inr key}"
    "totalEntries plan = length (singleIPKeys plan @ cidrKeys plan)"
proof -
  obtain seen singles where s: "plan_singles (sort ks) [] [] = (seen, singles)"
    by fastforce
  with assms obtain seen' cidrs where c: "plan_cidrs ns seen [] = Inr (seen', cidrs)"
    and plan: "plan = \<lparr>singleIPKeys = singles, cidrKeys = cidrs, totalEntries = length seen'\<rparr>"
    by (auto simp: buildAllowedLPMPlan_def split: sum.splits)
  from plan_singles_spec [OF s] have 1: "seen = singles" "distinct seen" "set seen = single_key ` set ks"
    by auto
  from plan_cidrs_spec [OF c 1(2)] have 2: "seen' = seen @ cidrs" "distinct seen'"
    "set seen' = set seen \<union> {key. \<exists>n. Some n \<in> set ns \<and> lpm_key4 n = Inr key}"
    by auto
  show "distinct (singleIPKeys plan @ cidrKeys plan)"
    "set (singleIPKeys plan @ cidrKeys plan) = single_key ` set ks \<union>
       {key. \<exists>n. Some n \<in> set ns \<and> lpm_key4 n = Inr key}"
    "totalEntries plan = length (singleIPKeys plan @ cidrKeys plan)"
    using 1 2 plan by simp_all
qed

lemma buildDefendAllowedPlan_spec:
  assumes "buildDefendAllowedPlan compiled pol = Inr plan"
  shows "distinct (singleIPKeys plan @ cidrKeys plan)"
    "set (singleIPKeys plan @ cidrKeys plan) = set (expectedAllowedKeys compiled pol)"
    "totalEntries plan = length (expectedAllowedKeys compiled pol)"
    "totalEntries plan \<le> MaxAllowedDefendIPv4Keys"
proof -
  from assms have p: "buildAllowedLPMPlan (snapshot_v4keys compiled pol) (AllowedIPv4Nets pol) = Inr plan"
    and le: "totalEntries plan \<le> MaxAllowedDefendIPv4Keys"
    by (auto simp: buildDefendAllowedPlan_def not_less split: sum.splits if_splits)
  note s = buildAllowedLPMPlan_spec [OF p]
  show d: "distinct (singleIPKeys plan @ cidrKeys plan)"
    by (rule s(1))
  show e: "set (singleIPKeys plan @ cidrKeys plan) = set (expectedAllowedKeys compiled pol)"
    unfolding s(2) set_expectedAllowedKeys ..
  show "totalEntries plan = length (expectedAllowedKeys compiled pol)"
    unfolding s(3) using e d distinct_expected(1) by (metis distinct_card)
  show "totalEntries plan \<le> MaxAllowedDefendIPv4Keys"
    by (rule le)
qed

section \<open>Prefixes denoted by keys\<close>

definition key_len :: "bytes \<Rightarrow> nat" where
  "key_len k = le_nat (take 4 k)"

definition lpm_canon :: "bytes \<Rightarrow> nat \<times> bool list" where
  "lpm_canon k = (key_len k, take (key_len k) (addr_bits (drop 4 k)))"

text \<open>A key as the agent writes it: its address has no bit set beyond the prefix.\<close>

definition masked_key4 :: "bytes \<Rightarrow> bool" where
  "masked_key4 k \<longleftrightarrow> length k = 8 \<and> key_len k \<le> 32 \<and>
     map2 (AND) (drop 4 k) (CIDRMask (key_len k) 32) = drop 4 k"

lemma key_len_append [simp]: "n < 256 ^ 4 \<Longrightarrow> key_len (le_bytes 4 n @ a) = n"
  by (simp add: key_len_def)

lemma masked_key4_inj:
  assumes "masked_key4 j" "masked_key4 k" "lpm_canon j = lpm_canon k"
  shows "j = k"
proof -
  have l: "key_len j = key_len k"
    using assms(3) by (simp add: lpm_canon_def)
  then have "take (key_len k) (addr_bits (drop 4 j)) = take (key_len k) (addr_bits (drop 4 k))"
    using assms(3) by (simp add: lpm_canon_def)
  then have "map2 (AND) (drop 4 j) (CIDRMask (key_len k) 32) = map2 (AND) (drop 4 k) (CIDRMask (key_len k) 32)"
    using assms(1,2) masked_eq_iff [of "drop 4 j" "drop 4 k" "key_len k"]
    by (simp add: CIDRMask_def masked_key4_def)
  then have "drop 4 j = drop 4 k"
    using assms(1,2) l unfolding masked_key4_def by metis
  moreover have "take 4 j = take 4 k"
    using le_bytes_le_nat [of "take 4 j"] le_bytes_le_nat [of "take 4 k"] l assms(1,2)
    by (simp add: key_len_def masked_key4_def)
  ultimately show ?thesis
    by (metis append_take_drop_id)
qed

lemma CIDRMask_32_32: "CIDRMask 32 32 = [255, 255, 255, 255]"
  by code_simp

lemma masked_single_key: "length a = 4 \<Longrightarrow> masked_key4 (single_key a)"
  using list4 [of a] by (auto simp: masked_key4_def single_key_def CIDRMask_32_32)

lemma take_be_bytes: "length a = 4 \<Longrightarrow> be_bytes 4 (be_nat a) = a"
  using be_bytes_be_nat [of a] by simp

lemma lpm_key4_mask4:
  assumes "net_mask net = CIDRMask n 32" "n \<le> 32" "length (net_ip net) = 4"
  shows "lpm_key4 net = Inr (le_bytes 4 n @ map2 (AND) (net_ip net) (net_mask net))"
proof -
  have "IP_Mask (net_ip net) (net_mask net) = map2 (AND) (net_ip net) (net_mask net)"
    using assms by (simp add: IP_Mask_def)
  moreover have "length (map2 (AND) (net_ip net) (net_mask net)) = 4"
    using assms by simp
  moreover from this have "map2 (AND) (net_ip net) (net_mask net) \<noteq> []"
    by (metis length_0_conv zero_neq_numeral)
  ultimately show ?thesis
    using assms take_be_bytes [of "map2 (AND) (net_ip net) (net_mask net)"]
    by (simp add: lpm_key4_def Let_def)
qed

lemma masked_mask4:
  assumes "net_mask net = CIDRMask n 32" "n \<le> 32" "length (net_ip net) = 4"
  shows "masked_key4 (le_bytes 4 n @ map2 (AND) (net_ip net) (net_mask net))"
  using assms by (simp add: masked_key4_def map2_and_idem)

lemma lpm_key4_net4: "is_net4 n net \<Longrightarrow> lpm_key4 net = Inr (le_bytes 4 n @ net_ip net)"
  using lpm_key4_mask4 [of net n] unfolding is_net4_def by metis

lemma lpm_key4_net6: "is_net6 n net \<Longrightarrow> lpm_key4 net = Inl NonIPv4Mask"
  by (simp add: lpm_key4_def is_net6_def)

lemma lpm_key4_eff4:
  assumes "eff4 n net" "lpm_key4 net = Inr k"
  shows "net_mask net = CIDRMask n 32" "k = le_bytes 4 n @ map2 (AND) (net_ip net) (CIDRMask n 32)"
proof -
  have "length (net_mask net) = 4"
    using assms(2) by (auto simp: lpm_key4_def IPMask_Size_def split: prod.splits option.splits if_splits)
  with assms(1) show m: "net_mask net = CIDRMask n 32"
    by (auto simp: eff4_def networkNumberAndMask_def)
  show "k = le_bytes 4 n @ map2 (AND) (net_ip net) (CIDRMask n 32)"
    using assms lpm_key4_mask4 [OF m] m by (simp add: eff4_def)
qed

lemma masked_allow_key:
  "wf_allow_net (Some net) \<Longrightarrow> lpm_key4 net = Inr k \<Longrightarrow> masked_key4 k"
  using masked_mask4 [of net] lpm_key4_mask4 [of net]
  by (auto simp: wf_allow_net_def is_net4_def lpm_key4_net6)

lemma masked_ignored_key:
  assumes "wf_ignored (Some net)" "lpm_key4 net = Inr k"
  shows "masked_key4 k"
proof -
  obtain n where e: "eff4 n net"
    using assms(1) by (auto simp: wf_ignored_def)
  from lpm_key4_eff4 [OF e assms(2)] masked_mask4 [of net n] e show ?thesis
    by (simp add: eff4_def)
qed

section \<open>Addresses matched by a set of keys\<close>

text \<open>What a lookup of a full-length address in an LPM trie holding the keys \<open>ks\<close> finds.\<close>

definition lpm_match :: "bytes \<Rightarrow> bytes \<Rightarrow> bool" where
  "lpm_match k a \<longleftrightarrow> key_len k \<le> 8 * length a \<and>
     take (key_len k) (addr_bits (drop 4 k)) = take (key_len k) (addr_bits a)"

definition lpm_hit :: "bytes list \<Rightarrow> bytes \<Rightarrow> bool" where
  "lpm_hit ks a \<longleftrightarrow> list_ex (\<lambda>k. lpm_match k a) ks"

lemma lpm_hit_set: "set ks = set js \<Longrightarrow> lpm_hit ks a = lpm_hit js a"
  by (simp add: lpm_hit_def list_ex_iff)

lemma lpm_match_single: "length a = 4 \<Longrightarrow> length b = 4 \<Longrightarrow> lpm_match (single_key b) a \<longleftrightarrow> a = b"
  using addr_bits_inj [of b a] by (auto simp: lpm_match_def single_key_def)

lemma lpm_match_net4:
  assumes "is_net4 n net" "length a = 4"
  shows "lpm_match (le_bytes 4 n @ net_ip net) a \<longleftrightarrow> IPNet_Contains net a"
proof -
  have "n \<le> 32"
    using assms(1) by (simp add: is_net4_def)
  with assms show ?thesis
    using IPNet_Contains_net4 [OF assms(1), of a a] by (auto simp: lpm_match_def)
qed

lemma take_masked_bits:
  assumes "length a = 4" "n \<le> 32"
  shows "take n (addr_bits (map2 (AND) a (CIDRMask n 32))) = take n (addr_bits a)"
  using masked_eq_iff [of "map2 (AND) a (CIDRMask n 32)" a n] assms
  by (simp add: CIDRMask_def map2_and_idem)

lemma lpm_match_eff4:
  assumes "eff4 n net" "length a = 4"
  shows "lpm_match (le_bytes 4 n @ map2 (AND) (net_ip net) (CIDRMask n 32)) a \<longleftrightarrow> IPNet_Contains net a"
proof -
  have l: "length (net_ip net) = 4" "n \<le> 32"
    using assms(1) by (auto simp: eff4_def)
  then show ?thesis
    using eff4_Contains [OF assms] take_masked_bits [OF l] assms(2) by (auto simp: lpm_match_def)
qed

section \<open>Loading and repairing an LPM map\<close>

locale lpm_store = bpf_map canon invar ents ops
  for canon :: "bytes \<Rightarrow> 'c" and invar :: "'m \<Rightarrow> bool" and ents :: "'m \<Rightarrow> (bytes \<times> byte) list"
    and ops :: "'m lpm_ops"
begin

lemma update_all_entries:
  assumes "invar m" "update_all ops ks m = (m', None)" "distinct (map canon ks)"
  shows "invar m' \<and> set (ents m') =
    (\<lambda>k. (k, 1)) ` set ks \<union> {e \<in> set (ents m). canon (fst e) \<notin> canon ` set ks}"
  using assms
proof (induction ks arbitrary: m)
  case (Cons k ks)
  then obtain m1 where m1: "m_update ops m k 1 = Some m1" "update_all ops ks m1 = (m', None)"
    by (auto split: option.splits)
  have u: "invar m1" "set (ents m1) = insert (k, 1) {e \<in> set (ents m). canon (fst e) \<noteq> canon k}"
    using update_ok [OF Cons.prems(1) m1(1)] by auto
  have "canon k \<notin> canon ` set ks"
    using Cons.prems(3) by simp
  with Cons.IH [OF u(1) m1(2)] Cons.prems(3) u(2) show ?case
    by auto
qed simp

lemma insert_expected_entries:
  assumes "invar m" "insert_expected ops ex ks added m = (m', added', None)" "distinct (map canon ks)"
  shows "invar m' \<and> added' = added + length (filter (\<lambda>k. k \<notin> set ex) ks) \<and> set (ents m') =
    (\<lambda>k. (k, 1)) ` set ks \<union> {e \<in> set (ents m). canon (fst e) \<notin> canon ` set ks}"
  using assms
proof (induction ks arbitrary: m added)
  case (Cons k ks)
  then obtain m1 where m1: "m_update ops m k 1 = Some m1"
      "insert_expected ops ex ks (if k \<in> set ex then added else Suc added) m1 = (m', added', None)"
    by (auto split: option.splits)
  have u: "invar m1" "set (ents m1) = insert (k, 1) {e \<in> set (ents m). canon (fst e) \<noteq> canon k}"
    using update_ok [OF Cons.prems(1) m1(1)] by auto
  have "canon k \<notin> canon ` set ks"
    using Cons.prems(3) by simp
  with Cons.IH [OF u(1) m1(2)] Cons.prems(3) u(2) show ?case
    by auto
qed simp

lemma delete_stale_entries:
  assumes "invar m" "delete_stale ops ks removed m = (m', removed', None)"
  shows "invar m' \<and> set (ents m') = {e \<in> set (ents m). canon (fst e) \<notin> canon ` set ks}"
  using assms
proof (induction ks arbitrary: m removed)
  case (Cons k ks)
  from Cons.prems(2) consider
      (del) m1 where "m_delete ops m k = Deleted m1" "delete_stale ops ks (Suc removed) m1 = (m', removed', None)"
    | (miss) "m_delete ops m k = KeyNotExist" "delete_stale ops ks removed m = (m', removed', None)"
    by (auto split: del_result.splits)
  then show ?case
  proof cases
    case del
    with delete_ok [OF Cons.prems(1) del(1)] Cons.IH [of m1 "Suc removed"] show ?thesis
      by auto
  next
    case miss
    with delete_missing [OF Cons.prems(1) miss(1)] Cons.IH [of m removed] Cons.prems(1) show ?thesis
      by auto
  qed
qed simp

lemma delete_stale_count:
  assumes "invar m" "delete_stale ops ks removed m = (m', removed', None)" "distinct (map canon ks)"
    "\<forall>k \<in> set ks. \<exists>e \<in> set (ents m). canon (fst e) = canon k"
  shows "removed' = removed + length ks"
  using assms
proof (induction ks arbitrary: m removed)
  case (Cons k ks)
  have "m_delete ops m k \<noteq> KeyNotExist"
    using delete_missing [OF Cons.prems(1)] Cons.prems(4) by auto
  with Cons.prems(2) obtain m1 where m1: "m_delete ops m k = Deleted m1"
      "delete_stale ops ks (Suc removed) m1 = (m', removed', None)"
    by (auto split: del_result.splits)
  note d = delete_ok [OF Cons.prems(1) m1(1)]
  have "\<forall>j \<in> set ks. \<exists>e \<in> set (ents m1). canon (fst e) = canon j"
  proof
    fix j
    assume j: "j \<in> set ks"
    with Cons.prems(4) obtain e where e: "e \<in> set (ents m)" "canon (fst e) = canon j"
      by auto
    from j Cons.prems(3) have "canon j \<noteq> canon k"
      by (metis distinct.simps(2) image_eqI list.map(2) set_map)
    with d e show "\<exists>e \<in> set (ents m1). canon (fst e) = canon j"
      by (intro bexI [of _ e]) simp_all
  qed
  with Cons.IH [of m1 "Suc removed"] d m1(2) Cons.prems(3) show ?case
    by simp
qed simp

text \<open>The entries left by a reconciliation that meets no map error: every expected key that is not
  the alias of a stale one, with value 1, and nothing else.\<close>

lemma reconcile_entries:
  assumes "invar m" "reconcileLPMMap ops expected (Some m) = (Some m', added, removed, None)"
    "distinct (map canon expected)"
  shows "invar m' \<and> set (ents m') = {(k, 1) |k. k \<in> set expected \<and>
      canon k \<notin> canon ` (fst ` set (ents m) - set expected)}"
proof -
  from assms(2) obtain es where es: "m_iterate ops m = Some es"
    by (auto simp: reconcileLPMMap_def split: option.splits)
  let ?stale = "filter (\<lambda>k. k \<notin> set expected) (map fst es)"
  from assms(2) es obtain m1 where
    m1: "insert_expected ops (map fst es) expected 0 m = (m1, added, None)"
    and m2: "delete_stale ops ?stale 0 m1 = (m', removed, None)"
    by (auto simp: reconcileLPMMap_def Let_def split: prod.splits option.splits)
  note i = insert_expected_entries [OF assms(1) m1 assms(3)]
  have k: "fst ` set es = fst ` set (ents m)"
    by (rule keys_iterate [OF assms(1) es])
  have st: "set ?stale = fst ` set (ents m) - set expected"
    using k by auto
  define S where "S = set ?stale"
  have "invar m'" and e: "set (ents m') = {e \<in> set (ents m1). canon (fst e) \<notin> canon ` S}"
    using delete_stale_entries [OF _ m2] i by (auto simp: S_def)
  have split: "x \<in> set (ents m) \<Longrightarrow> fst x \<in> set expected \<or> fst x \<in> S" for x
    unfolding S_def st by auto
  have "x \<in> set (ents m') \<longleftrightarrow> snd x = 1 \<and> fst x \<in> set expected \<and> canon (fst x) \<notin> canon ` S" for x
  proof (cases "fst x \<in> set expected \<or> fst x \<in> S")
    case True
    then show ?thesis
      using i unfolding e by (cases x) auto
  next
    case False
    then show ?thesis
      using i split [of x] unfolding e by (cases x) auto
  qed
  then have "set (ents m') = {(k, 1) |k. k \<in> set expected \<and> canon k \<notin> canon ` S}"
    by auto
  with \<open>invar m'\<close> show ?thesis
    unfolding S_def st by simp
qed

lemma reconcile_counts:
  assumes "invar m" "reconcileLPMMap ops expected (Some m) = (Some m', added, removed, None)"
    "distinct expected" "inj_on canon (fst ` set (ents m) \<union> set expected)"
  shows "added = card (set expected - fst ` set (ents m)) \<and>
    removed = card (fst ` set (ents m) - set expected)"
proof -
  from assms(2) obtain es where es: "m_iterate ops m = Some es"
    by (auto simp: reconcileLPMMap_def split: option.splits)
  let ?stale = "filter (\<lambda>k. k \<notin> set expected) (map fst es)"
  from assms(2) es obtain m1 where
    m1: "insert_expected ops (map fst es) expected 0 m = (m1, added, None)"
    and m2: "delete_stale ops ?stale 0 m1 = (m', removed, None)"
    by (auto simp: reconcileLPMMap_def Let_def split: prod.splits option.splits)
  have k: "set (map fst es) = fst ` set (ents m)" "distinct (map fst es)"
    using iterate_ok [OF assms(1) es] by auto
  then have st: "set ?stale = fst ` set (ents m) - set expected" "distinct ?stale"
    by auto
  have inj: "inj_on canon (set expected)" "inj_on canon (set ?stale)"
    using assms(4) st(1) by (auto intro: inj_on_subset)
  then have dc: "distinct (map canon expected)" "distinct (map canon ?stale)"
    using assms(3) st(2) by (auto simp: distinct_map)
  note i = insert_expected_entries [OF assms(1) m1 dc(1)]
  have fresh: "canon j \<notin> canon ` set expected" if "j \<in> set ?stale" for j
  proof
    assume "canon j \<in> canon ` set expected"
    then obtain k where "k \<in> set expected" "canon j = canon k"
      by auto
    with inj_onD [OF assms(4)] that st(1) show False
      by blast
  qed
  have "\<forall>j \<in> set ?stale. \<exists>e \<in> set (ents m1). canon (fst e) = canon j"
  proof
    fix j
    assume j: "j \<in> set ?stale"
    then have "j \<in> fst ` set (ents m)"
      unfolding st(1) by blast
    then obtain e where e: "e \<in> set (ents m)" "fst e = j"
      by (elim imageE) simp
    with fresh [OF j] i have "e \<in> set (ents m1)"
      by simp
    with e show "\<exists>e \<in> set (ents m1). canon (fst e) = canon j"
      by auto
  qed
  from delete_stale_count [OF _ m2 dc(2) this] i have "removed = length ?stale"
    by simp
  moreover have "length ?stale = card (fst ` set (ents m) - set expected)"
    using distinct_card [OF st(2)] st(1) by simp
  moreover have "added = length (filter (\<lambda>k. k \<notin> set (map fst es)) expected)"
    using i by simp
  moreover have "\<dots> = card (set expected - fst ` set (ents m))"
    using distinct_card [of "filter (\<lambda>k. k \<notin> set (map fst es)) expected"] assms(3) k(1)
    by (simp add: set_diff_eq)
  ultimately show ?thesis
    by simp
qed

end

interpretation lpm_ref: lpm_store lpm_canon "list_invar lpm_canon" "\<lambda>es. es" "list_map lpm_canon"
  by (intro lpm_store.intro list_map_contract)

section \<open>Properties\<close>

text \<open>C6. The start-up plan and the integrity watch agree: the keys the plan programs into the allow trie are,
  without repetition, exactly the keys the watch later expects there, and their number is the total
  the plan reports, within the map's capacity.\<close>

theorem plan_is_expected:
  "buildDefendAllowedPlan compiled pol = Inr plan \<Longrightarrow>
   distinct (singleIPKeys plan @ cidrKeys plan) \<and>
   set (singleIPKeys plan @ cidrKeys plan) = set (expectedAllowedKeys compiled pol) \<and>
   totalEntries plan = length (expectedAllowedKeys compiled pol) \<and>
   totalEntries plan \<le> MaxAllowedDefendIPv4Keys"
  using buildDefendAllowedPlan_spec [of compiled pol plan] by simp

definition plan_policy :: policy where
  "plan_policy = empty_policy\<lparr>enabled := True, ips := [[1, 1, 1, 1]],
     nets := [Some \<lparr>net_ip = [10, 0, 0, 0], net_mask = [255, 0, 0, 0]\<rparr>]\<rparr>"

definition plan_compiled :: CompileResult where
  "plan_compiled = \<lparr>Domains = [], AllowedIPv4 = [[1, 1, 1, 1], [8, 8, 8, 8]], AllowedIPv6 = [],
     UnresolvedDomains = [], WildcardRiskDomains = [], CompileTimestamp = 0\<rparr>"

theorem plan_is_expected_witness:
  "\<exists>plan. buildDefendAllowedPlan plan_compiled (Some plan_policy) = Inr plan \<and> totalEntries plan = 3 \<and>
     set (singleIPKeys plan @ cidrKeys plan) = set (expectedAllowedKeys plan_compiled (Some plan_policy))"
proof -
  let ?r = "buildDefendAllowedPlan plan_compiled (Some plan_policy)"
  have "\<not> isl ?r" "totalEntries (projr ?r) = 3"
    by code_simp+
  then obtain plan where "?r = Inr plan" "totalEntries plan = 3"
    by (metis sum.collapse(2))
  with plan_is_expected [of plan_compiled "Some plan_policy" plan] show ?thesis
    by blast
qed



text \<open>A per-CPU counter summed over the CPUs is reported as the true sum while it fits 32 bits and as
  the largest 32-bit value otherwise; it never wraps.\<close>

theorem clamp_never_wraps:
  "uint (clampPerCPUSumToUint32 n) = max 0 (min n 4294967295)"
proof -
  have "uint (of_int k :: 32 word) = k" if "0 \<le> k" "k \<le> 4294967295" for k
    using that by (simp add: unsigned_of_int take_bit_int_eq_self)
  then show ?thesis
    by (auto simp: clampPerCPUSumToUint32_def MaxUint32_def)
qed

end
