(* ===== verification/DefendBpf.thy ===== *)
theory DefendBpf
  imports LpmMaps
begin

text \<open>
  The decision the kernel side takes for an egress destination in defend mode: the cgroup
  connect/sendmsg hooks (\<^verbatim>\<open>bpf/trace_defend_cgroup.inc\<close>, \<^verbatim>\<open>bpf/defend_policy.inc\<close>,
  \<^verbatim>\<open>bpf/coldstep_pure.h\<close>) and the address tests of the egress backstop
  (\<^verbatim>\<open>bpf/trace_defend_skb.inc\<close>).

  An address is its bytes in network order; \<open>be32 a i\<close> is the \<open>i\<close>-th 32-bit word in host order, so
  a C test \<^verbatim>\<open>(x & htonl(c)) == htonl(d)\<close> reads \<open>be32 a i AND c = d\<close>. The maps are seen through the
  result of the lookups the programs make: \<open>bpf_view\<close>.
\<close>

record bpf_view =
  v_mode :: "32 word option"
  v_allowed :: "bytes \<Rightarrow> bool"
  v_ignored :: "bytes \<Rightarrow> bool"
  v_allowed6 :: "bytes \<Rightarrow> bool"
  v_owner :: "bytes \<Rightarrow> bytes option"
  v_domain :: "bytes \<Rightarrow> bool"

record deny_record =
  de_protocol :: byte
  de_reason :: byte
  de_af :: byte
  de_daddr :: bytes
  de_dport :: "16 word"

record outcome =
  allowed :: bool
  deny :: "deny_record option"
  observed6 :: bool

definition be32 :: "bytes \<Rightarrow> nat \<Rightarrow> 32 word" where
  "be32 a i = push_bit 24 (ucast (a ! (4 * i))) OR push_bit 16 (ucast (a ! (4 * i + 1))) OR
     push_bit 8 (ucast (a ! (4 * i + 2))) OR ucast (a ! (4 * i + 3))"

section \<open>Shared helpers\<close>

definition coldstep_ipv4_is_loopback :: "bytes \<Rightarrow> bool" where
  "coldstep_ipv4_is_loopback daddr \<longleftrightarrow> daddr ! 0 = 127"

definition coldstep_ipv4_is_unspecified :: "bytes \<Rightarrow> bool" where
  "coldstep_ipv4_is_unspecified daddr \<longleftrightarrow> be32 daddr 0 = 0"

definition coldstep_ipv6_is_unspecified :: "bytes \<Rightarrow> bool" where
  "coldstep_ipv6_is_unspecified a \<longleftrightarrow> be32 a 0 = 0 \<and> be32 a 1 = 0 \<and> be32 a 2 = 0 \<and> be32 a 3 = 0"

definition defense_enabled :: "bpf_view \<Rightarrow> bool" where
  "defense_enabled v \<longleftrightarrow> v_mode v = Some 1"

definition dst_is_allowlisted :: "bpf_view \<Rightarrow> bytes \<Rightarrow> bool" where
  "dst_is_allowlisted v addr = (if v_allowed v addr then True
     else (case v_owner v addr of None \<Rightarrow> False | Some domain \<Rightarrow> v_domain v domain))"

definition dst_in_ignored :: "bpf_view \<Rightarrow> bytes \<Rightarrow> bool" where
  "dst_in_ignored v daddr = (if coldstep_ipv4_is_loopback daddr \<or> coldstep_ipv4_is_unspecified daddr
     then True else v_ignored v daddr)"

definition deny_ipv4 :: "byte \<Rightarrow> bytes \<Rightarrow> 16 word \<Rightarrow> deny_record" where
  "deny_ipv4 protocol dst4 dport = \<lparr>de_protocol = protocol, de_reason = 1, de_af = 2,
     de_daddr = dst4 @ replicate 12 0, de_dport = dport\<rparr>"

definition deny_ipv6 :: "byte \<Rightarrow> bytes \<Rightarrow> 16 word \<Rightarrow> deny_record" where
  "deny_ipv6 protocol dst16 dport = \<lparr>de_protocol = protocol, de_reason = 1, de_af = 10,
     de_daddr = dst16, de_dport = dport\<rparr>"

section \<open>The cgroup hooks\<close>

definition defend_cgroup_sock_addr_ipv4 :: "bpf_view \<Rightarrow> byte \<Rightarrow> bytes \<Rightarrow> 16 word \<Rightarrow> outcome" where
  "defend_cgroup_sock_addr_ipv4 v protocol daddr dport =
     (if \<not> defense_enabled v then \<lparr>allowed = True, deny = None, observed6 = False\<rparr>
      else if dst_in_ignored v daddr then \<lparr>allowed = True, deny = None, observed6 = False\<rparr>
      else if dst_is_allowlisted v daddr then \<lparr>allowed = True, deny = None, observed6 = False\<rparr>
      else \<lparr>allowed = False, deny = Some (deny_ipv4 protocol daddr dport), observed6 = False\<rparr>)"

definition cg_ipv6_is_loopback :: "bytes \<Rightarrow> bool" where
  "cg_ipv6_is_loopback a \<longleftrightarrow> be32 a 0 = 0 \<and> be32 a 1 = 0 \<and> be32 a 2 = 0 \<and> be32 a 3 = 1"

definition cg_ipv6_is_unspecified :: "bytes \<Rightarrow> bool" where
  "cg_ipv6_is_unspecified a \<longleftrightarrow> be32 a 0 = 0 \<and> be32 a 1 = 0 \<and> be32 a 2 = 0 \<and> be32 a 3 = 0"

definition cg_ipv6_is_link_local :: "bytes \<Rightarrow> bool" where
  "cg_ipv6_is_link_local a \<longleftrightarrow> be32 a 0 AND 0xffc00000 = 0xfe800000"

definition cg_ipv6_is_v4mapped :: "bytes \<Rightarrow> bool" where
  "cg_ipv6_is_v4mapped a \<longleftrightarrow> be32 a 0 = 0 \<and> be32 a 1 = 0 \<and> be32 a 2 = 0x0000ffff"

definition defend_cgroup_sock_addr_ipv6 :: "bpf_view \<Rightarrow> byte \<Rightarrow> bytes \<Rightarrow> 16 word \<Rightarrow> outcome" where
  "defend_cgroup_sock_addr_ipv6 v protocol a dport =
     (if cg_ipv6_is_loopback a then \<lparr>allowed = True, deny = None, observed6 = False\<rparr>
      else if cg_ipv6_is_unspecified a then \<lparr>allowed = True, deny = None, observed6 = False\<rparr>
      else if cg_ipv6_is_link_local a then \<lparr>allowed = True, deny = None, observed6 = False\<rparr>
      else if cg_ipv6_is_v4mapped a then
        (let v4 = drop 12 a in
         if \<not> defense_enabled v then \<lparr>allowed = True, deny = None, observed6 = False\<rparr>
         else if dst_in_ignored v v4 then \<lparr>allowed = True, deny = None, observed6 = False\<rparr>
         else if dst_is_allowlisted v v4 then \<lparr>allowed = True, deny = None, observed6 = False\<rparr>
         else \<lparr>allowed = False, deny = Some (deny_ipv4 protocol v4 dport), observed6 = False\<rparr>)
      else if \<not> defense_enabled v then \<lparr>allowed = True, deny = None, observed6 = True\<rparr>
      else if v_allowed6 v a then \<lparr>allowed = True, deny = None, observed6 = True\<rparr>
      else \<lparr>allowed = False, deny = Some (deny_ipv6 protocol a dport), observed6 = True\<rparr>)"

section \<open>The egress backstop's address tests\<close>

definition skb_v4_is_loopback :: "bytes \<Rightarrow> bool" where
  "skb_v4_is_loopback daddr \<longleftrightarrow> be32 daddr 0 AND 0xff000000 = 0x7f000000"

definition skb_v6_is_loopback :: "bytes \<Rightarrow> bool" where
  "skb_v6_is_loopback a \<longleftrightarrow> be32 a 0 = 0 \<and> be32 a 1 = 0 \<and> be32 a 2 = 0 \<and> be32 a 3 = 1"

definition skb_v6_is_link_local :: "bytes \<Rightarrow> bool" where
  "skb_v6_is_link_local a \<longleftrightarrow> be32 a 0 AND 0xffc00000 = 0xfe800000"

section \<open>Words and their bytes\<close>

lemma word32_all_bits:
  "(\<And>i. i < 32 \<Longrightarrow> bit (x :: 32 word) i = bit y i) \<Longrightarrow> x = y"
  by (rule bit_word_eqI) simp

lemma nat_lt_32_cases: "(i :: nat) < 32 \<Longrightarrow> i < 8 \<or> (\<exists>j < 8. i = 8 + j) \<or> (\<exists>j < 8. i = 16 + j) \<or> (\<exists>j < 8. i = 24 + j)"
  by presburger

lemma bit_be32:
  "j < 8 \<Longrightarrow> bit (be32 a i) j = bit (a ! (4 * i + 3)) j"
  "j < 8 \<Longrightarrow> bit (be32 a i) (8 + j) = bit (a ! (4 * i + 2)) j"
  "j < 8 \<Longrightarrow> bit (be32 a i) (16 + j) = bit (a ! (4 * i + 1)) j"
  "j < 8 \<Longrightarrow> bit (be32 a i) (24 + j) = bit (a ! (4 * i)) j"
  by (auto simp: be32_def bit_or_iff bit_push_bit_iff bit_unsigned_iff dest: bit_imp_le_length)

lemma byte_eqI: "(\<And>j. j < 8 \<Longrightarrow> bit (x :: byte) j = bit y j) \<Longrightarrow> x = y"
  by (rule bit_word_eqI) simp

text \<open>A test of a masked word is a test of its four masked bytes.\<close>

definition word4 :: "byte \<Rightarrow> byte \<Rightarrow> byte \<Rightarrow> byte \<Rightarrow> 32 word" where
  "word4 a b c d = be32 [a, b, c, d] 0"

lemma word4_inj: "word4 a b c d = word4 a' b' c' d' \<longleftrightarrow> a = a' \<and> b = b' \<and> c = c' \<and> d = d'"
proof
  assume e: "word4 a b c d = word4 a' b' c' d'"
  have "bit d j = bit d' j" "bit c j = bit c' j" "bit b j = bit b' j" "bit a j = bit a' j" if "j < 8" for j
    using bit_be32 [OF that, of "[a, b, c, d]" 0] bit_be32 [OF that, of "[a', b', c', d']" 0]
      e [unfolded word4_def] by simp_all
  then show "a = a' \<and> b = b' \<and> c = c' \<and> d = d'"
    by (metis byte_eqI)
qed simp

lemma word4_and: "word4 a b c d AND word4 a' b' c' d' = word4 (a AND a') (b AND b') (c AND c') (d AND d')"
proof (rule word32_all_bits)
  fix i :: nat
  assume "i < 32"
  from nat_lt_32_cases [OF this] show "bit (word4 a b c d AND word4 a' b' c' d') i =
      bit (word4 (a AND a') (b AND b') (c AND c') (d AND d')) i"
    by (auto simp: word4_def bit_and_iff bit_be32)
qed

lemma be32_word4: "be32 a i = word4 (a ! (4 * i)) (a ! (4 * i + 1)) (a ! (4 * i + 2)) (a ! (4 * i + 3))"
  by (simp add: be32_def word4_def)

lemma word4_constants:
  "(0 :: 32 word) = word4 0 0 0 0" "(1 :: 32 word) = word4 0 0 0 1"
  "(0x0000ffff :: 32 word) = word4 0 0 0xff 0xff" "(0xffc00000 :: 32 word) = word4 0xff 0xc0 0 0"
  "(0xfe800000 :: 32 word) = word4 0xfe 0x80 0 0" "(0xff000000 :: 32 word) = word4 0xff 0 0 0"
  "(0x7f000000 :: 32 word) = word4 0x7f 0 0 0"
  by code_simp+

lemmas be32_tests = be32_word4 word4_constants word4_and word4_inj

lemma be32_0: "be32 a i = 0 \<longleftrightarrow> a ! (4 * i) = 0 \<and> a ! (4 * i + 1) = 0 \<and> a ! (4 * i + 2) = 0 \<and> a ! (4 * i + 3) = 0"
  unfolding be32_tests ..

lemma be32_1: "be32 a i = 1 \<longleftrightarrow> a ! (4 * i) = 0 \<and> a ! (4 * i + 1) = 0 \<and> a ! (4 * i + 2) = 0 \<and> a ! (4 * i + 3) = 1"
  unfolding be32_word4 word4_constants(2) word4_inj ..

lemma be32_ffff: "be32 a i = 0xffff \<longleftrightarrow>
    a ! (4 * i) = 0 \<and> a ! (4 * i + 1) = 0 \<and> a ! (4 * i + 2) = 0xff \<and> a ! (4 * i + 3) = 0xff"
  unfolding be32_word4 word4_constants(3) word4_inj ..

lemma be32_link_local: "be32 a i AND 0xffc00000 = 0xfe800000 \<longleftrightarrow>
    a ! (4 * i) = 0xfe \<and> (a ! (4 * i + 1)) AND 0xc0 = 0x80"
  unfolding be32_word4 word4_constants(4,5) word4_and word4_inj by simp

lemma be32_loopback4: "be32 a i AND 0xff000000 = 0x7f000000 \<longleftrightarrow> a ! (4 * i) = 0x7f"
  unfolding be32_word4 word4_constants(6,7) word4_and word4_inj by simp

section \<open>The Go mirrors of the kernel's address tests\<close>

lemma list16:
  "length a = 16 \<Longrightarrow> \<exists>x0 x1 x2 x3 x4 x5 x6 x7 x8 x9 x10 x11 x12 x13 x14 x15.
     a = [x0, x1, x2, x3, x4, x5, x6, x7, x8, x9, x10, x11, x12, x13, x14, x15]"
  by (auto simp: length_Suc_conv eval_nat_numeral)

lemma mapped_iff: "length a = 16 \<Longrightarrow> take 12 a = v4InV6Prefix \<longleftrightarrow> cg_ipv6_is_v4mapped a"
  using list16 [of a] by (auto simp: v4InV6Prefix_def cg_ipv6_is_v4mapped_def be32_0 be32_ffff)

lemma To4_mapped_iff: "length a = 16 \<Longrightarrow> To4 a = (if cg_ipv6_is_v4mapped a then Some (drop 12 a) else None)"
  by (auto simp: To4_def mapped_iff)

lemma loopback6_iff: "length a = 16 \<Longrightarrow> a = IPv6loopback \<longleftrightarrow> cg_ipv6_is_loopback a"
  using list16 [of a]
  by (auto simp: IPv6loopback_def cg_ipv6_is_loopback_def be32_0 be32_1 eval_nat_numeral)

lemma unspecified6_iff: "length a = 16 \<Longrightarrow> a = replicate 16 0 \<longleftrightarrow> cg_ipv6_is_unspecified a"
  using list16 [of a] by (auto simp: cg_ipv6_is_unspecified_def be32_0 eval_nat_numeral)

lemma IPv6BypassesDefend_iff:
  assumes "length a = 16"
  shows "IPv6BypassesDefend a \<longleftrightarrow> cg_ipv6_is_loopback a \<or> cg_ipv6_is_link_local a"
proof -
  have "\<not> (cg_ipv6_is_v4mapped a \<and> (cg_ipv6_is_loopback a \<or> cg_ipv6_is_link_local a))"
    by (auto simp: cg_ipv6_is_v4mapped_def cg_ipv6_is_loopback_def cg_ipv6_is_link_local_def)
  moreover have "a \<noteq> []"
    using assms by auto
  moreover have "IP_Equal a IPv6loopback \<longleftrightarrow> a = IPv6loopback"
    using assms by (simp add: IP_Equal_def IPv6loopback_def)
  moreover have "cg_ipv6_is_link_local a \<longleftrightarrow> a ! 0 = 0xfe \<and> (a ! 1) AND 0xc0 = 0x80"
    by (simp add: cg_ipv6_is_link_local_def be32_link_local)
  ultimately show ?thesis
    using assms
    by (auto simp: IPv6BypassesDefend_def To4_mapped_iff To16_def IsLoopback_def loopback6_iff)
qed

lemma IPv4MappedEmbeddedIPv4_iff:
  "length a = 16 \<Longrightarrow>
   IPv4MappedEmbeddedIPv4 a = (if cg_ipv6_is_v4mapped a then Some (drop 12 a) else None)"
  using list16 [of a]
  by (auto simp: IPv4MappedEmbeddedIPv4_def To16_def cg_ipv6_is_v4mapped_def be32_0 be32_ffff upt_rec)

lemma EgressBackstopBypasses_iff:
  assumes "length a = 16"
  shows "EgressBackstopBypasses a \<longleftrightarrow>
    (if cg_ipv6_is_v4mapped a then skb_v4_is_loopback (drop 12 a)
     else skb_v6_is_loopback a \<or> skb_v6_is_link_local a)"
proof -
  have "a \<noteq> []"
    using assms by auto
  moreover have "IP_Equal a IPv6loopback \<longleftrightarrow> a = IPv6loopback"
    using assms by (simp add: IP_Equal_def IPv6loopback_def)
  moreover have "skb_v6_is_link_local a \<longleftrightarrow> a ! 0 = 0xfe \<and> (a ! 1) AND 0xc0 = 0x80"
    by (simp add: skb_v6_is_link_local_def be32_link_local)
  moreover have "skb_v4_is_loopback (drop 12 a) \<longleftrightarrow> drop 12 a ! 0 = 127"
    by (simp add: skb_v4_is_loopback_def be32_loopback4)
  moreover have "skb_v6_is_loopback a = cg_ipv6_is_loopback a"
    by (simp add: skb_v6_is_loopback_def cg_ipv6_is_loopback_def)
  ultimately show ?thesis
    using assms by (auto simp: EgressBackstopBypasses_def To4_mapped_iff IsLoopback_def loopback6_iff)
qed

lemma EgressBackstopBypasses4_iff:
  "length a = 4 \<Longrightarrow> EgressBackstopBypasses a \<longleftrightarrow> skb_v4_is_loopback a"
  by (auto simp: EgressBackstopBypasses_def skb_v4_is_loopback_def be32_loopback4)

text \<open>A v4-mapped destination is judged like the IPv4 address it embeds.\<close>

lemma ipv6_hook_mapped:
  assumes "length a = 4"
  shows "defend_cgroup_sock_addr_ipv6 v pr (v4InV6Prefix @ a) dp = defend_cgroup_sock_addr_ipv4 v pr a dp"
proof -
  have "cg_ipv6_is_v4mapped (v4InV6Prefix @ a)"
    using mapped_iff [of "v4InV6Prefix @ a"] assms by simp
  then show ?thesis
    by (auto simp: defend_cgroup_sock_addr_ipv6_def defend_cgroup_sock_addr_ipv4_def Let_def
        cg_ipv6_is_v4mapped_def cg_ipv6_is_loopback_def cg_ipv6_is_unspecified_def
        cg_ipv6_is_link_local_def)
qed

lemma ipv6_hook_allows:
  assumes "length a = 16" "\<not> cg_ipv6_is_v4mapped a" "defense_enabled v"
  shows "allowed (defend_cgroup_sock_addr_ipv6 v pr a dp) \<longleftrightarrow>
    IPv6BypassesDefend a \<or> a = replicate 16 0 \<or> v_allowed6 v a"
  using assms
  by (auto simp: defend_cgroup_sock_addr_ipv6_def IPv6BypassesDefend_iff unspecified6_iff)

lemma ipv4_hook_allows:
  "allowed (defend_cgroup_sock_addr_ipv4 v pr a dp) \<longleftrightarrow> \<not> defense_enabled v \<or>
    a ! 0 = 127 \<or> be32 a 0 = 0 \<or> v_ignored v a \<or> v_allowed v a \<or>
    (\<exists>d. v_owner v a = Some d \<and> v_domain v d)"
  by (auto simp: defend_cgroup_sock_addr_ipv4_def dst_in_ignored_def dst_is_allowlisted_def
      coldstep_ipv4_is_loopback_def coldstep_ipv4_is_unspecified_def split: option.splits)

section \<open>From the policy text to the kernel's verdict\<close>

lemma set_snapshot_v4keys:
  "set (snapshot_v4keys compiled (Some p)) =
     set (AllowedIPv4 compiled) \<union> {k \<in> set (ips p). length k = 4}"
proof -
  have "set (fold (\<lambda>s ks. if length s \<noteq> 4 then ks else sadd s ks) xs acc) =
      set acc \<union> {k \<in> set xs. length k = 4}" for xs acc
    by (induction xs arbitrary: acc) auto
  from this [of "ips p" "fold sadd (AllowedIPv4 compiled) []"] show ?thesis
    by (simp only: snapshot_v4keys_def MergeLiteralAllowedIPv4Keys_def IPv4Set_ForEach_def) simp
qed

lemma lpm_hit_expectedAllowed:
  assumes "wf_policy p" "wf_v4set (AllowedIPv4 compiled)" "length a = 4"
    "\<forall>n. Some n \<in> set (nets p) \<longrightarrow> (\<exists>l. is_net4 l n)"
  shows "lpm_hit (expectedAllowedKeys compiled (Some p)) a \<longleftrightarrow>
    IPv4Set_Contains (AllowedIPv4 compiled) a \<or> a \<in> set (ips p) \<or> NetsContains (nets p) a"
proof -
  have ips: "\<forall>k \<in> set (ips p). length k = 4" and al: "\<forall>k \<in> set (AllowedIPv4 compiled). length k = 4"
    using assms(1,2) by (auto simp: wf_policy_def wf_lists_def wf_v4set_def)
  have n: "lpm_key4 n = Inr k \<and> lpm_match k a \<longleftrightarrow> lpm_key4 n = Inr k \<and> IPNet_Contains n a"
    if "Some n \<in> set (nets p)" for n k
    using assms(3,4) that lpm_match_net4 lpm_key4_net4 by fastforce
  have "(\<exists>k. lpm_key4 n = Inr k) " if "Some n \<in> set (nets p)" for n
    using assms(4) that lpm_key4_net4 by blast
  then have "(\<exists>k n. Some n \<in> set (nets p) \<and> lpm_key4 n = Inr k \<and> lpm_match k a) \<longleftrightarrow>
      NetsContains (nets p) a"
    using n list_ex_NetsContains [OF assms(3)] by metis
  moreover have "(\<exists>b \<in> set (snapshot_v4keys compiled (Some p)). lpm_match (single_key b) a) \<longleftrightarrow>
      a \<in> set (AllowedIPv4 compiled) \<or> a \<in> set (ips p)"
    using lpm_match_single [OF assms(3)] ips al assms(3) unfolding set_snapshot_v4keys by auto
  ultimately show ?thesis
    using v4set_Contains_key [OF assms(2,3)]
    unfolding lpm_hit_def list_ex_iff set_expectedAllowedKeys
    by (auto simp: AllowedIPv4Nets_def)
qed

lemma lpm_hit_expectedIgnored:
  assumes "list_all wf_ignored (ignored p)" "length a = 4"
  shows "lpm_hit (expectedIgnoredKeys (Some p)) a \<longleftrightarrow>
    (\<exists>n. Some n \<in> set (ignored p) \<and> length (net_mask n) = 4 \<and> IPNet_Contains n a)"
proof -
  have "lpm_key4 n = Inr k \<and> lpm_match k a \<longleftrightarrow>
      length (net_mask n) = 4 \<and> lpm_key4 n = Inr k \<and> IPNet_Contains n a"
    "length (net_mask n) = 4 \<Longrightarrow> \<exists>k. lpm_key4 n = Inr k"
    if n: "Some n \<in> set (ignored p)" for n k
  proof -
    obtain l where e: "eff4 l n"
      using assms(1) n unfolding list_all_iff wf_ignored_def by (metis option.inject)
    show "lpm_key4 n = Inr k \<and> lpm_match k a \<longleftrightarrow>
        length (net_mask n) = 4 \<and> lpm_key4 n = Inr k \<and> IPNet_Contains n a"
      using lpm_key4_eff4 [OF e, of k] lpm_match_eff4 [OF e assms(2)] by auto
    assume "length (net_mask n) = 4"
    with e have "net_mask n = CIDRMask l 32"
      by (auto simp: eff4_def networkNumberAndMask_def)
    with e lpm_key4_mask4 [of n l] show "\<exists>k. lpm_key4 n = Inr k"
      by (auto simp: eff4_def)
  qed
  then show ?thesis
    unfolding lpm_hit_def list_ex_iff set_expectedIgnoredKeys IgnoredIPv4Nets_def option.case
      mem_Collect_eq Bex_def by meson
qed

section \<open>Loading fresh tries\<close>

text \<open>An LPM trie identifies a key with the prefix it denotes.\<close>

locale lpm_trie = lpm_store lpm_canon invar ents ops
  for invar :: "'m \<Rightarrow> bool" and ents :: "'m \<Rightarrow> (bytes \<times> byte) list" and ops :: "'m lpm_ops"
begin

lemma update_masked:
  assumes "invar m" "m_update ops m k 1 = Some m'" "masked_key4 k" "\<forall>j \<in> fst ` set (ents m). masked_key4 j"
  shows "invar m' \<and> fst ` set (ents m') = insert k (fst ` set (ents m))"
  using keys_update [OF assms(1,2)] update_ok [OF assms(1,2)] masked_key4_inj assms(3,4) by blast

lemma update_all_masked:
  assumes "invar m" "update_all ops ks m = (m', None)" "\<forall>k \<in> set ks. masked_key4 k"
    "\<forall>j \<in> fst ` set (ents m). masked_key4 j"
  shows "invar m' \<and> fst ` set (ents m') = set ks \<union> fst ` set (ents m)"
  using assms
proof (induction ks arbitrary: m)
  case (Cons k ks)
  then obtain m1 where m1: "m_update ops m k 1 = Some m1" "update_all ops ks m1 = (m', None)"
    by (auto split: option.splits)
  have "invar m1 \<and> fst ` set (ents m1) = insert k (fst ` set (ents m))"
    using update_masked [OF Cons.prems(1) m1(1)] Cons.prems(3,4) by simp
  with Cons.IH [OF _ m1(2)] Cons.prems(3,4) show ?case
    by simp
qed simp

lemma load_allowed_masked:
  assumes "invar m" "ents m = []" "loadAllowedLPMMap ops plan (Some m) = (mo, None)"
    "\<forall>k \<in> set (singleIPKeys plan @ cidrKeys plan). masked_key4 k"
  shows "\<exists>m'. mo = Some m' \<and> invar m' \<and> fst ` set (ents m') = set (singleIPKeys plan @ cidrKeys plan)"
proof -
  from assms(3) obtain m1 m2 where u: "update_all ops (singleIPKeys plan) m = (m1, None)"
      "update_all ops (cidrKeys plan) m1 = (m2, None)" "mo = Some m2"
    by (auto simp: loadAllowedLPMMap_def split: prod.splits option.splits)
  have 1: "invar m1 \<and> fst ` set (ents m1) = set (singleIPKeys plan)"
    using update_all_masked [OF assms(1) u(1)] assms(2,4) by simp
  with update_all_masked [OF _ u(2)] assms(4) u(3) show ?thesis
    by auto
qed

lemma load_ignored_masked:
  assumes "invar m" "load_ignored ops ns c m = (m', Inr c')" "list_all wf_ignored ns"
    "\<forall>j \<in> fst ` set (ents m). masked_key4 j"
  shows "invar m' \<and> fst ` set (ents m') = fst ` set (ents m) \<union>
    {key. \<exists>n. Some n \<in> set ns \<and> lpm_key4 n = Inr key}"
  using assms
proof (induction ns arbitrary: m c)
  case (Cons x ns)
  then obtain n where n: "x = Some n" "wf_ignored (Some n)"
    by (auto simp: wf_ignored_def)
  show ?case
  proof (cases "lpm_key4 n")
    case (Inl e)
    with Cons n show ?thesis
      by auto
  next
    case (Inr key)
    with Cons.prems(2) n obtain m1 where m1: "m_update ops m key 1 = Some m1"
        "load_ignored ops ns (Suc c) m1 = (m', Inr c')"
      by (auto split: option.splits)
    have "invar m1 \<and> fst ` set (ents m1) = insert key (fst ` set (ents m))"
      using update_masked [OF Cons.prems(1) m1(1)] masked_ignored_key [OF n(2) Inr] Cons.prems(4) by simp
    with Cons.IH [OF _ m1(2)] Cons.prems(3,4) masked_ignored_key [OF n(2) Inr] Inr n show ?thesis
      by auto
  qed
qed simp

lemma load_ignored_fresh:
  assumes "invar m" "ents m = []" "loadIgnoredLPMMap ops ns (Some m) = (mo, Inr c)"
    "list_all wf_ignored ns"
  shows "\<exists>m'. mo = Some m' \<and> invar m' \<and> fst ` set (ents m') =
    {key. \<exists>n. Some n \<in> set ns \<and> lpm_key4 n = Inr key}"
proof (cases "ns = []")
  case True
  with assms show ?thesis
    by (auto simp: loadIgnoredLPMMap_def)
next
  case False
  with assms(3) obtain m' where "mo = Some m'" "load_ignored ops ns 0 m = (m', Inr c)"
    by (auto simp: loadIgnoredLPMMap_def split: if_splits prod.splits)
  with load_ignored_masked [OF assms(1) _ assms(4)] assms(2) show ?thesis
    by simp
qed

end

interpretation trie_ref: lpm_trie "list_invar lpm_canon" "\<lambda>es. es" "list_map lpm_canon"
  by (intro lpm_trie.intro lpm_store.intro list_map_contract)

lemma plan_all_net4:
  assumes "plan_cidrs ns seen out = Inr r" "list_all wf_allow_net ns"
  shows "\<forall>n. Some n \<in> set ns \<longrightarrow> (\<exists>l. is_net4 l n)"
  using assms
proof (induction ns seen out rule: plan_cidrs.induct)
  case (3 n ns seen out)
  then obtain key where k: "lpm_key4 n = Inr key"
    by (auto split: sum.splits)
  with "3.prems"(2) have "\<exists>l. is_net4 l n"
    using lpm_key4_net6 by (fastforce simp: wf_allow_net_def)
  moreover have "\<forall>m. Some m \<in> set ns \<longrightarrow> (\<exists>l. is_net4 l m)"
    using "3.IH"(1,2) [OF k] "3.prems" k by (auto split: if_splits)
  ultimately show ?case
    by auto
qed auto

lemma defend_plan_net4:
  assumes "buildDefendAllowedPlan compiled (Some p) = Inr plan" "wf_policy p"
  shows "\<forall>n. Some n \<in> set (nets p) \<longrightarrow> (\<exists>l. is_net4 l n)"
proof -
  from assms(1) obtain seen r where "plan_cidrs (nets p) seen [] = Inr r"
    by (auto simp: buildDefendAllowedPlan_def buildAllowedLPMPlan_def AllowedIPv4Nets_def
        split: sum.splits prod.splits)
  moreover have "list_all wf_allow_net (nets p)"
    using assms(2) by (simp add: wf_policy_def wf_lists_def)
  ultimately show ?thesis
    by (rule plan_all_net4)
qed

lemma expectedAllowed_masked:
  assumes "wf_policy p" "wf_v4set (AllowedIPv4 compiled)" "k \<in> set (expectedAllowedKeys compiled (Some p))"
  shows "masked_key4 k"
proof -
  have "\<forall>b \<in> set (snapshot_v4keys compiled (Some p)). length b = 4"
    using assms(2) unfolding set_snapshot_v4keys by (auto simp: wf_v4set_def)
  moreover have "\<forall>n. Some n \<in> set (nets p) \<longrightarrow> wf_allow_net (Some n)"
    using assms(1) by (auto simp: wf_policy_def wf_lists_def list_all_iff)
  ultimately show ?thesis
    using assms(3) masked_allow_key masked_single_key
    unfolding set_expectedAllowedKeys AllowedIPv4Nets_def option.case by blast
qed

lemma expectedIgnored_masked:
  assumes "list_all wf_ignored (ignored p)" "k \<in> set (expectedIgnoredKeys (Some p))"
  shows "masked_key4 k"
  using assms masked_ignored_key unfolding set_expectedIgnoredKeys IgnoredIPv4Nets_def option.case
    list_all_iff by blast

text \<open>What a successful load leaves in the two tries.\<close>

lemma loadDefendMaps_tries:
  assumes "lpm_trie invar ents (b_lpm ops)"
    and "loadDefendMapsForBackend ops compiled (Some p) maps = (maps', Inr r)"
    and "dm_allowed maps = Some ma" "invar ma" "ents ma = []"
    and "dm_ignored maps = Some mi" "invar mi" "ents mi = []"
    and "wf_policy p" "list_all wf_ignored (ignored p)" "wf_v4set (AllowedIPv4 compiled)"
  obtains al ig where "dm_allowed maps' = Some al" "dm_ignored maps' = Some ig"
    "fst ` set (ents al) = set (expectedAllowedKeys compiled (Some p))"
    "fst ` set (ents ig) = set (expectedIgnoredKeys (Some p))"
    "\<forall>n. Some n \<in> set (nets p) \<longrightarrow> (\<exists>l. is_net4 l n)"
proof -
  note loc = assms(1)
  from assms(2,6) obtain igo c plan alo where
    ig: "loadIgnoredLPMMap (b_lpm ops) (ignored p) (Some mi) = (igo, Inr c)"
    and plan: "buildDefendAllowedPlan compiled (Some p) = Inr plan"
    and al: "loadAllowedLPMMap (b_lpm ops) plan (Some ma) = (alo, None)"
    and maps': "dm_allowed maps' = alo" "dm_ignored maps' = igo"
    using assms(3)
    by (auto simp: loadDefendMapsForBackend_def Let_def IgnoredIPv4Nets_def
        split: option.splits prod.splits sum.splits)
  have "\<forall>k \<in> set (singleIPKeys plan @ cidrKeys plan). masked_key4 k"
    using expectedAllowed_masked [OF assms(9,11)] buildDefendAllowedPlan_spec(2) [OF plan] by blast
  from lpm_trie.load_allowed_masked [OF loc assms(4,5) al this] obtain al' where
    "alo = Some al'" "fst ` set (ents al') = set (expectedAllowedKeys compiled (Some p))"
    using buildDefendAllowedPlan_spec(2) [OF plan] by auto
  moreover from lpm_trie.load_ignored_fresh [OF loc assms(7,8) ig assms(10)] obtain ig' where
    "igo = Some ig'" "fst ` set (ents ig') = set (expectedIgnoredKeys (Some p))"
    unfolding set_expectedIgnoredKeys IgnoredIPv4Nets_def by auto
  ultimately show thesis
    using that maps' defend_plan_net4 [OF plan assms(9)] by blast
qed

section \<open>Configuration and domains\<close>

lemma load_domains_keys:
  assumes "bpf_map id invar ents ops" "invar m" "load_domains ops ds m = (m', None)"
  shows "invar m' \<and> fst ` set (ents m') = (\<lambda>d. copy_into 256 (sbytes d)) ` set ds \<union> fst ` set (ents m)"
  using assms(2,3)
proof (induction ds arbitrary: m)
  case (Cons d ds)
  then obtain m1 where m1: "m_update ops m (copy_into 256 (sbytes d)) 1 = Some m1" "load_domains ops ds m1 = (m', None)"
    by (auto split: option.splits)
  have u: "invar m1" "fst ` set (ents m1) = insert (copy_into 256 (sbytes d)) (fst ` set (ents m))"
    using bpf_map.update_ok [OF assms(1) Cons.prems(1) m1(1)] bpf_map.keys_update [OF assms(1) Cons.prems(1) m1(1)]
    by auto
  show ?case
    using Cons.IH [OF u(1) m1(2)] unfolding u(2) by auto
qed simp

text \<open>What the kernel reads: the mode is the value under key 0 of the configuration map, an address hits
  a trie when some stored prefix matches it, a domain is known when it is a key of the domain map.\<close>

definition kernel_reads ::
  "('c \<Rightarrow> (32 word \<times> 32 word) list) \<Rightarrow> ('m \<Rightarrow> (bytes \<times> byte) list) \<Rightarrow> ('d \<Rightarrow> (bytes \<times> byte) list) \<Rightarrow>
   ('c, 'm, 'd) defendMapSet \<Rightarrow> bpf_view \<Rightarrow> bool" where
  "kernel_reads cents ents dents maps v \<longleftrightarrow>
     v_mode v = map_of (cents (dm_cfg maps)) 0 \<and>
     (\<forall>al. dm_allowed maps = Some al \<longrightarrow> v_allowed v = lpm_hit (map fst (ents al))) \<and>
     (\<forall>ig. dm_ignored maps = Some ig \<longrightarrow> v_ignored v = lpm_hit (map fst (ents ig))) \<and>
     v_domain v = (\<lambda>d. d \<in> fst ` set (dents (dm_domains maps)))"

lemma loadDefendMaps_cfg_domains:
  assumes "loadDefendMapsForBackend ops compiled (Some p) maps = (maps', Inr r)"
    and "bpf_map id cinv cents (b_cfg ops)" "cinv (dm_cfg maps)"
    and "bpf_map id dinv dents (b_dom ops)" "dinv (dm_domains maps)" "dents (dm_domains maps) = []"
  shows "map_of (cents (dm_cfg maps')) 0 = Some 1"
    "fst ` set (dents (dm_domains maps')) = (\<lambda>d. copy_into 256 (sbytes d)) ` set (AllowedDomains (Some p))"
proof -
  obtain cfg' where cfg: "m_update (b_cfg ops) (dm_cfg maps) 0 1 = Some cfg'" "dm_cfg maps' = cfg'"
    and dom: "load_domains (b_dom ops) (AllowedDomains (Some p)) (dm_domains maps) = (dm_domains maps', None)"
    using assms(1)
    by (auto simp: loadDefendMapsForBackend_def loadAllowedDomainsMap_def Let_def
        split: option.splits prod.splits sum.splits)
  have "cinv cfg'" "(0, 1) \<in> set (cents cfg')"
    using bpf_map.update_ok [OF assms(2,3) cfg(1)] by auto
  moreover from this have "distinct (map fst (cents cfg'))"
    using bpf_map.one_entry [OF assms(2)] by fastforce
  ultimately show "map_of (cents (dm_cfg maps')) 0 = Some 1"
    by (simp add: cfg(2))
  show "fst ` set (dents (dm_domains maps')) = (\<lambda>d. copy_into 256 (sbytes d)) ` set (AllowedDomains (Some p))"
    using load_domains_keys [OF assms(4,5) dom] assms(6) by simp
qed

section \<open>Properties\<close>

text \<open>An IPv4-mapped IPv6 destination is judged by the IPv6 hook exactly as the IPv4 hook judges the
  embedded address, denial record included, and Go extracts the same embedded address.\<close>

theorem mapped_judged_as_ipv4:
  "length a = 4 \<Longrightarrow>
   defend_cgroup_sock_addr_ipv6 v pr (v4InV6Prefix @ a) dp = defend_cgroup_sock_addr_ipv4 v pr a dp \<and>
   IPv4MappedEmbeddedIPv4 (v4InV6Prefix @ a) = Some a"
  using IPv4MappedEmbeddedIPv4_iff [of "v4InV6Prefix @ a"] mapped_iff [of "v4InV6Prefix @ a"]
  by (simp add: ipv6_hook_mapped length_v4InV6Prefix)

definition deny_all_view :: bpf_view where
  "deny_all_view = \<lparr>v_mode = Some 1, v_allowed = (\<lambda>_. False), v_ignored = (\<lambda>_. False),
     v_allowed6 = (\<lambda>_. False), v_owner = (\<lambda>_. None), v_domain = (\<lambda>_. False)\<rparr>"

theorem mapped_judged_as_ipv4_witness:
  "defend_cgroup_sock_addr_ipv6 deny_all_view 6 (v4InV6Prefix @ [8, 8, 8, 8]) 443 =
     defend_cgroup_sock_addr_ipv4 deny_all_view 6 [8, 8, 8, 8] 443"
  by (rule mapped_judged_as_ipv4 [THEN conjunct1]) simp

text \<open>C32. In enforcing mode the IPv6 hook lets a native IPv6 destination through exactly when the Go
  bypass test says so, or the address is in the IPv6 allow trie, or it is the unspecified address,
  which the Go test does not bypass.\<close>

theorem ipv6_hook_against_go:
  "length a = 16 \<Longrightarrow> take 12 a \<noteq> v4InV6Prefix \<Longrightarrow> v_mode v = Some 1 \<Longrightarrow>
   allowed (defend_cgroup_sock_addr_ipv6 v pr a dp) \<longleftrightarrow>
     IPv6BypassesDefend a \<or> a = replicate 16 0 \<or> v_allowed6 v a"
  using ipv6_hook_allows [of a v pr dp] mapped_iff [of a] by (simp add: defense_enabled_def)

theorem ipv6_hook_against_go_witness:
  "allowed (defend_cgroup_sock_addr_ipv6 deny_all_view 6 (replicate 16 0) 443) \<and>
   \<not> IPv6BypassesDefend (replicate 16 0)"
proof
  show "allowed (defend_cgroup_sock_addr_ipv6 deny_all_view 6 (replicate 16 0) 443)"
  proof (rule ipv6_hook_against_go [THEN iffD2])
    show "take 12 (replicate 16 0) \<noteq> v4InV6Prefix"
      by code_simp
  qed (simp_all add: deny_all_view_def)
  show "\<not> IPv6BypassesDefend (replicate 16 0)"
    by code_simp
qed

text \<open>The Go egress-backstop test and the kernel's packet filter agree on which destinations skip the
  backstop, for IPv4 addresses, IPv4-mapped IPv6 addresses and native IPv6 addresses.\<close>

theorem backstop_agrees:
  "(length a = 4 \<longrightarrow> EgressBackstopBypasses a = skb_v4_is_loopback a) \<and>
   (length a = 16 \<longrightarrow> EgressBackstopBypasses a =
     (if cg_ipv6_is_v4mapped a then skb_v4_is_loopback (drop 12 a)
      else skb_v6_is_loopback a \<or> skb_v6_is_link_local a))"
  using EgressBackstopBypasses_iff [of a] EgressBackstopBypasses4_iff [of a] by simp

theorem backstop_agrees_witness:
  "EgressBackstopBypasses [127, 0, 0, 53] = skb_v4_is_loopback [127, 0, 0, 53]"
  using backstop_agrees [of "[127, 0, 0, 53]"] by simp

end
