(* ===== verification/Integrity.thy ===== *)
theory Integrity
  imports DefendBpf
begin

text \<open>
  The map integrity watcher (\<^verbatim>\<open>internal/agent/agent_linux_integrity.go\<close>): one tick compares the
  defend maps with what was programmed, reports a difference and repairs it. The state is the three
  maps, the failure counters, the log back-off table, the sequence generator and the
  \<^verbatim>\<open>bpf_tamper\<close> events written so far; \<open>now\<close> is the clock of the tick, in nanoseconds.
\<close>

definition integrityBackoffWindow :: int where
  "integrityBackoffWindow = 300000000000"

type_synonym backoff = "(string \<times> int) list"

definition noteFailure :: "int \<Rightarrow> string \<Rightarrow> backoff \<Rightarrow> bool \<times> backoff" where
  "noteFailure now asset lastFail = (let lf = AList.update asset now lastFail in
     (case map_of lastFail asset of None \<Rightarrow> (True, lf)
      | Some l \<Rightarrow> (integrityBackoffWindow \<le> now - l, lf)))"

definition clearFailure :: "string \<Rightarrow> backoff \<Rightarrow> backoff" where
  "clearFailure asset lastFail = AList.delete asset lastFail"

datatype tamper_error = LookupError | ValueMismatch | IterateError | KeysetMismatch

record tamper_event =
  te_seq :: "64 word"
  te_ts :: int
  te_asset :: string
  te_error :: tamper_error
  te_expected :: string
  te_actual :: string

record ('c, 'm) watch_state =
  ws_cfg :: 'c
  ws_allowed :: 'm
  ws_ignored :: 'm
  ws_failures :: nat
  ws_defend_failures :: "nat option"
  ws_backoff :: backoff
  ws_escalated :: "string list"
  ws_seq :: "64 word"
  ws_tamper :: "tamper_event list"

text \<open>\<open>logging\<close> is the test \<^verbatim>\<open>cfg.EventsLogPath != ""\<close>; \<open>ws_escalated\<close> records the assets reported
  at error level.\<close>

definition logMapIntegrityFailure ::
  "bool \<Rightarrow> int \<Rightarrow> string \<Rightarrow> tamper_error \<Rightarrow> string \<Rightarrow> string \<Rightarrow> ('c, 'm) watch_state \<Rightarrow> ('c, 'm) watch_state" where
  "logMapIntegrityFailure logging now asset err expected actual st = (
     case noteFailure now asset (ws_backoff st) of (escalate, lf) \<Rightarrow>
     let st1 = st\<lparr>ws_failures := Suc (ws_failures st),
           ws_defend_failures := map_option Suc (ws_defend_failures st),
           ws_backoff := lf,
           ws_escalated := (if escalate then ws_escalated st @ [asset] else ws_escalated st)\<rparr> in
     if logging then
       (let n = ws_seq st1 + 1 in st1\<lparr>ws_seq := n, ws_tamper := ws_tamper st1 @ [\<lparr>te_seq = n, te_ts = now,
          te_asset = asset, te_error = err, te_expected = expected, te_actual = actual\<rparr>]\<rparr>)
     else st1)"

definition lpmKeysetsEqual :: "bytes list \<Rightarrow> bytes list \<Rightarrow> bool" where
  "lpmKeysetsEqual a b = (if length a \<noteq> length b then False else list_all (\<lambda>k. k \<in> set b) a)"

definition entries_text :: "bytes list \<Rightarrow> string" where
  "entries_text ks = itoa (length ks) @ '' entries''"

definition assetDefendCfg :: string where "assetDefendCfg = ''map:defend_cfg''"
definition assetAllowed :: string where "assetAllowed = ''map:allowed_ipv4''"
definition assetIgnored :: string where "assetIgnored = ''map:ignored_ipv4_lpm''"

definition check_cfg :: "'c cfg_ops \<Rightarrow> bool \<Rightarrow> int \<Rightarrow> ('c, 'm) watch_state \<Rightarrow> ('c, 'm) watch_state" where
  "check_cfg cops logging now st = (case m_find cops (ws_cfg st) 0 of
     Found val \<Rightarrow> if val \<noteq> 1 then
       (let st1 = logMapIntegrityFailure logging now assetDefendCfg ValueMismatch ''1'' (itoa (unat val)) st in
        (case m_update cops (ws_cfg st1) 0 1 of None \<Rightarrow> st1
         | Some c \<Rightarrow> st1\<lparr>ws_cfg := c, ws_backoff := clearFailure assetDefendCfg (ws_backoff st1)\<rparr>))
       else st
   | _ \<Rightarrow> (let st1 = logMapIntegrityFailure logging now assetDefendCfg LookupError [] [] st in
        (case m_update cops (ws_cfg st1) 0 1 of None \<Rightarrow> st1
         | Some c \<Rightarrow> st1\<lparr>ws_cfg := c, ws_backoff := clearFailure assetDefendCfg (ws_backoff st1)\<rparr>)))"

definition check_allowed :: "'m lpm_ops \<Rightarrow> bool \<Rightarrow> int \<Rightarrow> CompileResult \<Rightarrow> policy option \<Rightarrow>
    ('c, 'm) watch_state \<Rightarrow> ('c, 'm) watch_state" where
  "check_allowed ops logging now compiled pol st = (case m_iterate ops (ws_allowed st) of
     None \<Rightarrow> logMapIntegrityFailure logging now assetAllowed IterateError [] [] st
   | Some es \<Rightarrow> let actual = fold sadd (map fst es) []; expected = expectedAllowedKeys compiled pol in
     if lpmKeysetsEqual actual expected then st
     else (let st1 = logMapIntegrityFailure logging now assetAllowed KeysetMismatch
             (entries_text expected) (entries_text actual) st in
       (case rearmAllowedFromSnapshot ops compiled pol (Some (ws_allowed st1)) of
          (mo, _, _, Some e) \<Rightarrow> st1\<lparr>ws_allowed := the mo\<rparr>
        | (mo, _, _, None) \<Rightarrow> st1\<lparr>ws_allowed := the mo,
            ws_backoff := clearFailure assetAllowed (ws_backoff st1)\<rparr>)))"

definition check_ignored :: "'m lpm_ops \<Rightarrow> bool \<Rightarrow> int \<Rightarrow> policy option \<Rightarrow>
    ('c, 'm) watch_state \<Rightarrow> ('c, 'm) watch_state" where
  "check_ignored ops logging now pol st = (case m_iterate ops (ws_ignored st) of
     None \<Rightarrow> logMapIntegrityFailure logging now assetIgnored IterateError [] [] st
   | Some es \<Rightarrow> let actual = fold sadd (map fst es) []; expected = expectedIgnoredKeys pol in
     if lpmKeysetsEqual actual expected then st
     else (let st1 = logMapIntegrityFailure logging now assetIgnored KeysetMismatch
             (entries_text expected) (entries_text actual) st in
       (case rearmIgnoredFromPolicy ops pol (Some (ws_ignored st1)) of
          (mo, _, _, Some e) \<Rightarrow> st1\<lparr>ws_ignored := the mo\<rparr>
        | (mo, _, _, None) \<Rightarrow> st1\<lparr>ws_ignored := the mo,
            ws_backoff := clearFailure assetIgnored (ws_backoff st1)\<rparr>)))"

text \<open>The three maps are present here; with a nil map the source returns at once.\<close>

definition checkMapIntegrity :: "'c cfg_ops \<Rightarrow> 'm lpm_ops \<Rightarrow> bool \<Rightarrow> int \<Rightarrow> CompileResult \<Rightarrow> policy option \<Rightarrow>
    ('c, 'm) watch_state \<Rightarrow> ('c, 'm) watch_state" where
  "checkMapIntegrity cops ops logging now compiled pol st =
     check_ignored ops logging now pol (check_allowed ops logging now compiled pol
       (check_cfg cops logging now st))"

section \<open>Key set comparison\<close>

lemma lpmKeysetsEqual_iff:
  assumes "distinct a" "distinct b"
  shows "lpmKeysetsEqual a b \<longleftrightarrow> set a = set b"
proof
  assume "lpmKeysetsEqual a b"
  then have "length a = length b" "set a \<subseteq> set b"
    by (auto simp: lpmKeysetsEqual_def list_all_iff split: if_splits)
  then show "set a = set b"
    using distinct_card [OF assms(1)] distinct_card [OF assms(2)] by (simp add: card_subset_eq)
next
  assume "set a = set b"
  then show "lpmKeysetsEqual a b"
    using distinct_card [OF assms(1)] distinct_card [OF assms(2)]
    by (simp add: lpmKeysetsEqual_def list_all_iff)
qed

section \<open>What a tick leaves\<close>

lemma log_frame [simp]:
  "ws_cfg (logMapIntegrityFailure l now a e x y st) = ws_cfg st"
  "ws_allowed (logMapIntegrityFailure l now a e x y st) = ws_allowed st"
  "ws_ignored (logMapIntegrityFailure l now a e x y st) = ws_ignored st"
  "ws_failures (logMapIntegrityFailure l now a e x y st) = Suc (ws_failures st)"
  by (auto simp: logMapIntegrityFailure_def Let_def split: prod.splits)

lemma log_tamper:
  "length (ws_tamper (logMapIntegrityFailure l now a e x y st)) =
     (if l then Suc (length (ws_tamper st)) else length (ws_tamper st))"
  by (auto simp: logMapIntegrityFailure_def Let_def split: prod.splits)

lemma check_cfg_frame [simp]:
  "ws_allowed (check_cfg cops l now st) = ws_allowed st"
  "ws_ignored (check_cfg cops l now st) = ws_ignored st"
  by (auto simp: check_cfg_def Let_def split: find_result.splits option.splits)

lemma check_allowed_frame [simp]:
  "ws_cfg (check_allowed ops l now c p st) = ws_cfg st"
  "ws_ignored (check_allowed ops l now c p st) = ws_ignored st"
  by (auto simp: check_allowed_def Let_def split: option.splits prod.splits)

lemma check_ignored_frame [simp]:
  "ws_cfg (check_ignored ops l now p st) = ws_cfg st"
  "ws_allowed (check_ignored ops l now p st) = ws_allowed st"
  by (auto simp: check_ignored_def Let_def split: option.splits prod.splits)

lemma reconcile_Some: "\<exists>m' a r e. reconcileLPMMap ops ks (Some m) = (Some m', a, r, e)"
  by (auto simp: reconcileLPMMap_def Let_def split: option.splits prod.splits)

text \<open>\<open>works ops\<close>: no operation on the map fails.\<close>

definition works :: "('m, 'k, 'v) map_ops \<Rightarrow> bool" where
  "works ops \<longleftrightarrow> (\<forall>m k v. m_update ops m k v \<noteq> None) \<and> (\<forall>m k. m_delete ops m k \<noteq> DeleteFailed) \<and>
     (\<forall>m. m_iterate ops m \<noteq> None) \<and> (\<forall>m k. m_find ops m k \<noteq> FindFailed)"

lemma works_list_map: "works (list_map canon)"
  by (auto simp: works_def list_map_def split: list.splits)

lemma works_insert: "works ops \<Longrightarrow> \<exists>m' a. insert_expected ops ex ks n m = (m', a, None)"
proof (induction ks arbitrary: n m)
  case (Cons k ks)
  then obtain m1 where "m_update ops m k 1 = Some m1"
    unfolding works_def by blast
  with Cons show ?case
    by simp
qed simp

lemma works_delete: "works ops \<Longrightarrow> \<exists>m' r. delete_stale ops ks n m = (m', r, None)"
proof (induction ks arbitrary: n m)
  case (Cons k ks)
  then have "m_delete ops m k \<noteq> DeleteFailed"
    unfolding works_def by blast
  with Cons show ?case
    by (cases "m_delete ops m k") auto
qed simp

lemma works_reconcile:
  assumes "works ops"
  shows "\<exists>m' a r. reconcileLPMMap ops ks (Some m) = (Some m', a, r, None)"
proof -
  obtain es where "m_iterate ops m = Some es"
    using assms unfolding works_def by blast
  moreover obtain m1 a where "insert_expected ops (map fst es) ks 0 m = (m1, a, None)"
    using works_insert [OF assms] by blast
  moreover obtain m2 r where "delete_stale ops (filter (\<lambda>k. k \<notin> set ks) (map fst es)) 0 m1 = (m2, r, None)"
    using works_delete [OF assms] by blast
  ultimately show ?thesis
    by (simp add: reconcileLPMMap_def Let_def)
qed

text \<open>One repair of a trie. Whatever the tampering, only expected keys are left; when no stale key
  is an alias of an expected one, all of them are.\<close>

lemma repair_subset:
  assumes "lpm_trie invar ents ops" "works ops" "invar m" "distinct ks" "\<forall>k \<in> set ks. masked_key4 k"
    "reconcileLPMMap ops ks (Some m) = (mo, a, r, e)"
  shows "e = None \<and> (\<exists>m'. mo = Some m' \<and> invar m' \<and> fst ` set (ents m') \<subseteq> set ks \<and>
    ((\<forall>j \<in> fst ` set (ents m). masked_key4 j) \<longrightarrow> fst ` set (ents m') = set ks))"
proof -
  have loc: "lpm_store lpm_canon invar ents ops"
    using assms(1) by (simp add: lpm_trie_def)
  obtain m' where m': "reconcileLPMMap ops ks (Some m) = (Some m', a, r, None)" "mo = Some m'" "e = None"
    using works_reconcile [OF assms(2), of ks m] assms(6) by auto
  have "distinct (map lpm_canon ks)"
    using assms(4,5) masked_key4_inj by (auto simp: distinct_map inj_on_def)
  from lpm_store.reconcile_entries [OF loc assms(3) m'(1) this]
  have i: "invar m'" and en: "set (ents m') = {(k, 1) |k. k \<in> set ks \<and>
      lpm_canon k \<notin> lpm_canon ` (fst ` set (ents m) - set ks)}"
    by blast+
  have sub: "fst ` set (ents m') \<subseteq> set ks"
    unfolding en by auto
  have eq: "fst ` set (ents m') = set ks" if masked: "\<forall>j \<in> fst ` set (ents m). masked_key4 j"
  proof
    show "set ks \<subseteq> fst ` set (ents m')"
    proof
      fix k
      assume k: "k \<in> set ks"
      have "lpm_canon k \<notin> lpm_canon ` (fst ` set (ents m) - set ks)"
      proof
        assume "lpm_canon k \<in> lpm_canon ` (fst ` set (ents m) - set ks)"
        then obtain j where j: "j \<in> fst ` set (ents m)" "j \<notin> set ks" "lpm_canon k = lpm_canon j"
          by blast
        then have "k = j"
          using masked_key4_inj [of k j] masked assms(5) k by blast
        with j k show False
          by simp
      qed
      with k have "(k, 1) \<in> set (ents m')"
        unfolding en by blast
      then show "k \<in> fst ` set (ents m')"
        by (rule image_eqI [rotated]) simp
    qed
  qed (rule sub)
  show ?thesis
    using m'(2,3) i sub eq by blast
qed

definition clean :: "('m \<Rightarrow> (bytes \<times> byte) list) \<Rightarrow> bytes list \<Rightarrow> 'm \<Rightarrow> bool" where
  "clean ents expected m \<longleftrightarrow> fst ` set (ents m) = set expected"

lemma trie_map: "lpm_trie invar ents ops \<Longrightarrow> bpf_map lpm_canon invar ents ops"
  by (simp add: lpm_trie_def lpm_store_def)

lemma keyset_test:
  assumes "lpm_trie invar ents ops" "invar m" "m_iterate ops m = Some es" "distinct ks"
  shows "lpmKeysetsEqual (fold sadd (map fst es) []) ks \<longleftrightarrow> clean ents ks m"
proof -
  have "set (fold sadd (map fst es) []) = fst ` set (ents m)"
    using bpf_map.keys_iterate [OF trie_map [OF assms(1)] assms(2,3)] by simp
  then show ?thesis
    using lpmKeysetsEqual_iff [of "fold sadd (map fst es) []" ks] assms(4) by (simp add: clean_def)
qed

text \<open>The effect of the two trie checks on the trie they guard.\<close>

definition repaired :: "('m \<Rightarrow> bool) \<Rightarrow> ('m \<Rightarrow> (bytes \<times> byte) list) \<Rightarrow> bytes list \<Rightarrow> 'm \<Rightarrow> 'm \<Rightarrow> bool" where
  "repaired invar ents ks m m' \<longleftrightarrow> invar m' \<and> fst ` set (ents m') \<subseteq> set ks \<and>
     ((\<forall>j \<in> fst ` set (ents m). masked_key4 j) \<longrightarrow> clean ents ks m') \<and>
     (clean ents ks m \<longrightarrow> m' = m)"

lemma check_allowed_repairs:
  assumes "lpm_trie invar ents ops" "works ops" "invar (ws_allowed st)"
    "\<forall>k \<in> set (expectedAllowedKeys c p). masked_key4 k"
  shows "repaired invar ents (expectedAllowedKeys c p) (ws_allowed st)
    (ws_allowed (check_allowed ops l now c p st))"
proof -
  obtain es where es: "m_iterate ops (ws_allowed st) = Some es"
    using assms(2) unfolding works_def by blast
  note t = keyset_test [OF assms(1,3) es distinct_expected(1) [of c p]]
  show ?thesis
  proof (cases "clean ents (expectedAllowedKeys c p) (ws_allowed st)")
    case True
    then show ?thesis
      using t es assms(3) by (simp add: check_allowed_def Let_def repaired_def clean_def)
  next
    case False
    obtain mo a r e where m: "reconcileLPMMap ops (expectedAllowedKeys c p) (Some (ws_allowed st)) = (mo, a, r, e)"
      by (cases "reconcileLPMMap ops (expectedAllowedKeys c p) (Some (ws_allowed st))") auto
    from repair_subset [OF assms(1-3) distinct_expected(1) assms(4) m]
    obtain m' where m': "mo = Some m'" "e = None" "invar m'" "fst ` set (ents m') \<subseteq> set (expectedAllowedKeys c p)"
      "(\<forall>j \<in> fst ` set (ents (ws_allowed st)). masked_key4 j) \<longrightarrow> fst ` set (ents m') = set (expectedAllowedKeys c p)"
      by blast
    have "ws_allowed (check_allowed ops l now c p st) = m'"
      using False t es m m'(1,2) by (simp add: check_allowed_def Let_def rearmAllowedFromSnapshot_def)
    with m'(3-5) False show ?thesis
      unfolding repaired_def clean_def by blast
  qed
qed

lemma check_ignored_repairs:
  assumes "lpm_trie invar ents ops" "works ops" "invar (ws_ignored st)"
    "\<forall>k \<in> set (expectedIgnoredKeys p). masked_key4 k"
  shows "repaired invar ents (expectedIgnoredKeys p) (ws_ignored st)
    (ws_ignored (check_ignored ops l now p st))"
proof -
  obtain es where es: "m_iterate ops (ws_ignored st) = Some es"
    using assms(2) unfolding works_def by blast
  note t = keyset_test [OF assms(1,3) es distinct_expected(2) [of p]]
  show ?thesis
  proof (cases "clean ents (expectedIgnoredKeys p) (ws_ignored st)")
    case True
    then show ?thesis
      using t es assms(3) by (simp add: check_ignored_def Let_def repaired_def clean_def)
  next
    case False
    obtain mo a r e where m: "reconcileLPMMap ops (expectedIgnoredKeys p) (Some (ws_ignored st)) = (mo, a, r, e)"
      by (cases "reconcileLPMMap ops (expectedIgnoredKeys p) (Some (ws_ignored st))") auto
    from repair_subset [OF assms(1-3) distinct_expected(2) assms(4) m]
    obtain m' where m': "mo = Some m'" "e = None" "invar m'" "fst ` set (ents m') \<subseteq> set (expectedIgnoredKeys p)"
      "(\<forall>j \<in> fst ` set (ents (ws_ignored st)). masked_key4 j) \<longrightarrow> fst ` set (ents m') = set (expectedIgnoredKeys p)"
      by blast
    have "ws_ignored (check_ignored ops l now p st) = m'"
      using False t es m m'(1,2) by (simp add: check_ignored_def Let_def rearmIgnoredFromPolicy_def)
    with m'(3-5) False show ?thesis
      unfolding repaired_def clean_def by blast
  qed
qed

lemma update_then_find:
  assumes "bpf_map canon invar ents ops" "works ops" "invar m" "m_update ops m k v = Some m'"
  shows "invar m' \<and> m_find ops m' k = Found v"
proof -
  note u = bpf_map.update_ok [OF assms(1,3,4)]
  then have "m_find ops m' k \<noteq> NotFound"
    using bpf_map.find_missing [OF assms(1), of m' k] by auto
  moreover have "m_find ops m' k \<noteq> FindFailed"
    using assms(2) unfolding works_def by blast
  ultimately obtain w where w: "m_find ops m' k = Found w"
    by (cases "m_find ops m' k") auto
  from bpf_map.find_ok [OF assms(1) _ w] u show ?thesis
    using w by auto
qed

lemma check_cfg_repairs:
  assumes "bpf_map id cinv cents cops" "works cops" "cinv (ws_cfg st)"
  shows "cinv (ws_cfg (check_cfg cops l now st)) \<and> m_find cops (ws_cfg (check_cfg cops l now st)) 0 = Found 1"
proof -
  obtain c where c: "m_update cops (ws_cfg st) 0 1 = Some c"
    using assms(2) unfolding works_def by blast
  from update_then_find [OF assms c] c assms(3) show ?thesis
    by (auto simp: check_cfg_def Let_def split: find_result.splits)
qed

lemma check_cfg_quiet: "m_find cops (ws_cfg st) 0 = Found 1 \<Longrightarrow> check_cfg cops l now st = st"
  by (simp add: check_cfg_def)

lemma check_tries_quiet:
  assumes "lpm_trie invar ents ops" "works ops"
  shows "invar (ws_allowed st) \<Longrightarrow> clean ents (expectedAllowedKeys c p) (ws_allowed st) \<Longrightarrow>
      check_allowed ops l now c p st = st"
    "invar (ws_ignored st) \<Longrightarrow> clean ents (expectedIgnoredKeys p) (ws_ignored st) \<Longrightarrow>
      check_ignored ops l now p st = st"
proof -
  obtain es fs where es: "m_iterate ops (ws_allowed st) = Some es" "m_iterate ops (ws_ignored st) = Some fs"
    using assms(2) unfolding works_def by blast
  show "invar (ws_allowed st) \<Longrightarrow> clean ents (expectedAllowedKeys c p) (ws_allowed st) \<Longrightarrow>
      check_allowed ops l now c p st = st"
    using keyset_test [OF assms(1) _ es(1) distinct_expected(1) [of c p]] es
    by (simp add: check_allowed_def Let_def)
  show "invar (ws_ignored st) \<Longrightarrow> clean ents (expectedIgnoredKeys p) (ws_ignored st) \<Longrightarrow>
      check_ignored ops l now p st = st"
    using keyset_test [OF assms(1) _ es(2) distinct_expected(2) [of p]] es
    by (simp add: check_ignored_def Let_def)
qed

section \<open>Properties\<close>

text \<open>The hypotheses of the watch: the maps honour the eBPF contract and their operations succeed.\<close>

definition watched :: "('c \<Rightarrow> bool) \<Rightarrow> ('c \<Rightarrow> (32 word \<times> 32 word) list) \<Rightarrow> 'c cfg_ops \<Rightarrow> ('m \<Rightarrow> bool) \<Rightarrow>
    ('m \<Rightarrow> (bytes \<times> byte) list) \<Rightarrow> 'm lpm_ops \<Rightarrow> ('c, 'm) watch_state \<Rightarrow> bool" where
  "watched cinv cents cops invar ents ops st \<longleftrightarrow> bpf_map id cinv cents cops \<and> works cops \<and>
     lpm_trie invar ents ops \<and> works ops \<and> cinv (ws_cfg st) \<and> invar (ws_allowed st) \<and> invar (ws_ignored st)"

definition healthy :: "('m \<Rightarrow> (bytes \<times> byte) list) \<Rightarrow> 'c cfg_ops \<Rightarrow> CompileResult \<Rightarrow> policy \<Rightarrow> ('c, 'm) watch_state \<Rightarrow> bool" where
  "healthy ents cops compiled p st \<longleftrightarrow> m_find cops (ws_cfg st) 0 = Found 1 \<and>
     clean ents (expectedAllowedKeys compiled (Some p)) (ws_allowed st) \<and>
     clean ents (expectedIgnoredKeys (Some p)) (ws_ignored st)"

lemma tick_repairs:
  assumes "watched cinv cents cops invar ents ops st" "wf_policy p" "list_all wf_ignored (ignored p)"
    "wf_v4set (AllowedIPv4 compiled)"
    and st'_def: "st' = checkMapIntegrity cops ops l now compiled (Some p) st"
  shows "watched cinv cents cops invar ents ops st'" "m_find cops (ws_cfg st') 0 = Found 1"
    "repaired invar ents (expectedAllowedKeys compiled (Some p)) (ws_allowed st) (ws_allowed st')"
    "repaired invar ents (expectedIgnoredKeys (Some p)) (ws_ignored st) (ws_ignored st')"
proof -
  note w = assms(1) [unfolded watched_def]
  have c: "cinv (ws_cfg st')" "m_find cops (ws_cfg st') 0 = Found 1"
    using check_cfg_repairs [of cinv cents cops st l now] w by (simp_all add: st'_def checkMapIntegrity_def)
  have k: "\<forall>k \<in> set (expectedAllowedKeys compiled (Some p)). masked_key4 k"
    "\<forall>k \<in> set (expectedIgnoredKeys (Some p)). masked_key4 k"
    using expectedAllowed_masked [OF assms(2,4)] expectedIgnored_masked [OF assms(3)] by blast+
  show a: "repaired invar ents (expectedAllowedKeys compiled (Some p)) (ws_allowed st) (ws_allowed st')"
    using check_allowed_repairs [of invar ents ops "check_cfg cops l now st" compiled "Some p" l now] k(1) w
    by (simp add: st'_def checkMapIntegrity_def)
  show i: "repaired invar ents (expectedIgnoredKeys (Some p)) (ws_ignored st) (ws_ignored st')"
    using check_ignored_repairs [of invar ents ops
        "check_allowed ops l now compiled (Some p) (check_cfg cops l now st)" "Some p" l now] k(2) w
    by (simp add: st'_def checkMapIntegrity_def)
  show "m_find cops (ws_cfg st') 0 = Found 1"
    by (rule c)
  show "watched cinv cents cops invar ents ops st'"
    using w c(1) a i by (simp add: watched_def repaired_def)
qed

lemma healthy_quiet:
  assumes "watched cinv cents cops invar ents ops st" "healthy ents cops compiled p st"
  shows "checkMapIntegrity cops ops l now compiled (Some p) st = st"
  using assms check_tries_quiet [of invar ents ops st] check_cfg_quiet [of cops st]
  by (simp add: watched_def healthy_def checkMapIntegrity_def)



text \<open>A small watched state: enforcement switched off, a rogue key in the allow trie, the expected
  network missing.\<close>

definition watch_policy :: policy where
  "watch_policy = (case BuildPolicyEx (\<lambda>s. s) [] ''10.0.0.0/8'' [] False of Inr p \<Rightarrow> p | Inl _ \<Rightarrow> empty_policy)"

definition watch_compiled :: CompileResult where
  "watch_compiled = \<lparr>Domains = [], AllowedIPv4 = [[1, 1, 1, 1]], AllowedIPv6 = [], UnresolvedDomains = [],
     WildcardRiskDomains = [], CompileTimestamp = 0\<rparr>"

definition tampered :: "bytes list \<Rightarrow> ((32 word \<times> 32 word) list, (bytes \<times> byte) list) watch_state" where
  "tampered ks = \<lparr>ws_cfg = [(0, 0)], ws_allowed = map (\<lambda>k. (k, 1)) ks, ws_ignored = [],
     ws_failures = 0, ws_defend_failures = None,
     ws_backoff = [], ws_escalated = [], ws_seq = 0, ws_tamper = []\<rparr>"

lemma tampered_watched:
  "distinct (map lpm_canon ks) \<Longrightarrow>
   watched (list_invar id) (\<lambda>es. es) (list_map id) (list_invar lpm_canon) (\<lambda>es. es) (list_map lpm_canon) (tampered ks)"
  using trie_ref.lpm_trie_axioms
  by (simp add: watched_def list_map_contract works_list_map tampered_def list_invar_def comp_def)

lemma watch_policy_built: "BuildPolicyEx (\<lambda>s. s) [] ''10.0.0.0/8'' [] False = Inr watch_policy"
  by code_simp


definition alias_key :: bytes where
  "alias_key = le_bytes 4 8 @ [10, 9, 9, 9]"


text \<open>A stored key that is not expected but denotes the same prefix as an expected one (10.9.9.9/8
  beside 10.0.0.0/8) makes the repair lose the expected entry: reconciliation writes it and then
  deletes the alias, which in a prefix trie is the same entry.\<close>

theorem alias_loses_expected:
  assumes "bpf_map canon invar ents ops" "invar m"
    "reconcileLPMMap ops expected (Some m) = (Some m', added, removed, None)" "distinct (map canon expected)"
    "k \<in> set expected" "j \<in> fst ` set (ents m)" "j \<notin> set expected" "canon j = canon k"
  shows "k \<notin> fst ` set (ents m')"
proof -
  have "lpm_store canon invar ents ops"
    using assms(1) by (simp add: lpm_store_def)
  from lpm_store.reconcile_entries [OF this assms(2-4)]
  have "set (ents m') = {(k, 1) |k. k \<in> set expected \<and> canon k \<notin> canon ` (fst ` set (ents m) - set expected)}"
    by blast
  moreover have "canon k \<in> canon ` (fst ` set (ents m) - set expected)"
    using assms(6-8) by (metis DiffI imageI)
  ultimately show ?thesis
    by force
qed

theorem alias_loses_expected_witness:
  "\<exists>m' a r. reconcileLPMMap (list_map lpm_canon) [le_bytes 4 8 @ [10, 0, 0, 0]] (Some [(alias_key, 1)]) =
       (Some m', a, r, None) \<and> le_bytes 4 8 @ [10, 0, 0, 0] \<notin> fst ` set m'"
proof -
  let ?k = "le_bytes 4 8 @ [10, 0, 0, 0] :: bytes"
  have r: "reconcileLPMMap (list_map lpm_canon) [?k] (Some [(alias_key, 1)]) = (Some [], 1, 1, None)"
    by code_simp
  have c: "lpm_canon alias_key = lpm_canon ?k" "alias_key \<noteq> ?k"
    by code_simp+
  have "?k \<notin> fst ` set ([] :: (bytes \<times> byte) list)"
    by (rule alias_loses_expected [OF list_map_contract _ r _ _ _ _ c(1)])
      (use c(2) in \<open>simp_all add: list_invar_def\<close>)
  with r show ?thesis
    by blast
qed

end
