(* ===== verification/RunStats.thy ===== *)
theory RunStats
  imports Policy "HOL-Library.List_Lexorder" "HOL-Library.Char_ord"
begin

text \<open>
  The counters of a run (\<^verbatim>\<open>internal/agent/agent_linux_state.go\<close>) and the summary written at shutdown
  (\<^verbatim>\<open>internal/telemetry/telemetry.go\<close>). Every method of \<^verbatim>\<open>runStats\<close> takes its mutex for its whole body and is
  one function on the record; fields of type \<^verbatim>\<open>int\<close> are integers, the 32 and 64 bit counters are words. A nil map
  and an empty map answer alike and are both the empty list.
\<close>

section \<open>Counting maps\<close>

type_synonym counts = "(string \<times> int) list"

definition count_of :: "string \<Rightarrow> counts \<Rightarrow> int" where
  "count_of k m = (case map_of m k of None \<Rightarrow> 0 | Some n \<Rightarrow> n)"

definition bump :: "string \<Rightarrow> counts \<Rightarrow> counts" where
  "bump k m = AList.update k (count_of k m + 1) m"

definition total :: "counts \<Rightarrow> int" where
  "total m = sum_list (map snd m)"

lemma count_of_bump [simp]: "count_of k (bump j m) = (if k = j then count_of k m + 1 else count_of k m)"
  by (simp add: count_of_def bump_def update_conv')

lemma total_update: "total (AList.update k v m) = total m + v - count_of k m"
  by (induction m) (auto simp: total_def count_of_def)

lemma total_bump [simp]: "total (bump k m) = total m + 1"
  by (simp add: bump_def total_update)

lemma wf_map_bump [simp]: "wf_map m \<Longrightarrow> wf_map (bump k m)"
  by (simp add: bump_def distinct_update)

section \<open>The counters\<close>

record runStats =
  execN :: "int"
  tcpN :: "int"
  udpN :: "int"
  httpN :: "int"
  tlsN :: "int"
  tlsConfidenceFullN :: "int"
  tlsConfidencePartialN :: "int"
  tlsConfidenceInferredN :: "int"
  tlsConfidenceUnknownN :: "int"
  tlsConfidenceUnknownKTLSN :: "int"
  procForkN :: "int"
  fsN :: "int"
  ktlsN :: "int"
  ktlsRingbufReserveFailuresN :: "int"
  connect4TupleUpdateFailuresN :: "int"
  udpRingbufReserveFailuresN :: "int"
  dnsRingbufReserveFailuresN :: "int"
  connectRingbufReserveFailuresN :: "int"
  httpRingbufReserveFailuresN :: "int"
  tlsRingbufReserveFailuresN :: "int"
  execRingbufReserveFailuresN :: "int"
  forkRingbufReserveFailuresN :: "int"
  fsRingbufReserveFailuresN :: "int"
  udpSendmsgMultiIovecObservedN :: "int"
  sendmmsgMultiMessageN :: "int"
  sendmmsgUnobservedExtraN :: "int"
  tlsWritevMultiIovecObservedN :: "int"
  sendfileObservedN :: "int"
  spliceObservedN :: "int"
  sendmmsgFirstOnlyN :: "int"
  ipv6ConnectObservedN :: "32 word"
  ipv6SendmsgObservedN :: "32 word"
  ipv6EventCountN :: "int"
  ipv6RingbufReserveFailuresN :: "int"
  sendpageObservedN :: "32 word"
  ioUringSetupObservedN :: "int"
  ioUringSendN :: "int"
  ioUringTLSHelloN :: "int"
  ioUringRingbufReserveFailuresN :: "int"
  ioUringTLSRingbufReserveFailuresN :: "int"
  egressBackstopN :: "int"
  egressBackstopReserveFailuresN :: "int"
  egressBackstopDsts :: "string list"
  bpfSelfDefenseN :: "int"
  bpfSelfDefenseReserveFailuresN :: "int"
  ioUringTLSSNISet :: "string list"
  tcpDNSResponsesObservedN :: "int"
  tcpDNSSkippedShortReadN :: "int"
  quicCandidateN :: "int"
  quicObservedN :: "64 word"
  bpfAuditN :: "int"
  bpfMapIntegrityFailuresN :: "int"
  bpfDNSCacheUpdateFailuresN :: "int"
  bpfAuditRingbufReserveFailuresN :: "int"
  bpfHeartbeatFailures :: "int"
  tcpStateN :: "int"
  tcpStateConfirmed :: "int"
  tcpStateRefused :: "int"
  tcpStateRingbufReserveFailuresN :: "int"
  policyCounts :: "(string \<times> int) list"
  droppedCounts :: "(string \<times> int) list"
  tcpResultCounts :: "(string \<times> int) list"
  allowlistCompileTime :: "int"
  allowlistIPCount :: "int"
  allowlistDomains :: "string list"
  allowlistUnresolvedDomains :: "string list"
  allowlistWildcardRiskDomains :: "string list"
  dnsDriftN :: "int"
  dstDomainCounts :: "(string \<times> int) list"
  runnerEnv :: "string"

definition newRunStats :: runStats where
  "newRunStats = \<lparr>execN = 0, tcpN = 0, udpN = 0, httpN = 0, tlsN = 0, tlsConfidenceFullN = 0,
    tlsConfidencePartialN = 0, tlsConfidenceInferredN = 0, tlsConfidenceUnknownN = 0, tlsConfidenceUnknownKTLSN
    = 0, procForkN = 0, fsN = 0, ktlsN = 0, ktlsRingbufReserveFailuresN = 0, connect4TupleUpdateFailuresN = 0,
    udpRingbufReserveFailuresN = 0, dnsRingbufReserveFailuresN = 0, connectRingbufReserveFailuresN = 0,
    httpRingbufReserveFailuresN = 0, tlsRingbufReserveFailuresN = 0, execRingbufReserveFailuresN = 0,
    forkRingbufReserveFailuresN = 0, fsRingbufReserveFailuresN = 0, udpSendmsgMultiIovecObservedN = 0,
    sendmmsgMultiMessageN = 0, sendmmsgUnobservedExtraN = 0, tlsWritevMultiIovecObservedN = 0,
    sendfileObservedN = 0, spliceObservedN = 0, sendmmsgFirstOnlyN = 0, ipv6ConnectObservedN = 0,
    ipv6SendmsgObservedN = 0, ipv6EventCountN = 0, ipv6RingbufReserveFailuresN = 0, sendpageObservedN = 0,
    ioUringSetupObservedN = 0, ioUringSendN = 0, ioUringTLSHelloN = 0, ioUringRingbufReserveFailuresN = 0,
    ioUringTLSRingbufReserveFailuresN = 0, egressBackstopN = 0, egressBackstopReserveFailuresN = 0,
    egressBackstopDsts = [], bpfSelfDefenseN = 0, bpfSelfDefenseReserveFailuresN = 0, ioUringTLSSNISet = [],
    tcpDNSResponsesObservedN = 0, tcpDNSSkippedShortReadN = 0, quicCandidateN = 0, quicObservedN = 0, bpfAuditN
    = 0, bpfMapIntegrityFailuresN = 0, bpfDNSCacheUpdateFailuresN = 0, bpfAuditRingbufReserveFailuresN = 0,
    bpfHeartbeatFailures = 0, tcpStateN = 0, tcpStateConfirmed = 0, tcpStateRefused = 0,
    tcpStateRingbufReserveFailuresN = 0, policyCounts = [], droppedCounts = [], tcpResultCounts = [],
    allowlistCompileTime = 0, allowlistIPCount = 0, allowlistDomains = [], allowlistUnresolvedDomains = [],
    allowlistWildcardRiskDomains = [], dnsDriftN = 0, dstDomainCounts = [], runnerEnv = []\<rparr>"

text \<open>\<^verbatim>\<open>telemetry.TLSConfidence\<close>; the four constants are the only values the agent passes on.\<close>

datatype TLSConfidence = TLSConfidenceFull | TLSConfidencePartial | TLSConfidenceInferred | TLSConfidenceUnknown

definition TLSSNIMaxLen :: nat where "TLSSNIMaxLen = 255"

definition ScoreTLSConfidence :: "string \<Rightarrow> TLSConfidence" where
  "ScoreTLSConfidence sni = (if sni = [] then TLSConfidenceUnknown
     else if TLSSNIMaxLen \<le> length sni then TLSConfidencePartial else TLSConfidenceFull)"

text \<open>The string a class is declared as.\<close>

fun class_string :: "Class \<Rightarrow> string" where
  "class_string ClassMonitor = ''monitor''"
| "class_string ClassAllowed = ''allowed''"
| "class_string ClassNotListed = ''not_listed''"
| "class_string ClassUnknown = ''unknown''"
| "class_string ClassIgnored = ''ignored''"

definition addDropped :: "string \<Rightarrow> runStats \<Rightarrow> runStats" where
  "addDropped kind s = (if TrimSpace kind = [] then s else s\<lparr>droppedCounts := bump kind (droppedCounts s)\<rparr>)"

definition addExec :: "runStats \<Rightarrow> runStats" where
  "addExec s = s\<lparr>execN := execN s + 1\<rparr>"

definition addProcFork :: "runStats \<Rightarrow> runStats" where
  "addProcFork s = s\<lparr>procForkN := procForkN s + 1\<rparr>"

definition addFS :: "runStats \<Rightarrow> runStats" where
  "addFS s = s\<lparr>fsN := fsN s + 1\<rparr>"

definition setRunnerEnv :: "string \<Rightarrow> runStats \<Rightarrow> runStats" where
  "setRunnerEnv env s = s\<lparr>runnerEnv := env\<rparr>"

definition addKTLS :: "runStats \<Rightarrow> runStats" where
  "addKTLS s = s\<lparr>ktlsN := ktlsN s + 1\<rparr>"

definition setKTLSRingbufReserveFailures :: "int \<Rightarrow> runStats \<Rightarrow> runStats" where
  "setKTLSRingbufReserveFailures n s = s\<lparr>ktlsRingbufReserveFailuresN := n\<rparr>"

definition ktlsRingbufReserveFailures :: "runStats \<Rightarrow> int" where
  "ktlsRingbufReserveFailures s = ktlsRingbufReserveFailuresN s"

definition addPolicyLocked :: "Class \<Rightarrow> runStats \<Rightarrow> runStats" where
  "addPolicyLocked cl s = s\<lparr>policyCounts := bump (class_string cl) (policyCounts s)\<rparr>"

definition addTCP :: "Class \<Rightarrow> runStats \<Rightarrow> runStats" where
  "addTCP cl s = addPolicyLocked cl (s\<lparr>tcpN := tcpN s + 1\<rparr>)"

definition addTCPResult :: "string \<Rightarrow> runStats \<Rightarrow> runStats" where
  "addTCPResult bucket s = (if TrimSpace bucket = [] then s else s\<lparr>tcpResultCounts := bump bucket (tcpResultCounts s)\<rparr>)"

definition addUDP :: "Class \<Rightarrow> runStats \<Rightarrow> runStats" where
  "addUDP cl s = addPolicyLocked cl (s\<lparr>udpN := udpN s + 1\<rparr>)"

definition addHTTP :: "Class \<Rightarrow> runStats \<Rightarrow> runStats" where
  "addHTTP cl s = addPolicyLocked cl (s\<lparr>httpN := httpN s + 1\<rparr>)"

definition addTLS :: "Class \<Rightarrow> TLSConfidence \<Rightarrow> bool \<Rightarrow> runStats \<Rightarrow> runStats" where
  "addTLS cl conf ktlsOverride s0 = (let s = s0\<lparr>tlsN := tlsN s0 + 1\<rparr> in addPolicyLocked cl
     (case conf of
        TLSConfidenceFull \<Rightarrow> s\<lparr>tlsConfidenceFullN := tlsConfidenceFullN s + 1\<rparr>
      | TLSConfidencePartial \<Rightarrow> s\<lparr>tlsConfidencePartialN := tlsConfidencePartialN s + 1\<rparr>
      | TLSConfidenceInferred \<Rightarrow> s\<lparr>tlsConfidenceInferredN := tlsConfidenceInferredN s + 1\<rparr>
      | TLSConfidenceUnknown \<Rightarrow>
          let s = s\<lparr>tlsConfidenceUnknownN := tlsConfidenceUnknownN s + 1\<rparr> in
          if ktlsOverride then s\<lparr>tlsConfidenceUnknownKTLSN := tlsConfidenceUnknownKTLSN s + 1\<rparr> else s))"

definition setConnect4TupleUpdateFailures :: "int \<Rightarrow> runStats \<Rightarrow> runStats" where
  "setConnect4TupleUpdateFailures n s = s\<lparr>connect4TupleUpdateFailuresN := n\<rparr>"

definition setUDPRingbufReserveFailures :: "int \<Rightarrow> runStats \<Rightarrow> runStats" where
  "setUDPRingbufReserveFailures n s = s\<lparr>udpRingbufReserveFailuresN := n\<rparr>"

definition udpRingbufReserveFailures :: "runStats \<Rightarrow> int" where
  "udpRingbufReserveFailures s = udpRingbufReserveFailuresN s"

definition setDNSRingbufReserveFailures :: "int \<Rightarrow> runStats \<Rightarrow> runStats" where
  "setDNSRingbufReserveFailures n s = s\<lparr>dnsRingbufReserveFailuresN := n\<rparr>"

definition dnsRingbufReserveFailures :: "runStats \<Rightarrow> int" where
  "dnsRingbufReserveFailures s = dnsRingbufReserveFailuresN s"

definition setConnectRingbufReserveFailures :: "int \<Rightarrow> runStats \<Rightarrow> runStats" where
  "setConnectRingbufReserveFailures n s = s\<lparr>connectRingbufReserveFailuresN := n\<rparr>"

definition setHTTPRingbufReserveFailures :: "int \<Rightarrow> runStats \<Rightarrow> runStats" where
  "setHTTPRingbufReserveFailures n s = s\<lparr>httpRingbufReserveFailuresN := n\<rparr>"

definition setTLSRingbufReserveFailures :: "int \<Rightarrow> runStats \<Rightarrow> runStats" where
  "setTLSRingbufReserveFailures n s = s\<lparr>tlsRingbufReserveFailuresN := n\<rparr>"

definition setExecRingbufReserveFailures :: "int \<Rightarrow> runStats \<Rightarrow> runStats" where
  "setExecRingbufReserveFailures n s = s\<lparr>execRingbufReserveFailuresN := n\<rparr>"

definition setForkRingbufReserveFailures :: "int \<Rightarrow> runStats \<Rightarrow> runStats" where
  "setForkRingbufReserveFailures n s = s\<lparr>forkRingbufReserveFailuresN := n\<rparr>"

definition setFSRingbufReserveFailures :: "int \<Rightarrow> runStats \<Rightarrow> runStats" where
  "setFSRingbufReserveFailures n s = s\<lparr>fsRingbufReserveFailuresN := n\<rparr>"

definition connectRingbufReserveFailures :: "runStats \<Rightarrow> int" where
  "connectRingbufReserveFailures s = connectRingbufReserveFailuresN s"

definition httpRingbufReserveFailures :: "runStats \<Rightarrow> int" where
  "httpRingbufReserveFailures s = httpRingbufReserveFailuresN s"

definition tlsRingbufReserveFailures :: "runStats \<Rightarrow> int" where
  "tlsRingbufReserveFailures s = tlsRingbufReserveFailuresN s"

definition execRingbufReserveFailures :: "runStats \<Rightarrow> int" where
  "execRingbufReserveFailures s = execRingbufReserveFailuresN s"

definition forkRingbufReserveFailures :: "runStats \<Rightarrow> int" where
  "forkRingbufReserveFailures s = forkRingbufReserveFailuresN s"

definition fsRingbufReserveFailures :: "runStats \<Rightarrow> int" where
  "fsRingbufReserveFailures s = fsRingbufReserveFailuresN s"

definition setUDPSendmsgMultiIovecObserved :: "int \<Rightarrow> runStats \<Rightarrow> runStats" where
  "setUDPSendmsgMultiIovecObserved n s = s\<lparr>udpSendmsgMultiIovecObservedN := n\<rparr>"

definition setSendmmsgMultiMessage :: "int \<Rightarrow> runStats \<Rightarrow> runStats" where
  "setSendmmsgMultiMessage n s = s\<lparr>sendmmsgMultiMessageN := n\<rparr>"

definition setSendmmsgUnobservedExtra :: "int \<Rightarrow> runStats \<Rightarrow> runStats" where
  "setSendmmsgUnobservedExtra n s = s\<lparr>sendmmsgUnobservedExtraN := n\<rparr>"

definition setTLSWritevMultiIovecObserved :: "int \<Rightarrow> runStats \<Rightarrow> runStats" where
  "setTLSWritevMultiIovecObserved n s = s\<lparr>tlsWritevMultiIovecObservedN := n\<rparr>"

definition setPartialEgressObserved :: "int \<Rightarrow> int \<Rightarrow> int \<Rightarrow> runStats \<Rightarrow> runStats" where
  "setPartialEgressObserved sendfile spliced sendmmsg s =
     s\<lparr>sendfileObservedN := sendfile, spliceObservedN := spliced, sendmmsgFirstOnlyN := sendmmsg\<rparr>"

definition setIPv6ConnectObserved :: "32 word \<Rightarrow> runStats \<Rightarrow> runStats" where
  "setIPv6ConnectObserved n s = s\<lparr>ipv6ConnectObservedN := n\<rparr>"

definition setIPv6SendmsgObserved :: "32 word \<Rightarrow> runStats \<Rightarrow> runStats" where
  "setIPv6SendmsgObserved n s = s\<lparr>ipv6SendmsgObservedN := n\<rparr>"

definition addIPv6Event :: "runStats \<Rightarrow> runStats" where
  "addIPv6Event s = s\<lparr>ipv6EventCountN := ipv6EventCountN s + 1\<rparr>"

definition setIPv6RingbufReserveFailures :: "int \<Rightarrow> runStats \<Rightarrow> runStats" where
  "setIPv6RingbufReserveFailures n s = s\<lparr>ipv6RingbufReserveFailuresN := n\<rparr>"

definition setSendpageObserved :: "32 word \<Rightarrow> runStats \<Rightarrow> runStats" where
  "setSendpageObserved n s = s\<lparr>sendpageObservedN := n\<rparr>"

definition setIoUringSetupObserved :: "int \<Rightarrow> runStats \<Rightarrow> runStats" where
  "setIoUringSetupObserved n s = s\<lparr>ioUringSetupObservedN := n\<rparr>"

definition addIoUringSend :: "runStats \<Rightarrow> runStats" where
  "addIoUringSend s = s\<lparr>ioUringSendN := ioUringSendN s + 1\<rparr>"

definition addIoUringTLSSNI :: "string \<Rightarrow> runStats \<Rightarrow> runStats" where
  "addIoUringTLSSNI sni s = (if sni = [] then s else s\<lparr>ioUringTLSSNISet := sadd sni (ioUringTLSSNISet s)\<rparr>)"

definition setIoUringTLSHelloObserved :: "int \<Rightarrow> runStats \<Rightarrow> runStats" where
  "setIoUringTLSHelloObserved n s = s\<lparr>ioUringTLSHelloN := n\<rparr>"

definition setIoUringRingbufReserveFailures :: "int \<Rightarrow> runStats \<Rightarrow> runStats" where
  "setIoUringRingbufReserveFailures n s = s\<lparr>ioUringRingbufReserveFailuresN := n\<rparr>"

definition ioUringRingbufReserveFailures :: "runStats \<Rightarrow> int" where
  "ioUringRingbufReserveFailures s = ioUringRingbufReserveFailuresN s"

definition addEgressBackstop :: "string \<Rightarrow> runStats \<Rightarrow> runStats" where
  "addEgressBackstop dst s0 = (let s = s0\<lparr>egressBackstopN := egressBackstopN s0 + 1\<rparr> in
     if dst = [] then s else s\<lparr>egressBackstopDsts := sadd dst (egressBackstopDsts s)\<rparr>)"

definition egressBackstopCount :: "runStats \<Rightarrow> int" where
  "egressBackstopCount s = egressBackstopN s"

definition egressBackstopDstList :: "runStats \<Rightarrow> string list" where
  "egressBackstopDstList s = sort (egressBackstopDsts s)"

definition setEgressBackstopReserveFailures :: "int \<Rightarrow> runStats \<Rightarrow> runStats" where
  "setEgressBackstopReserveFailures n s = s\<lparr>egressBackstopReserveFailuresN := n\<rparr>"

definition egressBackstopReserveFailures :: "runStats \<Rightarrow> int" where
  "egressBackstopReserveFailures s = egressBackstopReserveFailuresN s"

definition addBpfSelfDefense :: "runStats \<Rightarrow> runStats" where
  "addBpfSelfDefense s = s\<lparr>bpfSelfDefenseN := bpfSelfDefenseN s + 1\<rparr>"

definition bpfSelfDefenseCount :: "runStats \<Rightarrow> int" where
  "bpfSelfDefenseCount s = bpfSelfDefenseN s"

definition setBpfSelfDefenseReserveFailures :: "int \<Rightarrow> runStats \<Rightarrow> runStats" where
  "setBpfSelfDefenseReserveFailures n s = s\<lparr>bpfSelfDefenseReserveFailuresN := n\<rparr>"

definition bpfSelfDefenseReserveFailures :: "runStats \<Rightarrow> int" where
  "bpfSelfDefenseReserveFailures s = bpfSelfDefenseReserveFailuresN s"

definition setIoUringTLSRingbufReserveFailures :: "int \<Rightarrow> runStats \<Rightarrow> runStats" where
  "setIoUringTLSRingbufReserveFailures n s = s\<lparr>ioUringTLSRingbufReserveFailuresN := n\<rparr>"

definition ioUringTLSRingbufReserveFailures :: "runStats \<Rightarrow> int" where
  "ioUringTLSRingbufReserveFailures s = ioUringTLSRingbufReserveFailuresN s"

definition setTCPDNSResponsesObserved :: "int \<Rightarrow> runStats \<Rightarrow> runStats" where
  "setTCPDNSResponsesObserved n s = s\<lparr>tcpDNSResponsesObservedN := n\<rparr>"

definition setTCPDNSSkippedShortRead :: "int \<Rightarrow> runStats \<Rightarrow> runStats" where
  "setTCPDNSSkippedShortRead n s = s\<lparr>tcpDNSSkippedShortReadN := n\<rparr>"

definition addQUICCandidate :: "runStats \<Rightarrow> runStats" where
  "addQUICCandidate s = s\<lparr>quicCandidateN := quicCandidateN s + 1\<rparr>"

definition addQUICObserved :: "runStats \<Rightarrow> runStats" where
  "addQUICObserved s = s\<lparr>quicObservedN := quicObservedN s + 1\<rparr>"

definition quicObservedTotal :: "runStats \<Rightarrow> 64 word" where
  "quicObservedTotal s = quicObservedN s"

definition addBPFHeartbeatFailure :: "runStats \<Rightarrow> runStats" where
  "addBPFHeartbeatFailure s = s\<lparr>bpfHeartbeatFailures := bpfHeartbeatFailures s + 1\<rparr>"

definition addBPFAudit :: "runStats \<Rightarrow> runStats" where
  "addBPFAudit s = s\<lparr>bpfAuditN := bpfAuditN s + 1\<rparr>"

definition addTCPState :: "bool \<Rightarrow> bool \<Rightarrow> runStats \<Rightarrow> runStats" where
  "addTCPState confirmed refused s0 = (let s1 = s0\<lparr>tcpStateN := tcpStateN s0 + 1\<rparr>;
       s2 = (if confirmed then s1\<lparr>tcpStateConfirmed := tcpStateConfirmed s1 + 1\<rparr> else s1) in
     if refused then s2\<lparr>tcpStateRefused := tcpStateRefused s2 + 1\<rparr> else s2)"

definition setTCPStateRingbufReserveFailures :: "int \<Rightarrow> runStats \<Rightarrow> runStats" where
  "setTCPStateRingbufReserveFailures n s = s\<lparr>tcpStateRingbufReserveFailuresN := n\<rparr>"

definition tcpStateRingbufReserveFailures :: "runStats \<Rightarrow> int" where
  "tcpStateRingbufReserveFailures s = tcpStateRingbufReserveFailuresN s"

definition setBPFAuditRingbufReserveFailures :: "int \<Rightarrow> runStats \<Rightarrow> runStats" where
  "setBPFAuditRingbufReserveFailures n s = s\<lparr>bpfAuditRingbufReserveFailuresN := n\<rparr>"

definition addBPFMapIntegrityFailure :: "runStats \<Rightarrow> runStats" where
  "addBPFMapIntegrityFailure s = s\<lparr>bpfMapIntegrityFailuresN := bpfMapIntegrityFailuresN s + 1\<rparr>"

definition addDNSCacheUpdateFailure :: "runStats \<Rightarrow> runStats" where
  "addDNSCacheUpdateFailure s = s\<lparr>bpfDNSCacheUpdateFailuresN := bpfDNSCacheUpdateFailuresN s + 1\<rparr>"

definition bpfAuditRingbufReserveFailures :: "runStats \<Rightarrow> int" where
  "bpfAuditRingbufReserveFailures s = bpfAuditRingbufReserveFailuresN s"

definition setAllowlistCompileSnapshot ::
    "int \<Rightarrow> int \<Rightarrow> string list \<Rightarrow> string list \<Rightarrow> string list \<Rightarrow> runStats \<Rightarrow> runStats" where
  "setAllowlistCompileSnapshot t ipCount domains unresolved wildcardRisk s =
     s\<lparr>allowlistCompileTime := t, allowlistIPCount := ipCount, allowlistDomains := domains,
       allowlistUnresolvedDomains := unresolved, allowlistWildcardRiskDomains := wildcardRisk\<rparr>"

definition addDNSDrift :: "runStats \<Rightarrow> runStats" where
  "addDNSDrift s = s\<lparr>dnsDriftN := dnsDriftN s + 1\<rparr>"

definition incDomainCount :: "string \<Rightarrow> runStats \<Rightarrow> runStats" where
  "incDomainCount domain s = (if domain = [] then s else s\<lparr>dstDomainCounts := bump domain (dstDomainCounts s)\<rparr>)"

section \<open>The summary\<close>

record BPFStatus =
  bs_Name :: string
  bs_OK :: bool
  bs_Detail :: string
  bs_BTFAvailable :: bool

record CompatWarning =
  cw_Code :: string
  cw_Detail :: string

definition SumRingbufReserveFailuresDetectPath ::
    "int \<Rightarrow> int \<Rightarrow> int \<Rightarrow> int \<Rightarrow> int \<Rightarrow> int \<Rightarrow> int \<Rightarrow> int \<Rightarrow> int \<Rightarrow> int" where
  "SumRingbufReserveFailuresDetectPath udp dns connect http tlsRingbuf execRingbuf forkRingbuf fsRingbuf bpfAuditRingbuf =
     udp + dns + connect + http + tlsRingbuf + execRingbuf + forkRingbuf + fsRingbuf + bpfAuditRingbuf"

record Summary =
  S_Version :: "int"
  S_SchemaVersion :: "int"
  S_Finished :: "string"
  S_KernelRelease :: "string"
  S_ExecEvents :: "int"
  S_TCPEvents :: "int"
  S_UDPEvents :: "int"
  S_HTTPEvents :: "int"
  S_TLSEvents :: "int"
  S_KTLSOffloadEvents :: "int"
  S_KTLSRingbufReserveFailures :: "int"
  S_TLSConfidenceFull :: "int"
  S_TLSConfidencePartial :: "int"
  S_TLSConfidenceInferred :: "int"
  S_TLSConfidenceUnknown :: "int"
  S_ProcForkEvents :: "int"
  S_Connect4TupleUpdateFailures :: "int"
  S_UDPRingbufReserveFailures :: "int"
  S_DNSRingbufReserveFailures :: "int"
  S_ConnectRingbufReserveFailures :: "int"
  S_HTTPRingbufReserveFailures :: "int"
  S_TLSRingbufReserveFailures :: "int"
  S_ExecRingbufReserveFailures :: "int"
  S_ForkRingbufReserveFailures :: "int"
  S_FSRingbufReserveFailures :: "int"
  S_UDPSendmsgMultiIovecObserved :: "int"
  S_SendmmsgMultiMessage :: "int"
  S_SendmmsgUnobservedExtra :: "int"
  S_TLSWritevMultiIovecObserved :: "int"
  S_SendfileObserved :: "int"
  S_SpliceObserved :: "int"
  S_SendmmsgFirstOnly :: "int"
  S_IPv6ConnectObserved :: "32 word"
  S_IPv6SendmsgObserved :: "32 word"
  S_IPv6Events :: "int"
  S_IPv6RingbufReserveFailures :: "int"
  S_SendpageObserved :: "32 word"
  S_IoUringSetupObserved :: "int"
  S_IoUringSendTotal :: "int"
  S_IoUringRingbufReserveFailures :: "int"
  S_IoUringTLSRingbufReserveFailures :: "int"
  S_IoUringTLSHelloObserved :: "int"
  S_TCPDNSResponsesObserved :: "int"
  S_TCPDNSSkippedShortRead :: "int"
  S_TCPStateTotal :: "int"
  S_TCPStateConfirmed :: "int"
  S_TCPStateRefused :: "int"
  S_TCPStateRingbufReserveFailures :: "int"
  S_QuicObserved :: "64 word"
  S_DNSDriftObservations :: "int"
  S_BPFAuditEvents :: "int"
  S_BPFHeartbeatFailures :: "int"
  S_BPFMapIntegrityFailures :: "int"
  S_BPFDNSCacheUpdateFailures :: "int"
  S_BPFAuditRingbufReserveFailures :: "int"
  S_RingbufReserveFailuresTotal :: "int"
  S_DroppedCounts :: "counts"
  S_PolicyCounts :: "counts"
  S_BPF :: "BPFStatus list"
  S_CompatWarnings :: "CompatWarning list"
  S_Signature :: "string"
  S_PublicKey :: "string"

definition snapshotSummary :: "string \<Rightarrow> BPFStatus list \<Rightarrow> runStats \<Rightarrow>
    Summary" where
  "snapshotSummary kernelRelease bpf s = (let rbTotal = SumRingbufReserveFailuresDetectPath
    (udpRingbufReserveFailuresN s) (dnsRingbufReserveFailuresN s) (connectRingbufReserveFailuresN s)
    (httpRingbufReserveFailuresN s) (tlsRingbufReserveFailuresN s) (execRingbufReserveFailuresN s)
    (forkRingbufReserveFailuresN s) (fsRingbufReserveFailuresN s) (bpfAuditRingbufReserveFailuresN s) in
    \<lparr>S_Version = 2, S_SchemaVersion = 2, S_Finished = [], S_KernelRelease = kernelRelease, S_ExecEvents
    = execN s, S_TCPEvents = tcpN s, S_UDPEvents = udpN s, S_HTTPEvents = httpN s, S_TLSEvents = tlsN s,
    S_KTLSOffloadEvents = ktlsN s, S_KTLSRingbufReserveFailures = ktlsRingbufReserveFailuresN s,
    S_TLSConfidenceFull = tlsConfidenceFullN s, S_TLSConfidencePartial = tlsConfidencePartialN s,
    S_TLSConfidenceInferred = tlsConfidenceInferredN s, S_TLSConfidenceUnknown = tlsConfidenceUnknownN s,
    S_ProcForkEvents = procForkN s, S_Connect4TupleUpdateFailures = connect4TupleUpdateFailuresN s,
    S_UDPRingbufReserveFailures = udpRingbufReserveFailuresN s, S_DNSRingbufReserveFailures =
    dnsRingbufReserveFailuresN s, S_ConnectRingbufReserveFailures = connectRingbufReserveFailuresN s,
    S_HTTPRingbufReserveFailures = httpRingbufReserveFailuresN s, S_TLSRingbufReserveFailures =
    tlsRingbufReserveFailuresN s, S_ExecRingbufReserveFailures = execRingbufReserveFailuresN s,
    S_ForkRingbufReserveFailures = forkRingbufReserveFailuresN s, S_FSRingbufReserveFailures =
    fsRingbufReserveFailuresN s, S_UDPSendmsgMultiIovecObserved = udpSendmsgMultiIovecObservedN s,
    S_SendmmsgMultiMessage = sendmmsgMultiMessageN s, S_SendmmsgUnobservedExtra = sendmmsgUnobservedExtraN s,
    S_TLSWritevMultiIovecObserved = tlsWritevMultiIovecObservedN s, S_SendfileObserved = sendfileObservedN s,
    S_SpliceObserved = spliceObservedN s, S_SendmmsgFirstOnly = sendmmsgFirstOnlyN s, S_IPv6ConnectObserved =
    ipv6ConnectObservedN s, S_IPv6SendmsgObserved = ipv6SendmsgObservedN s, S_IPv6Events = ipv6EventCountN s,
    S_IPv6RingbufReserveFailures = ipv6RingbufReserveFailuresN s, S_SendpageObserved = sendpageObservedN s,
    S_IoUringSetupObserved = ioUringSetupObservedN s, S_IoUringSendTotal = ioUringSendN s,
    S_IoUringRingbufReserveFailures = ioUringRingbufReserveFailuresN s, S_IoUringTLSRingbufReserveFailures =
    ioUringTLSRingbufReserveFailuresN s, S_IoUringTLSHelloObserved = ioUringTLSHelloN s,
    S_TCPDNSResponsesObserved = tcpDNSResponsesObservedN s, S_TCPDNSSkippedShortRead = tcpDNSSkippedShortReadN
    s, S_TCPStateTotal = tcpStateN s, S_TCPStateConfirmed = tcpStateConfirmed s, S_TCPStateRefused =
    tcpStateRefused s, S_TCPStateRingbufReserveFailures = tcpStateRingbufReserveFailuresN s, S_QuicObserved =
    quicObservedN s, S_DNSDriftObservations = dnsDriftN s, S_BPFAuditEvents = bpfAuditN s,
    S_BPFHeartbeatFailures = bpfHeartbeatFailures s, S_BPFMapIntegrityFailures = bpfMapIntegrityFailuresN s,
    S_BPFDNSCacheUpdateFailures = bpfDNSCacheUpdateFailuresN s, S_BPFAuditRingbufReserveFailures =
    bpfAuditRingbufReserveFailuresN s, S_RingbufReserveFailuresTotal = rbTotal, S_DroppedCounts = droppedCounts
    s, S_PolicyCounts = policyCounts s, S_BPF = bpf, S_CompatWarnings = [], S_Signature = [], S_PublicKey =
    []\<rparr>)"

section \<open>Accounting\<close>

text \<open>
  Every TLS event is in exactly one confidence tier and the override is counted inside the last one; every classified
  event is in exactly one policy class; a handshake is confirmed or refused at most once.
\<close>

definition accounted :: "runStats \<Rightarrow> bool" where
  "accounted s \<longleftrightarrow>
     tlsN s = tlsConfidenceFullN s + tlsConfidencePartialN s + tlsConfidenceInferredN s + tlsConfidenceUnknownN s \<and>
     0 \<le> tlsConfidenceUnknownKTLSN s \<and> tlsConfidenceUnknownKTLSN s \<le> tlsConfidenceUnknownN s \<and>
     total (policyCounts s) = tcpN s + udpN s + httpN s + tlsN s \<and>
     0 \<le> tcpStateConfirmed s \<and> 0 \<le> tcpStateRefused s \<and> tcpStateConfirmed s + tcpStateRefused s \<le> tcpStateN s \<and>
     quicObservedN s = of_int (quicCandidateN s)"

named_theorems stat_ops \<open>the operations that count observed events\<close>

lemmas counting_defs [stat_ops] = addDropped_def addExec_def addProcFork_def addFS_def addKTLS_def addPolicyLocked_def addTCP_def
  addTCPResult_def addUDP_def addHTTP_def addTLS_def addIPv6Event_def addIoUringSend_def addIoUringTLSSNI_def
  addEgressBackstop_def addBpfSelfDefense_def addQUICCandidate_def addQUICObserved_def addBPFAudit_def addTCPState_def
  incDomainCount_def

lemma accounted_new: "accounted newRunStats"
  by (simp add: accounted_def newRunStats_def total_def)

lemma accounted_simple [simp]:
  assumes "accounted s"
  shows "accounted (addDropped k s)" "accounted (addExec s)" "accounted (addProcFork s)" "accounted (addFS s)"
    "accounted (addKTLS s)" "accounted (addTCPResult b s)" "accounted (addIPv6Event s)" "accounted (addIoUringSend s)"
    "accounted (addIoUringTLSSNI x s)" "accounted (addEgressBackstop d s)" "accounted (addBpfSelfDefense s)"
    "accounted (addBPFAudit s)" "accounted (incDomainCount d s)"
  using assms by (simp_all add: accounted_def stat_ops Let_def)

lemma accounted_classified [simp]:
  assumes "accounted s"
  shows "accounted (addTCP cl s)" "accounted (addUDP cl s)" "accounted (addHTTP cl s)"
  using assms by (simp_all add: accounted_def stat_ops)

lemma accounted_TLS [simp]: "accounted s \<Longrightarrow> accounted (addTLS cl conf over s)"
  by (cases conf) (simp_all add: accounted_def stat_ops Let_def)

lemma accounted_TCPState [simp]: "accounted s \<Longrightarrow> \<not> (confirmed \<and> refused) \<Longrightarrow> accounted (addTCPState confirmed refused s)"
  by (simp add: accounted_def stat_ops Let_def)

lemma accounted_QUIC [simp]: "accounted s \<Longrightarrow> accounted (addQUICCandidate (addQUICObserved s))"
  by (simp add: accounted_def stat_ops)

end
