(* ===== verification/Events.thy ===== *)
theory Events
  imports RunStats
begin

text \<open>
  The records of the event log (\<^verbatim>\<open>internal/telemetry/event.go\<close>), the names of TCP states and the generator of
  sequence numbers. A 32 bit signed field is its word. \<^verbatim>\<open>Sig\<close> is empty in every record the agent builds: a signer
  adds its signature to the encoded object, not to the record.
\<close>

section \<open>Records\<close>

record ExecEvent =
  ex_Type :: "string"
  ex_TS :: "string"
  ex_Seq :: "64 word"
  ex_PID :: "32 word"
  ex_TGID :: "32 word"
  ex_ThreadID :: "32 word"
  ex_Comm :: "string"
  ex_Exe :: "string"
  ex_ExeInode :: "64 word"
  ex_ExeDev :: "32 word"
  ex_ExeSHA256 :: "string"
  ex_Sig :: "string"

record ProcForkEvent =
  pf_Type :: "string"
  pf_TS :: "string"
  pf_Seq :: "64 word"
  pf_ParentPID :: "32 word"
  pf_ChildPID :: "32 word"
  pf_ParentComm :: "string"
  pf_ChildComm :: "string"
  pf_ChildSID :: "32 word"
  pf_ChildPidnsNum :: "32 word"
  pf_Note :: "string"
  pf_Sig :: "string"

record TCPStateEvent =
  st_Type :: "string"
  st_TS :: "string"
  st_Seq :: "64 word"
  st_TimestampNS :: "64 word"
  st_PID :: "32 word"
  st_Comm :: "string"
  st_SrcIP :: "string"
  st_SrcPort :: "16 word"
  st_DstIP :: "string"
  st_DstPort :: "16 word"
  st_OldState :: "string"
  st_NewState :: "string"
  st_Sig :: "string"

record TCPEvent =
  tc_Type :: "string"
  tc_TS :: "string"
  tc_Seq :: "64 word"
  tc_PID :: "32 word"
  tc_TGID :: "32 word"
  tc_ThreadID :: "32 word"
  tc_Comm :: "string"
  tc_Dst :: "string"
  tc_Dport :: "16 word"
  tc_FQDN :: "string"
  tc_FQDNProvenance :: "string"
  tc_Direction :: "string"
  tc_Policy :: "string"
  tc_Sig :: "string"

record TCPResultEvent =
  tr_Type :: "string"
  tr_TS :: "string"
  tr_Seq :: "64 word"
  tr_PID :: "32 word"
  tr_TGID :: "32 word"
  tr_ThreadID :: "32 word"
  tr_Comm :: "string"
  tr_Result :: "32 word"
  tr_ResultStr :: "string"
  tr_Sig :: "string"

record UDPEvent =
  ud_Type :: "string"
  ud_TS :: "string"
  ud_Seq :: "64 word"
  ud_PID :: "32 word"
  ud_TGID :: "32 word"
  ud_ThreadID :: "32 word"
  ud_Comm :: "string"
  ud_Dst :: "string"
  ud_Dport :: "16 word"
  ud_DatagramLen :: "32 word"
  ud_FQDN :: "string"
  ud_FQDNProvenance :: "string"
  ud_Direction :: "string"
  ud_Policy :: "string"
  ud_PossibleQUIC :: "bool"
  ud_Sig :: "string"

record HTTPEvent =
  ht_Type :: "string"
  ht_TS :: "string"
  ht_Seq :: "64 word"
  ht_PID :: "32 word"
  ht_TGID :: "32 word"
  ht_ThreadID :: "32 word"
  ht_Comm :: "string"
  ht_Method :: "string"
  ht_Host :: "string"
  ht_Path :: "string"
  ht_Dst :: "string"
  ht_Dport :: "16 word"
  ht_Policy :: "string"
  ht_Sig :: "string"

record TLSEvent =
  tl_Type :: "string"
  tl_TS :: "string"
  tl_Seq :: "64 word"
  tl_PID :: "32 word"
  tl_TGID :: "32 word"
  tl_ThreadID :: "32 word"
  tl_Comm :: "string"
  tl_SNI :: "string"
  tl_Confidence :: "TLSConfidence"
  tl_ConfidenceReason :: "string"
  tl_ReassembledSNI :: "bool"
  tl_Dst :: "string"
  tl_Dport :: "16 word"
  tl_IsIPv6 :: "bool"
  tl_Policy :: "string"
  tl_Note :: "string"
  tl_Sig :: "string"

record QUICCandidateEvent =
  qc_Type :: "string"
  qc_TS :: "string"
  qc_Seq :: "64 word"
  qc_PID :: "32 word"
  qc_TGID :: "32 word"
  qc_Comm :: "string"
  qc_DstIP :: "string"
  qc_DstPort :: "16 word"
  qc_Note :: "string"
  qc_Sig :: "string"

record IPv6Event =
  v6_Type :: "string"
  v6_TS :: "string"
  v6_Seq :: "64 word"
  v6_PID :: "32 word"
  v6_Comm :: "string"
  v6_Dst :: "string"
  v6_Dport :: "16 word"
  v6_Note :: "string"
  v6_Sig :: "string"

record FSEvent =
  fe_Type :: "string"
  fe_TS :: "string"
  fe_Seq :: "64 word"
  fe_PID :: "32 word"
  fe_TGID :: "32 word"
  fe_ThreadID :: "32 word"
  fe_Comm :: "string"
  fe_Op :: "string"
  fe_Path :: "string"
  fe_Note :: "string"
  fe_Sig :: "string"

record DenyEvent =
  dn_Type :: "string"
  dn_TS :: "string"
  dn_Seq :: "64 word"
  dn_PID :: "32 word"
  dn_TGID :: "32 word"
  dn_ThreadID :: "32 word"
  dn_Comm :: "string"
  dn_Protocol :: "string"
  dn_Dst :: "string"
  dn_Dport :: "16 word"
  dn_Reason :: "string"
  dn_Mode :: "string"
  dn_HookFamily :: "string"
  dn_MatchKind :: "string"
  dn_Sig :: "string"

record KTLSEvent =
  kt_Type :: "string"
  kt_TS :: "string"
  kt_Seq :: "64 word"
  kt_PID :: "32 word"
  kt_TGID :: "32 word"
  kt_ThreadID :: "32 word"
  kt_Comm :: "string"
  kt_FD :: "32 word"
  kt_Direction :: "string"
  kt_Sig :: "string"

record IOUringSendEvent =
  io_Type :: "string"
  io_TS :: "string"
  io_Seq :: "64 word"
  io_PID :: "32 word"
  io_Comm :: "string"
  io_FD :: "32 word"
  io_Op :: "string"
  io_DstIP :: "string"
  io_DstPort :: "16 word"
  io_HasTLSHello :: "bool"
  io_Sig :: "string"

record EgressBackstopEvent =
  eb_Type :: "string"
  eb_TS :: "string"
  eb_Seq :: "64 word"
  eb_PID :: "32 word"
  eb_Comm :: "string"
  eb_AF :: "string"
  eb_Proto :: "string"
  eb_Dst :: "string"
  eb_Dport :: "16 word"
  eb_Note :: "string"
  eb_Sig :: "string"

record IOUringTLSEvent =
  it_Type :: "string"
  it_TS :: "string"
  it_Seq :: "64 word"
  it_PID :: "32 word"
  it_Comm :: "string"
  it_Op :: "string"
  it_SNI :: "string"
  it_Dst :: "string"
  it_DstPort :: "16 word"
  it_Sig :: "string"

record BPFAuditEvent =
  au_Type :: "string"
  au_TS :: "string"
  au_Seq :: "64 word"
  au_PID :: "32 word"
  au_TGID :: "32 word"
  au_ThreadID :: "32 word"
  au_Comm :: "string"
  au_Cmd :: "32 word"
  au_Sig :: "string"

record BpfSelfDefenseEvent =
  sd_Type :: "string"
  sd_TS :: "string"
  sd_Seq :: "64 word"
  sd_TGID :: "32 word"
  sd_Comm :: "string"
  sd_Cmd :: "32 word"
  sd_TargetKind :: "string"
  sd_TargetID :: "32 word"
  sd_Action :: "string"
  sd_Sig :: "string"

text \<open>A line of the log is one of them.\<close>

datatype jsonl =
    JExecEvent ExecEvent
  | JProcForkEvent ProcForkEvent
  | JTCPStateEvent TCPStateEvent
  | JTCPEvent TCPEvent
  | JTCPResultEvent TCPResultEvent
  | JUDPEvent UDPEvent
  | JHTTPEvent HTTPEvent
  | JTLSEvent TLSEvent
  | JQUICCandidateEvent QUICCandidateEvent
  | JIPv6Event IPv6Event
  | JFSEvent FSEvent
  | JDenyEvent DenyEvent
  | JKTLSEvent KTLSEvent
  | JIOUringSendEvent IOUringSendEvent
  | JEgressBackstopEvent EgressBackstopEvent
  | JIOUringTLSEvent IOUringTLSEvent
  | JBPFAuditEvent BPFAuditEvent
  | JBpfSelfDefenseEvent BpfSelfDefenseEvent

fun line_seq :: "jsonl \<Rightarrow> 64 word" where
  "line_seq (JExecEvent e) = ex_Seq e"
| "line_seq (JProcForkEvent e) = pf_Seq e"
| "line_seq (JTCPStateEvent e) = st_Seq e"
| "line_seq (JTCPEvent e) = tc_Seq e"
| "line_seq (JTCPResultEvent e) = tr_Seq e"
| "line_seq (JUDPEvent e) = ud_Seq e"
| "line_seq (JHTTPEvent e) = ht_Seq e"
| "line_seq (JTLSEvent e) = tl_Seq e"
| "line_seq (JQUICCandidateEvent e) = qc_Seq e"
| "line_seq (JIPv6Event e) = v6_Seq e"
| "line_seq (JFSEvent e) = fe_Seq e"
| "line_seq (JDenyEvent e) = dn_Seq e"
| "line_seq (JKTLSEvent e) = kt_Seq e"
| "line_seq (JIOUringSendEvent e) = io_Seq e"
| "line_seq (JEgressBackstopEvent e) = eb_Seq e"
| "line_seq (JIOUringTLSEvent e) = it_Seq e"
| "line_seq (JBPFAuditEvent e) = au_Seq e"
| "line_seq (JBpfSelfDefenseEvent e) = sd_Seq e"

fun line_type :: "jsonl \<Rightarrow> string" where
  "line_type (JExecEvent e) = ex_Type e"
| "line_type (JProcForkEvent e) = pf_Type e"
| "line_type (JTCPStateEvent e) = st_Type e"
| "line_type (JTCPEvent e) = tc_Type e"
| "line_type (JTCPResultEvent e) = tr_Type e"
| "line_type (JUDPEvent e) = ud_Type e"
| "line_type (JHTTPEvent e) = ht_Type e"
| "line_type (JTLSEvent e) = tl_Type e"
| "line_type (JQUICCandidateEvent e) = qc_Type e"
| "line_type (JIPv6Event e) = v6_Type e"
| "line_type (JFSEvent e) = fe_Type e"
| "line_type (JDenyEvent e) = dn_Type e"
| "line_type (JKTLSEvent e) = kt_Type e"
| "line_type (JIOUringSendEvent e) = io_Type e"
| "line_type (JEgressBackstopEvent e) = eb_Type e"
| "line_type (JIOUringTLSEvent e) = it_Type e"
| "line_type (JBPFAuditEvent e) = au_Type e"
| "line_type (JBpfSelfDefenseEvent e) = sd_Type e"

section \<open>TCP states and sequence numbers\<close>

definition TCPStateName :: "32 word \<Rightarrow> string" where
  "TCPStateName s = (if s = 1 then ''ESTABLISHED''
     else if s = 2 then ''SYN_SENT''
     else if s = 3 then ''SYN_RECV''
     else if s = 4 then ''FIN_WAIT1''
     else if s = 5 then ''FIN_WAIT2''
     else if s = 6 then ''TIME_WAIT''
     else if s = 7 then ''CLOSE''
     else if s = 8 then ''CLOSE_WAIT''
     else if s = 9 then ''LAST_ACK''
     else if s = 10 then ''LISTEN''
     else if s = 11 then ''CLOSING''
     else if s = 12 then ''NEW_SYN_RECV''
     else ''UNKNOWN'')"

text \<open>The generator is the last number handed out.\<close>

definition Next :: "64 word \<Rightarrow> 64 word \<times> 64 word" where
  "Next s = (s + 1, s + 1)"

definition Last :: "64 word \<Rightarrow> 64 word" where
  "Last s = s"

section \<open>The event log\<close>

text \<open>
  The state behind the log mutex: the generator and the lines written in full. \<^verbatim>\<open>AppendJSONL\<close> encodes the record
  (signed or not) and appends it to the file; whether the file system takes the line is the argument \<open>ok\<close>, a
  function of the line because no two lines carry the same sequence number. The number is drawn and the line appended
  under one acquisition of the mutex, so both are one step.
\<close>

record sink =
  next_seq :: "64 word"
  lines :: "jsonl list"

definition AppendJSONL :: "(jsonl \<Rightarrow> bool) \<Rightarrow> (64 word \<Rightarrow> jsonl) \<Rightarrow> sink \<Rightarrow> bool \<times> sink" where
  "AppendJSONL ok ev k = (let (n, g) = Next (next_seq k) in
     (ok (ev n), k\<lparr>next_seq := g, lines := (if ok (ev n) then lines k @ [ev n] else lines k)\<rparr>))"

definition ordered :: "sink \<Rightarrow> bool" where
  "ordered k \<longleftrightarrow> sorted_wrt (<) (map line_seq (lines k)) \<and> (\<forall>e \<in> set (lines k). line_seq e \<le> next_seq k)"

lemma next_room:
  assumes "unat (g :: 64 word) + 1 < 2 ^ 64"
  shows "unat (g + 1) = unat g + 1" "g < g + 1"
proof -
  show u: "unat (g + 1) = unat g + 1"
    using assms by (simp add: unat_word_ariths)
  show "g < g + 1"
    unfolding word_less_nat_alt u by simp
qed

lemma ordered_append:
  assumes "ordered k" "unat (next_seq k) + 1 < 2 ^ 64" "\<And>n. line_seq (ev n) = n"
  shows "ordered (snd (AppendJSONL ok ev k))"
proof -
  note lt = next_room(2) [OF assms(2)]
  have "\<forall>e \<in> set (lines k). line_seq e < next_seq k + 1"
    using assms(1) lt unfolding ordered_def by (meson order_le_less_trans)
  then show ?thesis
    using assms(1,3) by (auto simp: ordered_def AppendJSONL_def Next_def sorted_wrt_append intro: less_imp_le)
qed

text \<open>Handlers draw at most \<open>n\<close> numbers and keep the log ordered as long as the generator does not wrap around.\<close>

definition advances :: "nat \<Rightarrow> sink \<Rightarrow> sink \<Rightarrow> bool" where
  "advances n k k' \<longleftrightarrow> (ordered k \<longrightarrow> unat (next_seq k) + n < 2 ^ 64 \<longrightarrow>
     ordered k' \<and> unat (next_seq k') \<le> unat (next_seq k) + n)"

lemma advances_refl [simp]: "advances n k k"
  by (simp add: advances_def)

lemma advances_mono: "advances m k k' \<Longrightarrow> m \<le> n \<Longrightarrow> advances n k k'"
  unfolding advances_def by (meson add_le_mono le_trans less_le_trans nat_add_left_cancel_le not_less order_refl)

lemma advances_trans: "advances m k k' \<Longrightarrow> advances n k' k'' \<Longrightarrow> advances (m + n) k k''"
  unfolding advances_def by auto

lemma advances_append: "(\<And>n. line_seq (ev n) = n) \<Longrightarrow> advances 1 k (snd (AppendJSONL ok ev k))"
  using ordered_append [of k ev ok] next_room(1) [of "next_seq k"]
  by (auto simp: advances_def AppendJSONL_def Next_def)

end
