(* ===== verification/Decode.thy ===== *)
theory Decode
  imports GoNet
begin

text \<open>
  The decoders of the ring buffer records (\<^verbatim>\<open>internal/agent/agent_linux_decode.go\<close>, with the wire sizes of
  \<^verbatim>\<open>agent_linux_state_sections.go\<close>), the labels they are rendered with and the QUIC heuristic
  (\<^verbatim>\<open>quic_candidate.go\<close>). A decoder returns \<^const>\<open>None\<close> where the code returns a false last result. The
  layouts of the C structures of \<^verbatim>\<open>bpf/\<close> are written as encoders, and each decoder is shown to invert the
  layout of its structure on a record followed by any number of further bytes.
\<close>

section \<open>Wire sizes\<close>

abbreviation connectEventWireSize :: nat where "connectEventWireSize \<equiv> 32"
abbreviation udpSendEventWireSize :: nat where "udpSendEventWireSize \<equiv> 36"
abbreviation httpSniffEventWireSize :: nat where "httpSniffEventWireSize \<equiv> 228"
abbreviation tlsSniffEventWireSize :: nat where "tlsSniffEventWireSize \<equiv> 312"
abbreviation denyEventWireSize :: nat where "denyEventWireSize \<equiv> 46"
abbreviation bpfAuditEventWireSize :: nat where "bpfAuditEventWireSize \<equiv> 28"
abbreviation ktlsEventWireSize :: nat where "ktlsEventWireSize \<equiv> 32"
abbreviation tcpStateEventWireSize :: nat where "tcpStateEventWireSize \<equiv> 48"
abbreviation ioUringSendEventWireSize :: nat where "ioUringSendEventWireSize \<equiv> 40"
abbreviation egressBackstopEventWireSize :: nat where "egressBackstopEventWireSize \<equiv> 56"
abbreviation ioUringTLSEventWireSize :: nat where "ioUringTLSEventWireSize \<equiv> 304"
abbreviation ioUringTLSPayloadMax :: nat where "ioUringTLSPayloadMax \<equiv> 256"
abbreviation bpfSelfDefenseEventWireSize :: nat where "bpfSelfDefenseEventWireSize \<equiv> 40"
abbreviation dnsSniffMaxPayload :: nat where "dnsSniffMaxPayload \<equiv> 4096"
abbreviation dnsSniffEventWireSizeLegacy :: nat where "dnsSniffEventWireSizeLegacy \<equiv> 4100"
abbreviation dnsSniffEventWireSize :: nat where "dnsSniffEventWireSize \<equiv> 4104"
abbreviation connectResultEventWireSize :: nat where "connectResultEventWireSize \<equiv> 32"
abbreviation httpPayloadMax :: nat where "httpPayloadMax \<equiv> 192"
abbreviation tlsPayloadMax :: nat where "tlsPayloadMax \<equiv> 256"
abbreviation httpSniffEventHeaderSize :: nat where "httpSniffEventHeaderSize \<equiv> 34"
abbreviation tlsSniffEventHeaderSize :: nat where "tlsSniffEventHeaderSize \<equiv> 34"
abbreviation tlsSniffEventIPv6Offset :: nat where "tlsSniffEventIPv6Offset \<equiv> tlsSniffEventHeaderSize + tlsPayloadMax"
abbreviation linuxAFInet :: byte where "linuxAFInet \<equiv> 2"
abbreviation linuxAFInet6 :: byte where "linuxAFInet6 \<equiv> 10"

section \<open>Reads of \<^verbatim>\<open>encoding/binary\<close>\<close>

definition le16_at :: "bytes \<Rightarrow> nat \<Rightarrow> 16 word" where
  "le16_at raw i = of_nat (le_nat (slice i (i + 2) raw))"

definition le32_at :: "bytes \<Rightarrow> nat \<Rightarrow> 32 word" where
  "le32_at raw i = of_nat (le_nat (slice i (i + 4) raw))"

definition le64_at :: "bytes \<Rightarrow> nat \<Rightarrow> 64 word" where
  "le64_at raw i = of_nat (le_nat (slice i (i + 8) raw))"

definition port_at :: "bytes \<Rightarrow> nat \<Rightarrow> 16 word" where
  "port_at raw i = of_nat (be_nat (slice i (i + 2) raw))"

section \<open>Decoders\<close>

definition decodeConnectEvent :: "bytes \<Rightarrow> (32 word \<times> 32 word \<times> bytes \<times> bytes \<times> 16 word) option" where
  "decodeConnectEvent raw = (if length raw < connectEventWireSize then None
     else Some (le32_at raw 0, le32_at raw 4, slice 8 24 raw, slice 24 28 raw, port_at raw 28))"

definition decodeConnectResultEvent :: "bytes \<Rightarrow> (32 word \<times> 32 word \<times> bytes \<times> 32 word) option" where
  "decodeConnectResultEvent raw = (if length raw < connectResultEventWireSize then None
     else let result = le32_at raw 4 in Some (le32_at raw 8, le32_at raw 12, slice 16 32 raw, result))"

definition decodeUDPSendEvent :: "bytes \<Rightarrow> (32 word \<times> 32 word \<times> bytes \<times> bytes \<times> 16 word \<times> 32 word) option" where
  "decodeUDPSendEvent raw = (if length raw < udpSendEventWireSize then None
     else Some (le32_at raw 0, le32_at raw 4, slice 8 24 raw, slice 24 28 raw, port_at raw 28, le32_at raw 32))"

definition decodeHTTPSniffEvent :: "bytes \<Rightarrow> (32 word \<times> 32 word \<times> bytes \<times> bytes \<times> 16 word \<times> bytes) option" where
  "decodeHTTPSniffEvent raw = (if length raw < httpSniffEventWireSize then None
     else let capLen = unat (le16_at raw 32) in
       if httpPayloadMax < capLen then None
       else Some (le32_at raw 0, le32_at raw 4, slice 8 24 raw, slice 24 28 raw, port_at raw 28,
         slice httpSniffEventHeaderSize (httpSniffEventHeaderSize + capLen) raw))"

definition decodeTLSSniffEvent ::
    "bytes \<Rightarrow> (32 word \<times> 32 word \<times> bytes \<times> bytes \<times> 16 word \<times> bytes \<times> bytes \<times> bool) option" where
  "decodeTLSSniffEvent raw = (if length raw < tlsSniffEventWireSize then None
     else let capLen = unat (le16_at raw 32) in
       if tlsPayloadMax < capLen then None
       else Some (le32_at raw 0, le32_at raw 4, slice 8 24 raw, slice 24 28 raw, port_at raw 28,
         slice tlsSniffEventHeaderSize (tlsSniffEventHeaderSize + capLen) raw,
         slice tlsSniffEventIPv6Offset (tlsSniffEventIPv6Offset + 16) raw,
         raw ! (tlsSniffEventIPv6Offset + 16) \<noteq> 0))"

definition decodeDNSSniffSample :: "bytes \<Rightarrow> (bytes \<times> bool) option" where
  "decodeDNSSniffSample raw = (if length raw < 4 then None
     else let n = unat (le32_at raw 0) in
       if dnsSniffMaxPayload < n then None
       else if length raw = dnsSniffEventWireSizeLegacy then
         (if length raw < n + 4 then None else Some (slice 4 (4 + n) raw, False))
       else if length raw < dnsSniffEventWireSize then None
       else if length raw < n + 8 then None
       else Some (slice 8 (8 + n) raw, raw ! 4 \<noteq> 0))"

definition decodeBPFAuditEvent :: "bytes \<Rightarrow> (32 word \<times> 32 word \<times> bytes \<times> 32 word) option" where
  "decodeBPFAuditEvent raw = (if length raw < bpfAuditEventWireSize then None
     else Some (le32_at raw 0, le32_at raw 4, slice 12 28 raw, le32_at raw 8))"

definition decodeKTLSEvent :: "bytes \<Rightarrow> (32 word \<times> 32 word \<times> 32 word \<times> bytes \<times> byte) option" where
  "decodeKTLSEvent raw = (if length raw < ktlsEventWireSize then None
     else Some (le32_at raw 0, le32_at raw 4, le32_at raw 24, slice 8 24 raw, raw ! 28))"

definition ktlsDirectionLabel :: "byte \<Rightarrow> string" where
  "ktlsDirectionLabel d = (if d = 1 then ''tx'' else if d = 2 then ''rx'' else ''unknown'')"

definition decodeTCPStateEvent :: "bytes \<Rightarrow>
    (64 word \<times> 32 word \<times> bytes \<times> bytes \<times> 16 word \<times> 16 word \<times> 32 word \<times> 32 word \<times> bytes) option" where
  "decodeTCPStateEvent raw = (if length raw < tcpStateEventWireSize then None
     else Some (le64_at raw 0, le32_at raw 8, slice 12 16 raw, slice 16 20 raw, le16_at raw 20, le16_at raw 22,
       le32_at raw 24, le32_at raw 28, slice 32 48 raw))"

definition decodeIOUringSendEvent :: "bytes \<Rightarrow>
    (64 word \<times> 32 word \<times> 32 word \<times> bytes \<times> 16 word \<times> byte \<times> bool \<times> bytes) option" where
  "decodeIOUringSendEvent raw = (if length raw < ioUringSendEventWireSize then None
     else Some (le64_at raw 0, le32_at raw 8, le32_at raw 12, slice 16 20 raw, port_at raw 20,
       raw ! 22, raw ! 23 \<noteq> 0, slice 24 40 raw))"

definition decodeEgressBackstopEvent :: "bytes \<Rightarrow>
    (64 word \<times> 32 word \<times> byte \<times> byte \<times> bytes \<times> 16 word \<times> bytes) option" where
  "decodeEgressBackstopEvent raw = (if length raw < egressBackstopEventWireSize then None
     else Some (le64_at raw 0, le32_at raw 8, raw ! 28, raw ! 29, slice 32 48 raw, port_at raw 48, slice 12 28 raw))"

definition decodeBpfSelfDefenseEvent :: "bytes \<Rightarrow>
    (64 word \<times> bytes \<times> 32 word \<times> 32 word \<times> 32 word \<times> byte) option" where
  "decodeBpfSelfDefenseEvent raw = (if length raw < bpfSelfDefenseEventWireSize then None
     else Some (le64_at raw 0, slice 8 24 raw, le32_at raw 24, le32_at raw 28, le32_at raw 32, raw ! 36))"

definition decodeIOUringTLSEvent :: "bytes \<Rightarrow>
    (64 word \<times> 32 word \<times> byte \<times> bytes \<times> bytes \<times> bytes \<times> 16 word) option" where
  "decodeIOUringTLSEvent raw = (if length raw < ioUringTLSEventWireSize then None
     else let capLen = min (unat (le16_at raw 32)) ioUringTLSPayloadMax; payloadOff = 34 in
       Some (le64_at raw 0, le32_at raw 8, raw ! 28, slice payloadOff (payloadOff + capLen) raw, slice 12 28 raw,
         slice 292 296 raw, port_at raw 296))"

definition ioUringOpName :: "byte \<Rightarrow> string" where
  "ioUringOpName p = (if p = 2 then ''WRITEV'' else if p = 9 then ''SENDMSG'' else if p = 23 then ''WRITE''
     else if p = 26 then ''SEND'' else ''UNKNOWN'')"

definition decodeDenyEvent :: "bytes \<Rightarrow>
    (32 word \<times> 32 word \<times> bytes \<times> byte \<times> byte \<times> byte \<times> bytes \<times> 16 word) option" where
  "decodeDenyEvent raw = (if length raw < denyEventWireSize then None
     else Some (le32_at raw 0, le32_at raw 4, slice 8 24 raw, raw ! 24, raw ! 25, raw ! 26,
       slice 28 44 raw, port_at raw 44))"

definition denyProtocolLabel :: "byte \<Rightarrow> string" where
  "denyProtocolLabel protocol = (if protocol = 1 then ''tcp'' else if protocol = 2 then ''udp'' else ''unknown'')"

definition denyReasonLabel :: "byte \<Rightarrow> string" where
  "denyReasonLabel reason = (if reason = 1 then ''dst_not_allowlisted'' else ''unknown'')"

definition IsQUICCandidate :: "string \<Rightarrow> 16 word \<Rightarrow> bool" where
  "IsQUICCandidate dstIP dstPort = (dstPort = 443 \<and>
     (case ParseIP dstIP of None \<Rightarrow> False
      | Some ip \<Rightarrow> (case To4 ip of None \<Rightarrow> False | Some v4 \<Rightarrow> \<not> IsLoopback v4)))"

section \<open>The layouts of the C structures\<close>

definition le16b :: "16 word \<Rightarrow> bytes" where "le16b x = le_bytes 2 (unat x)"
definition le32b :: "32 word \<Rightarrow> bytes" where "le32b x = le_bytes 4 (unat x)"
definition le64b :: "64 word \<Rightarrow> bytes" where "le64b x = le_bytes 8 (unat x)"
definition portb :: "16 word \<Rightarrow> bytes" where "portb x = be_bytes 2 (unat x)"

lemma length_le16b [simp]: "length (le16b x) = 2" by (simp add: le16b_def)
lemma length_le32b [simp]: "length (le32b x) = 4" by (simp add: le32b_def)
lemma length_le64b [simp]: "length (le64b x) = 8" by (simp add: le64b_def)
lemma length_portb [simp]: "length (portb x) = 2" by (simp add: portb_def)

named_theorems wire \<open>reads inside a concatenation of fields\<close>

lemma at_skip [wire]:
  assumes "length xs \<le> i"
  shows "le16_at (xs @ ys) i = le16_at ys (i - length xs)" "le32_at (xs @ ys) i = le32_at ys (i - length xs)"
    "le64_at (xs @ ys) i = le64_at ys (i - length xs)" "port_at (xs @ ys) i = port_at ys (i - length xs)"
  using assms by (auto simp: le16_at_def le32_at_def le64_at_def port_at_def slice_def)

lemma at_Cons [wire]:
  assumes "0 < i"
  shows "le16_at (x # ys) i = le16_at ys (i - 1)" "le32_at (x # ys) i = le32_at ys (i - 1)"
    "le64_at (x # ys) i = le64_at ys (i - 1)" "port_at (x # ys) i = port_at ys (i - 1)"
  using at_skip [of "[x]" i ys] assms by simp_all

lemma slice_Cons [wire]: "0 < a \<Longrightarrow> slice a b (x # ys) = slice (a - 1) (b - 1) ys"
  by (cases a; cases b) (simp_all add: slice_def)

lemma slice_skip [wire]: "length xs \<le> a \<Longrightarrow> slice a b (xs @ ys) = slice (a - length xs) (b - length xs) ys"
  by (auto simp: slice_def)

lemma slice_here [wire]: "length xs = b \<Longrightarrow> slice 0 b (xs @ ys) = xs"
  by (simp add: slice_def)

lemma unat_256:
  "unat (x :: 16 word) < 256 ^ 2" "unat (y :: 32 word) < 256 ^ 4" "unat (z :: 64 word) < 256 ^ 8"
  using unsigned_less [of x] unsigned_less [of y] unsigned_less [of z] by simp_all

lemma at_here [wire]:
  "le16_at (le16b x @ ys) 0 = x" "le32_at (le32b y @ ys) 0 = y" "le64_at (le64b z @ ys) 0 = z" "port_at (portb x @ ys) 0 = x"
  using unat_256 le_nat_le_bytes [OF unat_256(1)] le_nat_le_bytes [OF unat_256(2)] le_nat_le_bytes [OF unat_256(3)]
    be_nat_be_bytes [OF unat_256(1)]
  by (simp_all add: le16_at_def le32_at_def le64_at_def port_at_def slice_here le16b_def le32b_def le64b_def portb_def
      del: le_bytes.simps)

definition connect_event :: "bytes \<Rightarrow> 32 word \<times> 32 word \<times> bytes \<times> bytes \<times> 16 word \<Rightarrow> bytes" where
  "connect_event pad = (\<lambda>(tgid, tid, comm, daddr, dport). le32b tgid @ le32b tid @ comm @ daddr @ portb dport @ pad)"

definition connect_result_event :: "32 word \<Rightarrow> 32 word \<times> 32 word \<times> bytes \<times> 32 word \<Rightarrow> bytes" where
  "connect_result_event magic = (\<lambda>(tgid, tid, comm, result). le32b magic @ le32b result @ le32b tgid @ le32b tid @ comm)"

definition udp_send_event :: "bytes \<Rightarrow> 32 word \<times> 32 word \<times> bytes \<times> bytes \<times> 16 word \<times> 32 word \<Rightarrow> bytes" where
  "udp_send_event pad = (\<lambda>(tgid, tid, comm, daddr, dport, n).
     le32b tgid @ le32b tid @ comm @ daddr @ portb dport @ pad @ le32b n)"

text \<open>A captured payload is followed by what is left of its window.\<close>

definition http_sniff_event :: "bytes \<Rightarrow> bytes \<Rightarrow> 32 word \<times> 32 word \<times> bytes \<times> bytes \<times> 16 word \<times> bytes \<Rightarrow> bytes" where
  "http_sniff_event pad slack = (\<lambda>(tgid, tid, comm, daddr, dport, payload).
     le32b tgid @ le32b tid @ comm @ daddr @ portb dport @ pad @ le16b (of_nat (length payload)) @ payload @ slack)"

definition tls_sniff_event :: "bytes \<Rightarrow> bytes \<Rightarrow> bytes \<Rightarrow>
    32 word \<times> 32 word \<times> bytes \<times> bytes \<times> 16 word \<times> bytes \<times> bytes \<times> bool \<Rightarrow> bytes" where
  "tls_sniff_event pad slack pad_v6 = (\<lambda>(tgid, tid, comm, daddr, dport, payload, daddr6, is_ipv6).
     le32b tgid @ le32b tid @ comm @ daddr @ portb dport @ pad @ le16b (of_nat (length payload)) @ (payload @ slack) @
     daddr6 @ [if is_ipv6 then 1 else 0] @ pad_v6)"

definition dns_sniff_event :: "bytes \<Rightarrow> bytes \<Rightarrow> bytes \<times> bool \<Rightarrow> bytes" where
  "dns_sniff_event pad slack = (\<lambda>(data, is_tcp).
     le32b (of_nat (length data)) @ [if is_tcp then 1 else 0] @ pad @ data @ slack)"

definition bpf_audit_event :: "32 word \<times> 32 word \<times> bytes \<times> 32 word \<Rightarrow> bytes" where
  "bpf_audit_event = (\<lambda>(tgid, tid, comm, cmd). le32b tgid @ le32b tid @ le32b cmd @ comm)"

definition ktls_event :: "bytes \<Rightarrow> 32 word \<times> 32 word \<times> 32 word \<times> bytes \<times> byte \<Rightarrow> bytes" where
  "ktls_event pad = (\<lambda>(tgid, tid, fd, comm, direction). le32b tgid @ le32b tid @ comm @ le32b fd @ [direction] @ pad)"

definition tcp_state_event ::
    "64 word \<times> 32 word \<times> bytes \<times> bytes \<times> 16 word \<times> 16 word \<times> 32 word \<times> 32 word \<times> bytes \<Rightarrow> bytes" where
  "tcp_state_event = (\<lambda>(ts, pid, saddr, daddr, sport, dport, old_state, new_state, comm).
     le64b ts @ le32b pid @ saddr @ daddr @ le16b sport @ le16b dport @ le32b old_state @ le32b new_state @ comm)"

definition io_uring_send_event ::
    "64 word \<times> 32 word \<times> 32 word \<times> bytes \<times> 16 word \<times> byte \<times> bool \<times> bytes \<Rightarrow> bytes" where
  "io_uring_send_event = (\<lambda>(ts, pid, fd, daddr, dport, p, has_tls_hello, comm).
     le64b ts @ le32b pid @ le32b fd @ daddr @ portb dport @ [p, if has_tls_hello then 1 else 0] @ comm)"

definition egress_backstop_event :: "bytes \<Rightarrow> bytes \<Rightarrow>
    64 word \<times> 32 word \<times> byte \<times> byte \<times> bytes \<times> 16 word \<times> bytes \<Rightarrow> bytes" where
  "egress_backstop_event pad pad2 = (\<lambda>(ts, pid, af, ipproto, daddr, dport, comm).
     le64b ts @ le32b pid @ comm @ [af, ipproto] @ pad @ daddr @ portb dport @ pad2)"

definition bpf_self_defense_event :: "bytes \<Rightarrow> 64 word \<times> bytes \<times> 32 word \<times> 32 word \<times> 32 word \<times> byte \<Rightarrow> bytes" where
  "bpf_self_defense_event pad = (\<lambda>(ts, comm, tgid, target_id, cmd, target_kind).
     le64b ts @ comm @ le32b tgid @ le32b target_id @ le32b cmd @ [target_kind] @ pad)"

definition io_uring_tls_event :: "bytes \<Rightarrow> bytes \<Rightarrow> bytes \<Rightarrow> bytes \<Rightarrow>
    64 word \<times> 32 word \<times> byte \<times> bytes \<times> bytes \<times> bytes \<times> 16 word \<Rightarrow> bytes" where
  "io_uring_tls_event pad slack gap pad2 = (\<lambda>(ts, pid, p, payload, comm, daddr, dport).
     le64b ts @ le32b pid @ comm @ [p] @ pad @ le16b (of_nat (length payload)) @ (payload @ slack) @ gap @
     daddr @ portb dport @ pad2)"

definition deny_event :: "byte \<Rightarrow> 32 word \<times> 32 word \<times> bytes \<times> byte \<times> byte \<times> byte \<times> bytes \<times> 16 word \<Rightarrow> bytes" where
  "deny_event pad = (\<lambda>(tgid, tid, comm, protocol, reason, af, daddr, dport).
     le32b tgid @ le32b tid @ comm @ [protocol, reason, af, pad] @ daddr @ portb dport)"

section \<open>Every decoder inverts its layout\<close>

lemma connect_decoded:
  "length comm = 16 \<Longrightarrow> length daddr = 4 \<Longrightarrow> length pad = 2 \<Longrightarrow>
   decodeConnectEvent (connect_event pad (tgid, tid, comm, daddr, dport) @ extra) = Some (tgid, tid, comm, daddr, dport)"
  by (simp add: decodeConnectEvent_def connect_event_def wire)

lemma connect_result_decoded:
  "length comm = 16 \<Longrightarrow>
   decodeConnectResultEvent (connect_result_event magic (tgid, tid, comm, result) @ extra) = Some (tgid, tid, comm, result)"
  by (simp add: decodeConnectResultEvent_def connect_result_event_def wire)

lemma udp_send_decoded:
  "length comm = 16 \<Longrightarrow> length daddr = 4 \<Longrightarrow> length pad = 2 \<Longrightarrow>
   decodeUDPSendEvent (udp_send_event pad (tgid, tid, comm, daddr, dport, n) @ extra) = Some (tgid, tid, comm, daddr, dport, n)"
  by (simp add: decodeUDPSendEvent_def udp_send_event_def wire)

lemma http_sniff_decoded:
  "length comm = 16 \<Longrightarrow> length daddr = 4 \<Longrightarrow> length pad = 2 \<Longrightarrow> length payload + length slack = 194 \<Longrightarrow> length payload \<le> 192 \<Longrightarrow>
   decodeHTTPSniffEvent (http_sniff_event pad slack (tgid, tid, comm, daddr, dport, payload) @ extra) =
     Some (tgid, tid, comm, daddr, dport, payload)"
  by (simp add: decodeHTTPSniffEvent_def http_sniff_event_def wire unat_of_nat)

lemma tls_sniff_decoded:
  assumes "length comm = 16" "length daddr = 4" "length pad = 2" "length payload + length slack = 256"
    "length daddr6 = 16" "length pad_v6 = 5"
  shows "decodeTLSSniffEvent (tls_sniff_event pad slack pad_v6 (tgid, tid, comm, daddr, dport, payload, daddr6, is_ipv6) @ extra) =
     Some (tgid, tid, comm, daddr, dport, payload, daddr6, is_ipv6)"
proof -
  have "unat (of_nat (length payload) :: 16 word) = length payload"
    using assms(4) by (simp add: unat_of_nat)
  moreover have "slice 0 256 (payload @ slack @ y) = payload @ slack"
    "slice 256 272 (payload @ slack @ y) = slice 0 16 y" "(payload @ slack @ y) ! 272 = y ! 16" for y
    using assms(4) nth_append_length_plus [of "payload @ slack" y 16] by (simp_all add: slice_def)
  ultimately show ?thesis
    using assms by (simp add: decodeTLSSniffEvent_def tls_sniff_event_def wire nth_append)
qed

lemma dns_sniff_decoded:
  assumes "length pad = 3" "length data + length slack = dnsSniffMaxPayload"
  shows "decodeDNSSniffSample (dns_sniff_event pad slack (data, is_tcp)) = Some (data, is_tcp)"
proof -
  have "unat (of_nat (length data) :: 32 word) = length data"
    using assms(2) by (simp add: unat_of_nat)
  then show ?thesis
    using assms by (simp add: decodeDNSSniffSample_def dns_sniff_event_def wire nth_append Let_def)
qed

lemma bpf_audit_decoded:
  "length comm = 16 \<Longrightarrow>
   decodeBPFAuditEvent (bpf_audit_event (tgid, tid, comm, cmd) @ extra) = Some (tgid, tid, comm, cmd)"
  by (simp add: decodeBPFAuditEvent_def bpf_audit_event_def wire)

lemma ktls_decoded:
  "length comm = 16 \<Longrightarrow> length pad = 3 \<Longrightarrow>
   decodeKTLSEvent (ktls_event pad (tgid, tid, fd, comm, direction) @ extra) = Some (tgid, tid, fd, comm, direction)"
  by (simp add: decodeKTLSEvent_def ktls_event_def wire nth_append)

lemma tcp_state_decoded:
  "length comm = 16 \<Longrightarrow> length saddr = 4 \<Longrightarrow> length daddr = 4 \<Longrightarrow>
   decodeTCPStateEvent (tcp_state_event (ts, pid, saddr, daddr, sport, dport, old_state, new_state, comm) @ extra) =
     Some (ts, pid, saddr, daddr, sport, dport, old_state, new_state, comm)"
  by (simp add: decodeTCPStateEvent_def tcp_state_event_def wire)

lemma io_uring_send_decoded:
  "length comm = 16 \<Longrightarrow> length daddr = 4 \<Longrightarrow>
   decodeIOUringSendEvent (io_uring_send_event (ts, pid, fd, daddr, dport, p, has_tls_hello, comm) @ extra) =
     Some (ts, pid, fd, daddr, dport, p, has_tls_hello, comm)"
  by (simp add: decodeIOUringSendEvent_def io_uring_send_event_def wire nth_append)

lemma egress_backstop_decoded:
  "length comm = 16 \<Longrightarrow> length daddr = 16 \<Longrightarrow> length pad = 2 \<Longrightarrow> length pad2 = 6 \<Longrightarrow>
   decodeEgressBackstopEvent (egress_backstop_event pad pad2 (ts, pid, af, ipproto, daddr, dport, comm) @ extra) =
     Some (ts, pid, af, ipproto, daddr, dport, comm)"
  by (simp add: decodeEgressBackstopEvent_def egress_backstop_event_def wire nth_append)

lemma self_defense_decoded:
  "length comm = 16 \<Longrightarrow> length pad = 3 \<Longrightarrow>
   decodeBpfSelfDefenseEvent (bpf_self_defense_event pad (ts, comm, tgid, target_id, cmd, target_kind) @ extra) =
     Some (ts, comm, tgid, target_id, cmd, target_kind)"
  by (simp add: decodeBpfSelfDefenseEvent_def bpf_self_defense_event_def wire nth_append)

lemma io_uring_tls_decoded:
  assumes "length comm = 16" "length daddr = 4" "length pad = 3" "length payload + length slack = 256"
    "length gap = 2" "length pad2 = 6"
  shows "decodeIOUringTLSEvent (io_uring_tls_event pad slack gap pad2 (ts, pid, p, payload, comm, daddr, dport) @ extra) =
     Some (ts, pid, p, payload, comm, daddr, dport)"
proof -
  have "unat (of_nat (length payload) :: 16 word) = length payload"
    using assms(4) by (simp add: unat_of_nat)
  moreover have "slice 258 262 (payload @ slack @ y) = slice 2 6 y" "port_at (payload @ slack @ y) 262 = port_at y 6" for y
    using assms(4) by (simp_all add: slice_def port_at_def)
  moreover have "min (length payload) 256 = length payload"
    using assms(4) by simp
  ultimately show ?thesis
    using assms by (simp add: decodeIOUringTLSEvent_def io_uring_tls_event_def wire nth_append)
qed

lemma deny_decoded:
  "length comm = 16 \<Longrightarrow> length daddr = 16 \<Longrightarrow>
   decodeDenyEvent (deny_event pad (tgid, tid, comm, protocol, reason, af, daddr, dport) @ extra) =
     Some (tgid, tid, comm, protocol, reason, af, daddr, dport)"
  by (simp add: decodeDenyEvent_def deny_event_def wire nth_append)

section \<open>Bounds on arbitrary records\<close>

lemma http_payload_bound:
  "decodeHTTPSniffEvent raw = Some (tgid, tid, comm, daddr, dport, payload) \<Longrightarrow>
   length comm = 16 \<and> length daddr = 4 \<and> length payload = unat (le16_at raw 32) \<and> length payload \<le> httpPayloadMax"
  by (auto simp: decodeHTTPSniffEvent_def Let_def split: if_splits)

lemma tls_payload_bound:
  "decodeTLSSniffEvent raw = Some (tgid, tid, comm, daddr, dport, payload, daddr6, is_ipv6) \<Longrightarrow>
   length comm = 16 \<and> length daddr = 4 \<and> length daddr6 = 16 \<and>
   length payload = unat (le16_at raw 32) \<and> length payload \<le> tlsPayloadMax"
  by (auto simp: decodeTLSSniffEvent_def Let_def split: if_splits)

lemma io_uring_tls_bound:
  "ioUringTLSEventWireSize \<le> length raw \<Longrightarrow>
   \<exists>ts pid p payload comm daddr dport. decodeIOUringTLSEvent raw = Some (ts, pid, p, payload, comm, daddr, dport) \<and>
     length payload = min (unat (le16_at raw 32)) ioUringTLSPayloadMax \<and> length comm = 16 \<and> length daddr = 4"
  by (simp add: decodeIOUringTLSEvent_def Let_def min_def)

lemma dns_packet_bound:
  "decodeDNSSniffSample raw = Some (pkt, isTCP) \<Longrightarrow>
   length pkt = unat (le32_at raw 0) \<and> length pkt \<le> dnsSniffMaxPayload \<and> length pkt + 4 \<le> length raw"
  by (auto simp: decodeDNSSniffSample_def Let_def split: if_splits)

section \<open>Properties\<close>

text \<open>The deny record a hook writes in the layout of the packed C structure decodes to the same task, protocol,
  reason, family, address and port, and a record shorter than the structure is refused.\<close>

theorem deny_record_roundtrip:
  assumes "length comm = 16" "length daddr = 16"
    and e: "e = (tgid, tid, comm, protocol, reason, af, daddr, dport)"
  shows "decodeDenyEvent (deny_event pad e @ extra) = Some e \<and>
    (n < length (deny_event pad e) \<longrightarrow> decodeDenyEvent (take n (deny_event pad e)) = None)"
  using assms(1,2) deny_decoded unfolding e by (auto simp: decodeDenyEvent_def deny_event_def)

theorem deny_record_roundtrip_witness:
  "decodeDenyEvent (deny_event 0 (7, 8, replicate 16 65, 1, 1, 2, replicate 16 9, 443) @ [1]) =
    Some (7, 8, replicate 16 65, 1, 1, 2, replicate 16 9, 443)"
  by (rule deny_record_roundtrip [THEN conjunct1, OF _ _ refl]) simp_all

text \<open>Whatever bytes a record holds, no decoder hands on more than its window: the payload of a TLS capture has
  the length the record declares and at most 256 bytes, a DNS sample at most 4096 and lies inside the record, and an
  io_uring capture of full size always decodes, its declared length clamped.\<close>

theorem captures_bounded:
  "(decodeTLSSniffEvent raw = Some (tgid, tid, comm, daddr, dport, payload, daddr6, is_ipv6) \<longrightarrow>
      length payload = unat (le16_at raw 32) \<and> length payload \<le> tlsPayloadMax) \<and>
   (decodeDNSSniffSample raw = Some (pkt, isTCP) \<longrightarrow>
      length pkt = unat (le32_at raw 0) \<and> length pkt \<le> dnsSniffMaxPayload \<and> length pkt + 4 \<le> length raw) \<and>
   (ioUringTLSEventWireSize \<le> length raw \<longrightarrow>
      (\<exists>ts pid p window task addr port. decodeIOUringTLSEvent raw = Some (ts, pid, p, window, task, addr, port) \<and>
        length window = min (unat (le16_at raw 32)) ioUringTLSPayloadMax))"
proof (intro conjI impI)
  assume "ioUringTLSEventWireSize \<le> length raw"
  from io_uring_tls_bound [OF this]
  show "\<exists>ts pid p window task addr port. decodeIOUringTLSEvent raw = Some (ts, pid, p, window, task, addr, port) \<and>
        length window = min (unat (le16_at raw 32)) ioUringTLSPayloadMax"
    by blast
qed (auto dest: tls_payload_bound dns_packet_bound)

theorem captures_bounded_witness:
  "\<exists>ts pid p window task addr port.
     decodeIOUringTLSEvent (replicate 304 255) = Some (ts, pid, p, window, task, addr, port) \<and> length window = 256"
proof -
  have n: "min (unat (le16_at (replicate 304 255) 32)) ioUringTLSPayloadMax = 256"
  proof -
    have "replicate 2 (255 :: byte) = [255, 255]"
      by code_simp
    then show ?thesis
      by (simp add: le16_at_def slice_def)
  qed
  show ?thesis
    using captures_bounded [of "replicate 304 255", THEN conjunct2, THEN conjunct2] unfolding n by simp
qed

end
