(* ===== verification/Sanitize.thy ===== *)
theory Sanitize
  imports GoText
begin

text \<open>
  Sanitising of text that reaches the event log (\<^verbatim>\<open>internal/telemetry/sanitize.go\<close>) over a model of
  the \<^verbatim>\<open>unicode/utf8\<close> functions it uses. Bytes are natural numbers below 256 here; \<open>codes\<close> and
  \<open>of_codes\<close> convert from and to strings.
\<close>

definition codes :: "string \<Rightarrow> nat list" where
  "codes s = map of_char s"

definition of_codes :: "nat list \<Rightarrow> string" where
  "of_codes bs = map char_of bs"

definition cont :: "nat \<Rightarrow> bool" where
  "cont b \<longleftrightarrow> 0x80 \<le> b \<and> b \<le> 0xBF"

text \<open>\<^verbatim>\<open>utf8.DecodeRune\<close>: the rune and its width; an invalid sequence is U+FFFD of width 1.\<close>

definition runeError :: nat where "runeError = 0xFFFD"

definition decode_rune :: "nat list \<Rightarrow> nat \<times> nat" where
  "decode_rune s = (case s of [] \<Rightarrow> (runeError, 0)
   | b0 # t \<Rightarrow>
     if b0 < 0x80 then (b0, 1)
     else if 0xC2 \<le> b0 \<and> b0 \<le> 0xDF then (case t of b1 # _ \<Rightarrow>
         if cont b1 then ((b0 - 0xC0) * 64 + (b1 - 0x80), 2) else (runeError, 1) | _ \<Rightarrow> (runeError, 1))
     else if 0xE0 \<le> b0 \<and> b0 \<le> 0xEF then (case t of b1 # b2 # _ \<Rightarrow>
         if (if b0 = 0xE0 then 0xA0 else 0x80) \<le> b1 \<and> b1 \<le> (if b0 = 0xED then 0x9F else 0xBF) \<and> cont b2
         then ((b0 - 0xE0) * 4096 + (b1 - 0x80) * 64 + (b2 - 0x80), 3) else (runeError, 1) | _ \<Rightarrow> (runeError, 1))
     else if 0xF0 \<le> b0 \<and> b0 \<le> 0xF4 then (case t of b1 # b2 # b3 # _ \<Rightarrow>
         if (if b0 = 0xF0 then 0x90 else 0x80) \<le> b1 \<and> b1 \<le> (if b0 = 0xF4 then 0x8F else 0xBF) \<and> cont b2 \<and> cont b3
         then ((b0 - 0xF0) * 262144 + (b1 - 0x80) * 4096 + (b2 - 0x80) * 64 + (b3 - 0x80), 4)
         else (runeError, 1) | _ \<Rightarrow> (runeError, 1))
     else (runeError, 1))"

definition invalid_head :: "nat list \<Rightarrow> bool" where
  "invalid_head s \<longleftrightarrow> s \<noteq> [] \<and> 0x80 \<le> hd s \<and> snd (decode_rune s) = 1"

lemma decode_width: "s \<noteq> [] \<Longrightarrow> 0 < snd (decode_rune s)" "snd (decode_rune s) \<le> length s"
  by (auto simp: decode_rune_def split: list.splits)

text \<open>\<^verbatim>\<open>utf8.EncodeRune\<close>, as \<^verbatim>\<open>strings.Builder.WriteRune\<close> uses it.\<close>

definition scalar :: "nat \<Rightarrow> bool" where
  "scalar r \<longleftrightarrow> r < 0xD800 \<or> 0xE000 \<le> r \<and> r \<le> 0x10FFFF"

definition encode_rune :: "nat \<Rightarrow> nat list" where
  "encode_rune r0 = (let r = (if scalar r0 then r0 else runeError) in
     if r < 0x80 then [r]
     else if r < 0x800 then [0xC0 + r div 64, 0x80 + r mod 64]
     else if r < 0x10000 then [0xE0 + r div 4096, 0x80 + r div 64 mod 64, 0x80 + r mod 64]
     else [0xF0 + r div 262144, 0x80 + r div 4096 mod 64, 0x80 + r div 64 mod 64, 0x80 + r mod 64])"

text \<open>\<^verbatim>\<open>range s\<close>, \<^verbatim>\<open>utf8.ValidString\<close> and \<^verbatim>\<open>strings.ToValidUTF8\<close>.\<close>

function runes :: "nat list \<Rightarrow> nat list" where
  "runes s = (if s = [] then [] else fst (decode_rune s) # runes (drop (snd (decode_rune s)) s))"
  by pat_completeness auto
termination
  by (relation "measure length") (use decode_width in auto)

declare runes.simps [simp del]

function ValidString :: "nat list \<Rightarrow> bool" where
  "ValidString s = (if s = [] then True
     else if invalid_head s then False else ValidString (drop (snd (decode_rune s)) s))"
  by pat_completeness auto
termination
  by (relation "measure length") (use decode_width in auto)

declare ValidString.simps [simp del]

function ToValidUTF8 :: "nat list \<Rightarrow> bool \<Rightarrow> nat list \<Rightarrow> nat list" where
  "ToValidUTF8 s prev rep = (if s = [] then []
     else if hd s < 0x80 then hd s # ToValidUTF8 (tl s) False rep
     else if snd (decode_rune s) = 1 then (if prev then [] else rep) @ ToValidUTF8 (tl s) True rep
     else take (snd (decode_rune s)) s @ ToValidUTF8 (drop (snd (decode_rune s)) s) False rep)"
  by pat_completeness auto
termination
  by (relation "measure (\<lambda>(s, _, _). length s)") (use decode_width in auto)

declare ToValidUTF8.simps [simp del]

definition RuneStart :: "nat \<Rightarrow> bool" where
  "RuneStart b \<longleftrightarrow> \<not> cont b"

definition stripped :: "nat \<Rightarrow> bool" where
  "stripped r \<longleftrightarrow> r < 0x20 \<or> r = 0x7F \<or> 0x80 \<le> r \<and> r \<le> 0x9F"

fun cut_back :: "nat list \<Rightarrow> nat \<Rightarrow> nat" where
  "cut_back out 0 = 0"
| "cut_back out (Suc n) = (if RuneStart (out ! Suc n) then Suc n else cut_back out n)"

definition SanitizeField :: "string \<Rightarrow> int \<Rightarrow> string" where
  "SanitizeField s maxLen = (if maxLen \<le> 0 then []
     else let cs = codes s;
       cs = (if ValidString cs then cs else ToValidUTF8 cs False (encode_rune runeError));
       out = concat (map encode_rune (filter (\<lambda>r. \<not> stripped r) (runes cs)));
       out = (if maxLen < int (length out) then take (cut_back out (nat maxLen)) out else out)
     in of_codes out)"

section \<open>Encoding and decoding\<close>

lemma encode_shape:
  "\<exists>b0 t. encode_rune r = b0 # t \<and> \<not> cont b0 \<and> (\<forall>b \<in> set t. cont b) \<and> b0 < 256 \<and> (\<forall>b \<in> set t. b < 256)"
proof -
  have "r div 262144 \<le> 4" if "r \<le> 0x10FFFF" for r :: nat
    using that by linarith
  moreover have "r div 4096 \<le> 15" if "r < 0x10000" for r :: nat
    using that by linarith
  moreover have "r div 64 \<le> 31" if "r < 0x800" for r :: nat
    using that by linarith
  moreover have "r mod 64 \<le> 63" for r :: nat
    by (simp add: less_Suc_eq_le [symmetric])
  ultimately show ?thesis
    by (auto simp: encode_rune_def cont_def scalar_def runeError_def Let_def le_imp_less_Suc)
qed

lemma decode_encode:
  assumes "scalar r"
  shows "decode_rune (encode_rune r @ rest) = (r, length (encode_rune r))"
proof -
  define a b c d where "a = r div 262144" and "b = r div 4096 mod 64" and "c = r div 64 mod 64" and "d = r mod 64"
  have m: "b < 64" "c < 64" "d < 64"
    by (simp_all add: b_def c_def d_def)
  have e2: "r div 4096 = a * 64 + b"
    using div_mult_mod_eq [of "r div 4096" 64] div_mult2_eq [of r 4096 64] by (simp add: a_def b_def)
  have e1: "r div 64 = (a * 64 + b) * 64 + c"
    using div_mult_mod_eq [of "r div 64" 64] div_mult2_eq [of r 64 64] e2 by (simp add: c_def)
  have r: "r = ((a * 64 + b) * 64 + c) * 64 + d"
    using div_mult_mod_eq [of r 64] e1 by (simp add: d_def)
  note e = e1 e2
  have top: "r \<le> 0x10FFFF"
    using assms by (auto simp: scalar_def)
  consider "r < 0x80" | "0x80 \<le> r" "r < 0x800" | "0x800 \<le> r" "r < 0x10000" | "0x10000 \<le> r"
    by linarith
  then show ?thesis
  proof cases
    case 1
    then show ?thesis
      using assms by (simp add: encode_rune_def decode_rune_def)
  next
    case 2
    then have a0: "a = 0 \<and> b = 0"
      using r by auto
    with 2 have z: "a = 0 \<and> b = 0 \<and> 2 \<le> c \<and> c \<le> 31"
      using r m by auto
    have "encode_rune r = [0xC0 + c, 0x80 + d]"
      using 2 assms e1 by (simp add: encode_rune_def d_def [symmetric] z)
    moreover have "c * 64 + d = r"
      using r z by simp
    ultimately show ?thesis
      using z m by (simp add: decode_rune_def cont_def)
  next
    case 3
    then have a0: "a = 0"
      using r by auto
    with 3 have z: "a = 0 \<and> b \<le> 15 \<and> (b = 0 \<longrightarrow> 32 \<le> c) \<and> (b = 13 \<longrightarrow> c \<le> 31)"
      using r m assms by (auto simp: scalar_def)
    have "encode_rune r = [0xE0 + b, 0x80 + c, 0x80 + d]"
      using 3 assms e2 by (simp add: encode_rune_def c_def [symmetric] d_def [symmetric] z)
    moreover have "b * 4096 + c * 64 + d = r"
      using r z by simp
    ultimately show ?thesis
      using z m by (simp add: decode_rune_def cont_def)
  next
    case 4
    then have z: "a \<le> 4 \<and> (a = 0 \<longrightarrow> 16 \<le> b) \<and> (a = 4 \<longrightarrow> b \<le> 15)"
      using r m top by auto
    have "encode_rune r = [0xF0 + a, 0x80 + b, 0x80 + c, 0x80 + d]"
      using 4 assms by (simp add: encode_rune_def Let_def a_def b_def c_def d_def)
    moreover have "a * 262144 + b * 4096 + c * 64 + d = r"
      using r by simp
    ultimately show ?thesis
      using z m by (simp add: decode_rune_def cont_def)
  qed
qed

lemma runes_encode: "scalar r \<Longrightarrow> runes (encode_rune r @ rest) = r # runes rest"
  using encode_shape [of r] decode_encode [of r rest] by (subst runes.simps) auto

lemma runes_concat: "(\<forall>r \<in> set rs. scalar r) \<Longrightarrow> runes (concat (map encode_rune rs)) = rs"
  by (induction rs) (simp_all add: runes.simps [of "[]"] runes_encode)

lemma valid_encode: "scalar r \<Longrightarrow> ValidString (encode_rune r @ rest) = ValidString rest"
  using encode_shape [of r] decode_encode [of r rest]
  by (subst ValidString.simps) (auto simp: invalid_head_def encode_rune_def cont_def Let_def split: if_splits)

lemma valid_concat: "(\<forall>r \<in> set rs. scalar r) \<Longrightarrow> ValidString (concat (map encode_rune rs))"
  by (induction rs) (simp_all add: ValidString.simps [of "[]"] valid_encode)

text \<open>A valid head decodes to a scalar value whose encoding it is.\<close>

lemma add_of_le: "(k :: nat) \<le> n \<Longrightarrow> \<exists>x. n = k + x"
  by (metis le_iff_add)

lemma divmod64: "z \<le> 63 \<Longrightarrow> (k * 64 + z) div 64 = k \<and> (k * 64 + z) mod 64 = (z :: nat)"
  by auto

lemma encode2:
  assumes "2 \<le> x" "x \<le> 31" "y \<le> 63"
  shows "scalar (x * 64 + y) \<and> encode_rune (x * 64 + y) = [0xC0 + x, 0x80 + y]"
proof -
  have "(x * 64 + y) div 64 = x" "(x * 64 + y) mod 64 = y" "128 \<le> x * 64 + y" "x * 64 + y < 0x800"
    using assms by auto
  then show ?thesis
    by (simp add: encode_rune_def scalar_def)
qed

lemma encode3:
  assumes "x \<le> 15" "y \<le> 63" "z \<le> 63" "x = 0 \<longrightarrow> 32 \<le> y" "x = 13 \<longrightarrow> y \<le> 31"
  shows "scalar (x * 4096 + y * 64 + z) \<and> encode_rune (x * 4096 + y * 64 + z) = [0xE0 + x, 0x80 + y, 0x80 + z]"
proof -
  let ?r = "x * 4096 + y * 64 + z"
  have "?r = (x * 64 + y) * 64 + z"
    by simp
  then have d: "?r div 64 = x * 64 + y" "?r mod 64 = z"
    by (simp_all only: divmod64 [OF assms(3)])
  have "?r div 4096 = x"
    using assms(2,3) by (intro div_nat_eqI) auto
  moreover have "(x * 64 + y) mod 64 = y"
    using assms(2) by auto
  moreover have "0x800 \<le> ?r" "?r < 0x10000" "scalar ?r"
    using assms by (cases "x = 0"; cases "x = 13"; cases "x < 13"; auto simp: scalar_def)+
  ultimately show ?thesis
    using d by (simp add: encode_rune_def)
qed

lemma encode4:
  assumes "x \<le> 4" "y \<le> 63" "z \<le> 63" "w \<le> 63" "x = 0 \<longrightarrow> 16 \<le> y" "x = 4 \<longrightarrow> y \<le> 15"
  shows "scalar (x * 262144 + y * 4096 + z * 64 + w) \<and>
    encode_rune (x * 262144 + y * 4096 + z * 64 + w) = [0xF0 + x, 0x80 + y, 0x80 + z, 0x80 + w]"
proof -
  let ?r = "x * 262144 + y * 4096 + z * 64 + w"
  have "?r = ((x * 64 + y) * 64 + z) * 64 + w"
    by simp
  then have "?r div 64 = (x * 64 + y) * 64 + z" "?r mod 64 = w"
    by (simp_all only: divmod64 [OF assms(4)])
  moreover have "?r div 4096 = x * 64 + y" "?r div 262144 = x"
    using assms(2-4) by (auto intro!: div_nat_eqI)
  moreover have "((x * 64 + y) * 64 + z) mod 64 = z" "(x * 64 + y) mod 64 = y"
    by (simp_all only: divmod64 [OF assms(2)] divmod64 [OF assms(3)])
  moreover have "0x10000 \<le> ?r" "scalar ?r"
    using assms by (cases "x = 0"; cases "x = 4"; auto simp: scalar_def)+
  ultimately show ?thesis
    by (simp only: encode_rune_def Let_def if_True) simp
qed

lemma valid_head_cases:
  assumes "\<not> invalid_head (b0 # t)"
  shows "b0 < 0x80 \<or> (\<exists>b1 u. t = b1 # u \<and> 0xC2 \<le> b0 \<and> b0 \<le> 0xDF \<and> cont b1) \<or>
    (\<exists>b1 b2 u. t = b1 # b2 # u \<and> 0xE0 \<le> b0 \<and> b0 \<le> 0xEF \<and> cont b2 \<and>
       (if b0 = 0xE0 then 0xA0 else 0x80) \<le> b1 \<and> b1 \<le> (if b0 = 0xED then 0x9F else 0xBF)) \<or>
    (\<exists>b1 b2 b3 u. t = b1 # b2 # b3 # u \<and> 0xF0 \<le> b0 \<and> b0 \<le> 0xF4 \<and> cont b2 \<and> cont b3 \<and>
       (if b0 = 0xF0 then 0x90 else 0x80) \<le> b1 \<and> b1 \<le> (if b0 = 0xF4 then 0x8F else 0xBF))"
  using assms by (simp add: invalid_head_def decode_rune_def not_less split: list.splits if_splits)

lemma decode_valid:
  assumes "s \<noteq> []" "\<not> invalid_head s"
  shows "scalar (fst (decode_rune s)) \<and> encode_rune (fst (decode_rune s)) = take (snd (decode_rune s)) s"
proof -
  obtain b0 t where s: "s = b0 # t"
    using assms(1) by (cases s) auto
  consider "b0 < 0x80"
    | x y u where "b0 = 0xC0 + x" "t = (0x80 + y) # u" "2 \<le> x" "x \<le> 31" "y \<le> 63"
    | x y z u where "b0 = 0xE0 + x" "t = (0x80 + y) # (0x80 + z) # u" "x \<le> 15" "y \<le> 63" "z \<le> 63"
        "x = 0 \<longrightarrow> 32 \<le> y" "x = 13 \<longrightarrow> y \<le> 31"
    | x y z w u where "b0 = 0xF0 + x" "t = (0x80 + y) # (0x80 + z) # (0x80 + w) # u" "x \<le> 4" "y \<le> 63" "z \<le> 63"
        "w \<le> 63" "x = 0 \<longrightarrow> 16 \<le> y" "x = 4 \<longrightarrow> y \<le> 15"
    using valid_head_cases [OF assms(2) [unfolded s]]
  proof (elim disjE exE conjE)
    fix b1 u assume "t = b1 # u" "0xC2 \<le> b0" "b0 \<le> 0xDF" "cont b1"
    then show thesis
      using that(2) [of "b0 - 0xC0" "b1 - 0x80" u] by (auto simp: cont_def)
  next
    fix b1 b2 u
    assume "t = b1 # b2 # u" "0xE0 \<le> b0" "b0 \<le> 0xEF" "cont b2"
      "(if b0 = 0xE0 then 0xA0 else 0x80) \<le> b1" "b1 \<le> (if b0 = 0xED then 0x9F else 0xBF)"
    then show thesis
      using that(3) [of "b0 - 0xE0" "b1 - 0x80" "b2 - 0x80" u] by (auto simp: cont_def split: if_splits)
  next
    fix b1 b2 b3 u
    assume "t = b1 # b2 # b3 # u" "0xF0 \<le> b0" "b0 \<le> 0xF4" "cont b2" "cont b3"
      "(if b0 = 0xF0 then 0x90 else 0x80) \<le> b1" "b1 \<le> (if b0 = 0xF4 then 0x8F else 0xBF)"
    then show thesis
      using that(4) [of "b0 - 0xF0" "b1 - 0x80" "b2 - 0x80" "b3 - 0x80" u] by (auto simp: cont_def split: if_splits)
  qed (use that(1) in simp_all)
  then show ?thesis
  proof cases
    case 1
    then show ?thesis
      by (simp add: s decode_rune_def encode_rune_def scalar_def)
  next
    case 2
    then show ?thesis
      using encode2 [of x y] by (simp add: s decode_rune_def cont_def)
  next
    case 3
    then show ?thesis
      using encode3 [of x y z] by (simp add: s decode_rune_def cont_def)
  next
    case 4
    then show ?thesis
      using encode4 [of x y z w] by (simp add: s decode_rune_def cont_def)
  qed
qed

lemma valid_runes:
  "ValidString s \<Longrightarrow> concat (map encode_rune (runes s)) = s \<and> (\<forall>r \<in> set (runes s). scalar r)"
proof (induction s rule: ValidString.induct)
  case (1 s)
  show ?case
  proof (cases "s = []")
    case False
    then have v: "\<not> invalid_head s" "ValidString (drop (snd (decode_rune s)) s)"
      using "1.prems" by (simp_all add: ValidString.simps [of s] split: if_splits)
    note d = decode_valid [OF False v(1)]
    show ?thesis
      using "1.IH" [OF False v] d False by (simp add: runes.simps [of s])
  qed (simp add: runes.simps)
qed

lemma ToValidUTF8_valid: "ValidString (ToValidUTF8 s prev (encode_rune runeError))"
proof (induction s prev "encode_rune runeError" rule: ToValidUTF8.induct)
  case (1 s prev)
  have e: "scalar runeError"
    by (simp add: scalar_def runeError_def)
  consider "s = []" | "s \<noteq> []" "hd s < 0x80" | "s \<noteq> []" "\<not> hd s < 0x80" "snd (decode_rune s) = 1"
    | "s \<noteq> []" "\<not> hd s < 0x80" "snd (decode_rune s) \<noteq> 1"
    by blast
  then show ?case
  proof cases
    case 1
    then show ?thesis
      by (simp add: ToValidUTF8.simps ValidString.simps)
  next
    case 2
    then have "ValidString (hd s # x) = ValidString x" for x
      using valid_encode [of "hd s" x] by (simp add: encode_rune_def scalar_def)
    with 2 "1.hyps"(1) show ?thesis
      by (subst ToValidUTF8.simps) simp
  next
    case 3
    then show ?thesis
      using "1.hyps"(2) by (subst ToValidUTF8.simps) (auto simp: valid_encode [OF e])
  next
    case 4
    then have "scalar (fst (decode_rune s)) \<and> encode_rune (fst (decode_rune s)) = take (snd (decode_rune s)) s"
      using decode_valid [of s] by (simp add: invalid_head_def)
    then show ?thesis
      using 4 "1.hyps"(3) valid_encode [of "fst (decode_rune s)"] by (subst ToValidUTF8.simps) auto
  qed
qed

section \<open>Truncation\<close>

text \<open>Cutting back to a rune start keeps a whole number of runes.\<close>

lemma rune_boundary:
  "i < length (concat (map encode_rune rs)) \<Longrightarrow> \<not> cont (concat (map encode_rune rs) ! i) \<Longrightarrow>
   \<exists>k. take i (concat (map encode_rune rs)) = concat (map encode_rune (take k rs))"
proof (induction rs arbitrary: i)
  case (Cons r rs)
  obtain b0 t where e: "encode_rune r = b0 # t" "\<forall>b \<in> set t. cont b"
    using encode_shape [of r] by blast
  show ?case
  proof (cases "i < length (encode_rune r)")
    case True
    have "i = 0"
    proof (rule ccontr)
      assume "i \<noteq> 0"
      then have "encode_rune r ! i \<in> set t"
        using True by (cases i) (auto simp: e)
      then show False
        using Cons.prems(2) True e(2) by (simp add: nth_append)
    qed
    then show ?thesis
      by (intro exI [of _ 0]) simp
  next
    case False
    then have "i - length (encode_rune r) < length (concat (map encode_rune rs))"
      "\<not> cont (concat (map encode_rune rs) ! (i - length (encode_rune r)))"
      using Cons.prems by (auto simp: nth_append)
    then obtain k where "take (i - length (encode_rune r)) (concat (map encode_rune rs)) =
        concat (map encode_rune (take k rs))"
      using Cons.IH by blast
    then show ?thesis
      using False by (intro exI [of _ "Suc k"]) simp
  qed
qed simp

lemma cut_back_le: "cut_back out n \<le> n"
  by (induction n) auto

lemma cut_back_start: "cut_back out n = 0 \<or> RuneStart (out ! cut_back out n)"
  by (induction n) auto

lemma cut_back_runes:
  assumes "n < length (concat (map encode_rune rs))"
  shows "\<exists>k. take (cut_back (concat (map encode_rune rs)) n) (concat (map encode_rune rs)) =
    concat (map encode_rune (take k rs))"
proof (cases "cut_back (concat (map encode_rune rs)) n = 0")
  case True
  then show ?thesis
    by (intro exI [of _ 0]) simp
next
  case False
  let ?out = "concat (map encode_rune rs)"
  have "cut_back ?out n < length ?out"
    using cut_back_le [of ?out n] assms by linarith
  moreover have "\<not> cont (?out ! cut_back ?out n)"
    using cut_back_start [of ?out n] False by (simp add: RuneStart_def)
  ultimately show ?thesis
    by (rule rune_boundary)
qed

section \<open>What sanitising guarantees\<close>

lemma codes_of_codes: "(\<forall>b \<in> set bs. b < 256) \<Longrightarrow> codes (of_codes bs) = bs"
  by (simp add: codes_def of_codes_def comp_def map_idI)

lemma of_codes_codes [simp]: "of_codes (codes s) = s"
  by (simp add: codes_def of_codes_def comp_def map_idI)

lemma length_codes [simp]: "length (codes s) = length s" "length (of_codes bs) = length bs"
  by (simp_all add: codes_def of_codes_def)

lemma codes_lt: "b \<in> set (codes s) \<Longrightarrow> b < 256"
  by (auto simp: codes_def)

lemma encode_lt: "\<forall>b \<in> set (concat (map encode_rune rs)). b < 256"
proof -
  have "\<forall>b \<in> set (encode_rune r). b < 256" for r
    using encode_shape [of r] by auto
  then show ?thesis
    by simp
qed

lemma encode_clean: "scalar r \<Longrightarrow> \<not> stripped r \<Longrightarrow> b \<in> set (encode_rune r) \<Longrightarrow> 0x20 \<le> b \<and> b \<noteq> 0x7F"
  by (auto simp: encode_rune_def stripped_def Let_def split: if_splits)

text \<open>The result is the encoding of scalar values none of which is a control character.\<close>

lemma SanitizeField_runes:
  assumes "0 < maxLen"
  obtains rs where "codes (SanitizeField s maxLen) = concat (map encode_rune rs)"
    "\<forall>r \<in> set rs. scalar r \<and> \<not> stripped r" "int (length (SanitizeField s maxLen)) \<le> maxLen"
proof -
  define cs where "cs = (if ValidString (codes s) then codes s else ToValidUTF8 (codes s) False (encode_rune runeError))"
  define rs where "rs = filter (\<lambda>r. \<not> stripped r) (runes cs)"
  define out where "out = concat (map encode_rune rs)"
  have "ValidString cs"
    using ToValidUTF8_valid by (simp add: cs_def)
  then have sc: "\<forall>r \<in> set rs. scalar r \<and> \<not> stripped r"
    using valid_runes [of cs] by (simp add: rs_def)
  have sf: "SanitizeField s maxLen = of_codes (if maxLen < int (length out) then take (cut_back out (nat maxLen)) out else out)"
    using assms by (simp add: SanitizeField_def Let_def out_def rs_def cs_def)
  show thesis
  proof (cases "maxLen < int (length out)")
    case True
    then have "nat maxLen < length (concat (map encode_rune rs))"
      using assms by (simp add: out_def nat_less_iff)
    then obtain k where k: "take (cut_back out (nat maxLen)) out = concat (map encode_rune (take k rs))"
      using cut_back_runes unfolding out_def by blast
    have eq: "SanitizeField s maxLen = of_codes (concat (map encode_rune (take k rs)))"
      using True sf k by simp
    have "length (take (cut_back out (nat maxLen)) out) \<le> nat maxLen"
      using cut_back_le [of out "nat maxLen"] by simp
    then have "int (length (SanitizeField s maxLen)) \<le> maxLen"
      unfolding eq k using assms by simp
    moreover have "codes (SanitizeField s maxLen) = concat (map encode_rune (take k rs))"
      unfolding eq by (rule codes_of_codes [OF encode_lt])
    moreover have "\<forall>r \<in> set (take k rs). scalar r \<and> \<not> stripped r"
      using sc by (meson in_set_takeD)
    ultimately show thesis
      using that by blast
  next
    case False
    then have eq: "SanitizeField s maxLen = of_codes (concat (map encode_rune rs))"
      using sf by (simp add: out_def)
    have "codes (SanitizeField s maxLen) = concat (map encode_rune rs)"
      unfolding eq by (rule codes_of_codes [OF encode_lt])
    moreover have "int (length (SanitizeField s maxLen)) \<le> maxLen"
      unfolding eq using False by (simp add: out_def)
    ultimately show thesis
      using that sc by blast
  qed
qed

lemma sanitized_safe:
  "int (length (SanitizeField s maxLen)) \<le> max 0 maxLen \<and> ValidString (codes (SanitizeField s maxLen)) \<and>
   list_all (\<lambda>b. 0x20 \<le> b \<and> b \<noteq> 0x7F) (codes (SanitizeField s maxLen)) \<and>
   list_all (\<lambda>r. \<not> stripped r) (runes (codes (SanitizeField s maxLen)))"
proof (cases "0 < maxLen")
  case True
  then obtain rs where rs: "codes (SanitizeField s maxLen) = concat (map encode_rune rs)"
    "\<forall>r \<in> set rs. scalar r \<and> \<not> stripped r" "int (length (SanitizeField s maxLen)) \<le> maxLen"
    by (rule SanitizeField_runes)
  then have "ValidString (concat (map encode_rune rs))" "runes (concat (map encode_rune rs)) = rs"
    using valid_concat runes_concat by blast+
  moreover have "\<forall>b \<in> set (concat (map encode_rune rs)). 0x20 \<le> b \<and> b \<noteq> 0x7F"
    using rs(2) encode_clean by fastforce
  ultimately have "ValidString (concat (map encode_rune rs))" "runes (concat (map encode_rune rs)) = rs"
    "list_all (\<lambda>b. 0x20 \<le> b \<and> b \<noteq> 0x7F) (concat (map encode_rune rs))"
    by (simp_all add: list_all_iff)
  with rs show ?thesis
    by (simp add: list_all_iff)
next
  case False
  then show ?thesis
    by (simp add: SanitizeField_def codes_def ValidString.simps runes.simps)
qed

section \<open>Properties\<close>

text \<open>Whatever bytes it is given, the sanitiser returns valid UTF-8 within the byte budget, without any
  byte below space or DEL and without any C1 control character, so no line break or other record
  boundary can be smuggled into the event log.\<close>

theorem sanitized_is_safe:
  "int (length (SanitizeField s maxLen)) \<le> max 0 maxLen \<and> ValidString (codes (SanitizeField s maxLen)) \<and>
   list_all (\<lambda>b. 0x20 \<le> b \<and> b \<noteq> 0x7F) (codes (SanitizeField s maxLen)) \<and>
   list_all (\<lambda>r. \<not> stripped r) (runes (codes (SanitizeField s maxLen)))"
  by (rule sanitized_safe)

text \<open>Sanitising leaves clean text alone: valid UTF-8 without control characters that fits the budget is
  returned unchanged, so sanitising twice is sanitising once.\<close>

theorem sanitize_keeps_clean:
  "(ValidString (codes s) \<longrightarrow> list_all (\<lambda>r. \<not> stripped r) (runes (codes s)) \<longrightarrow> int (length s) \<le> maxLen \<longrightarrow>
     SanitizeField s maxLen = s) \<and>
   SanitizeField (SanitizeField s maxLen) maxLen = SanitizeField s maxLen"
proof -
  have keep: "SanitizeField s maxLen = s"
    if "ValidString (codes s)" "list_all (\<lambda>r. \<not> stripped r) (runes (codes s))" "int (length s) \<le> max 0 maxLen" for s
  proof (cases "0 < maxLen")
    case True
    have "filter (\<lambda>r. \<not> stripped r) (runes (codes s)) = runes (codes s)"
      using that(2) by (simp add: filter_id_conv list_all_iff)
    then show ?thesis
      using True that(1,3) valid_runes [OF that(1)] by (simp add: SanitizeField_def Let_def)
  next
    case False
    then show ?thesis
      using that(3) by (simp add: SanitizeField_def)
  qed
  have "SanitizeField (SanitizeField s maxLen) maxLen = SanitizeField s maxLen"
    using sanitized_safe [of s maxLen] by (intro keep) auto
  with keep [of s] show ?thesis
    by auto
qed

theorem sanitize_keeps_clean_witness:
  "SanitizeField ''curl -s /x'' 16 = ''curl -s /x''"
proof -
  have "ValidString (codes ''curl -s /x'')" "list_all (\<lambda>r. \<not> stripped r) (runes (codes ''curl -s /x''))"
    by code_simp+
  then show ?thesis
    using sanitize_keeps_clean [of "''curl -s /x''" 16] by simp
qed

end
