(* ===== verification/DnsWire.thy ===== *)
theory DnsWire
  imports GoText
begin

text \<open>
  The DNS response parser (\<^verbatim>\<open>internal/agent/dns_wire.go\<close>). A name is read with compression pointers,
  at most \<open>dnsNameMaxPointerDepth\<close> of them and at most \<open>dnsNameMaxLabelSteps\<close> labels between two;
  the set of visited pointer targets is passed down, since a caller returns as soon as the
  recursive call does.
\<close>

definition dnsNameMaxPointerDepth :: nat where "dnsNameMaxPointerDepth = 32"
definition dnsNameMaxLabelSteps :: nat where "dnsNameMaxLabelSteps = 128"
definition dnsMinRRSize :: nat where "dnsMinRRSize = 4"

record ipv4DNSAnswer =
  ans_name :: string
  ans_ttl :: "32 word"

fun join_with :: "string \<Rightarrow> string list \<Rightarrow> string" where
  "join_with sep [] = []"
| "join_with sep [l] = l"
| "join_with sep (l # ls) = l @ sep @ join_with sep ls"

definition joinDNSLabels :: "string list \<Rightarrow> string" where
  "joinDNSLabels labels = join_with ''.'' labels"

function readDNSNameSafe ::
  "bytes \<Rightarrow> nat \<Rightarrow> nat list \<Rightarrow> nat \<Rightarrow> nat \<Rightarrow> string list \<Rightarrow> (string \<times> nat) option" where
  "readDNSNameSafe packet off visited depth step labels =
     (if dnsNameMaxPointerDepth < depth then None
      else if dnsNameMaxLabelSteps \<le> step then None
      else if length packet \<le> off then None
      else let b = packet ! off; off1 = Suc off in
        if b = 0 then Some (joinDNSLabels labels, off1)
        else if b AND 0xC0 = 0xC0 then
          (if length packet \<le> off1 then None
           else let ptr = unat (b AND 0x3F) * 256 + unat (packet ! off1) in
             if length packet \<le> ptr then None
             else if ptr \<in> set visited then None
             else (case readDNSNameSafe packet ptr (ptr # visited) (Suc depth) 0 [] of None \<Rightarrow> None
               | Some (suf, _) \<Rightarrow> if labels = [] then Some (suf, Suc off1)
                 else Some (joinDNSLabels labels @ ''.'' @ suf, Suc off1)))
        else if 63 < unat b \<or> length packet < off1 + unat b then None
        else readDNSNameSafe packet (off1 + unat b) visited depth (Suc step)
               (labels @ [bstr (take (unat b) (drop off1 packet))]))"
  by pat_completeness auto
termination
  by (relation "measures [\<lambda>(_, _, _, depth, _, _). 33 - depth, \<lambda>(_, _, _, _, step, _). 128 - step]")
    (auto simp: dnsNameMaxPointerDepth_def dnsNameMaxLabelSteps_def)

declare readDNSNameSafe.simps [simp del]

definition readDNSName :: "bytes \<Rightarrow> nat \<Rightarrow> (string \<times> nat) option" where
  "readDNSName packet off = readDNSNameSafe packet off [] 0 0 []"

fun skip_questions :: "bytes \<Rightarrow> nat \<Rightarrow> nat \<Rightarrow> nat option" where
  "skip_questions packet 0 pos = Some pos"
| "skip_questions packet (Suc n) pos = (case readDNSName packet pos of None \<Rightarrow> None
     | Some (_, next) \<Rightarrow> if length packet < next + 4 then None else skip_questions packet n (next + 4))"

type_synonym answers = "(bytes \<times> ipv4DNSAnswer) list"

definition note_answer :: "bytes \<Rightarrow> string \<Rightarrow> 32 word \<Rightarrow> answers \<Rightarrow> answers" where
  "note_answer ip name ttl out = (case map_of out ip of
     None \<Rightarrow> AList.update ip \<lparr>ans_name = name, ans_ttl = ttl\<rparr> out
   | Some prev \<Rightarrow> if length name < length (ans_name prev)
       then AList.update ip \<lparr>ans_name = name, ans_ttl = ttl\<rparr> out else out)"

fun read_answers :: "bytes \<Rightarrow> nat \<Rightarrow> nat \<Rightarrow> answers \<Rightarrow> answers" where
  "read_answers packet 0 pos out = out"
| "read_answers packet (Suc n) pos out = (case readDNSName packet pos of None \<Rightarrow> out
     | Some (name, pos1) \<Rightarrow>
       if length packet < pos1 + 10 then out
       else let typ = be16_at packet pos1; ttl = be32_at packet (pos1 + 4);
                rdlength = be16_at packet (pos1 + 8); pos2 = pos1 + 10 in
         if length packet < pos2 + rdlength then out
         else read_answers packet n (pos2 + rdlength)
           (if typ = 1 \<and> rdlength = 4 then note_answer (take 4 (drop pos2 packet)) name ttl out else out))"

definition parseDNSResponseIPv4 :: "bytes \<Rightarrow> answers" where
  "parseDNSResponseIPv4 packet =
     (if length packet < 12 then []
      else if (packet ! 2) AND 0x80 = 0 then []
      else let qdcount = be16_at packet 4; ancount = be16_at packet 6 in
        if ancount = 0 then []
        else let maxRR = length packet div dnsMinRRSize in
          if maxRR < qdcount \<or> maxRR < ancount then []
          else (case skip_questions packet qdcount 12 of None \<Rightarrow> []
            | Some pos \<Rightarrow> read_answers packet ancount pos []))"

section \<open>Bounds\<close>

text \<open>A name that is read ends inside the packet, after the place where reading started.\<close>

lemma readDNSNameSafe_bounds:
  "readDNSNameSafe packet off visited depth step labels = Some (name, next) \<Longrightarrow>
   off < next \<and> next \<le> length packet"
proof (induction packet off visited depth step labels arbitrary: name "next" rule: readDNSNameSafe.induct)
  case (1 packet off visited depth step labels)
  from "1.prems" show ?case
    unfolding readDNSNameSafe.simps [of packet off]
    using "1.IH"(2) by (fastforce simp: Let_def split: if_splits option.splits)
qed

lemma readDNSName_bounds: "readDNSName packet off = Some (name, next) \<Longrightarrow> off < next \<and> next \<le> length packet"
  unfolding readDNSName_def by (rule readDNSNameSafe_bounds)

lemma note_answer_wf: "wf_keys 4 out \<Longrightarrow> length ip = 4 \<Longrightarrow> wf_keys 4 (note_answer ip n t out)"
  by (auto simp: note_answer_def wf_keys_update split: option.splits)

lemma read_answers_wf: "wf_keys 4 out \<Longrightarrow> wf_keys 4 (read_answers p n pos out)"
proof (induction p n pos out rule: read_answers.induct)
  case (2 p n pos out)
  show ?case
  proof (cases "readDNSName p pos")
    case (Some r)
    then obtain name pos1 where r: "readDNSName p pos = Some (name, pos1)"
      by (cases r) auto
    show ?thesis
    proof (cases "length p < pos1 + 10 \<or> length p < pos1 + 10 + be16_at p (pos1 + 8)")
      case False
      then have "length (take 4 (drop (pos1 + 10) p)) = 4" if "be16_at p (pos1 + 8) = 4"
        using that by auto
      with note_answer_wf [OF "2.prems"] "2.IH" [OF r] "2.prems" r False show ?thesis
        by (auto simp: Let_def)
    qed (use r "2.prems" in \<open>auto simp: Let_def\<close>)
  qed (use "2.prems" in simp)
qed simp

lemma parseDNSResponseIPv4_wf: "wf_keys 4 (parseDNSResponseIPv4 p)"
  by (auto simp: parseDNSResponseIPv4_def Let_def read_answers_wf split: option.splits)

section \<open>Round trip\<close>

text \<open>The wire form of an uncompressed name, and of a message with its questions and its A records.\<close>

definition wire_label :: "string \<Rightarrow> bytes" where
  "wire_label l = of_nat (length l) # sbytes l"

definition wire_name :: "string list \<Rightarrow> bytes" where
  "wire_name ls = concat (map wire_label ls) @ [0]"

definition wf_name :: "string list \<Rightarrow> bool" where
  "wf_name ls \<longleftrightarrow> length ls < dnsNameMaxLabelSteps \<and> (\<forall>l \<in> set ls. l \<noteq> [] \<and> length l \<le> 63)"

lemma label_byte:
  assumes "0 < n" "n \<le> 63"
  shows "(of_nat n :: byte) \<noteq> 0" "(of_nat n :: byte) AND 0xC0 \<noteq> 0xC0" "unat (of_nat n :: byte) = n"
proof -
  show u: "unat (of_nat n :: byte) = n"
    using assms by simp
  then show "(of_nat n :: byte) \<noteq> 0"
    using assms by (metis less_numeral_extra(3) unat_0)
  show "(of_nat n :: byte) AND 0xC0 \<noteq> 0xC0"
  proof
    assume "(of_nat n :: byte) AND 0xC0 = 0xC0"
    then have "bit ((of_nat n :: byte) AND 0xC0) 7 = bit (0xC0 :: byte) 7"
      by simp
    then have "bit (of_nat n :: byte) 7"
      by (simp add: bit_and_iff)
    then have "bit (unat (of_nat n :: byte)) 7"
      by (simp add: bit_unsigned_iff)
    with u assms show False
      by (simp add: bit_iff_odd)
  qed
qed

lemma readDNSNameSafe_wire:
  assumes "depth \<le> dnsNameMaxPointerDepth" "step + length ls < dnsNameMaxLabelSteps"
    "\<forall>l \<in> set ls. l \<noteq> [] \<and> length l \<le> 63"
  shows "readDNSNameSafe (pre @ wire_name ls @ post) (length pre) visited depth step labels =
    Some (joinDNSLabels (labels @ ls), length pre + length (wire_name ls))"
  using assms
proof (induction ls arbitrary: pre step labels)
  case Nil
  then show ?case
    by (subst readDNSNameSafe.simps) (simp add: wire_name_def)
next
  case (Cons l ls)
  have l: "0 < length l" "length l \<le> 63"
    using Cons.prems(3) by auto
  have p: "pre @ wire_name (l # ls) @ post = (pre @ wire_label l) @ wire_name ls @ post"
    by (simp add: wire_name_def)
  have "readDNSNameSafe ((pre @ wire_label l) @ wire_name ls @ post) (length (pre @ wire_label l)) visited
      depth (Suc step) (labels @ [l]) =
    Some (joinDNSLabels ((labels @ [l]) @ ls), length (pre @ wire_label l) + length (wire_name ls))"
    using Cons.prems by (intro Cons.IH) auto
  then show ?case
    unfolding p using Cons.prems(1,2) label_byte [OF l]
    by (subst readDNSNameSafe.simps)
      (use l in \<open>simp add: wire_label_def wire_name_def nth_append Let_def add.assoc\<close>)
qed

lemma readDNSName_wire:
  "wf_name ls \<Longrightarrow> readDNSName (pre @ wire_name ls @ post) (length pre) =
     Some (joinDNSLabels ls, length pre + length (wire_name ls))"
  unfolding readDNSName_def wf_name_def
  using readDNSNameSafe_wire [of 0 0 ls pre post "[]" "[]"] by (simp add: dnsNameMaxPointerDepth_def)

section \<open>Properties\<close>

text \<open>C36. A name written label by label anywhere in a packet is read back as its dotted form, and reading
  continues right behind it.\<close>

theorem dns_name_roundtrip:
  "wf_name ls \<Longrightarrow> readDNSName (pre @ wire_name ls @ post) (length pre) =
     Some (joinDNSLabels ls, length pre + length (wire_name ls))"
  by (rule readDNSName_wire)

theorem dns_name_roundtrip_witness:
  "readDNSName ([7, 7] @ wire_name [''api'', ''github'', ''com''] @ [0, 1]) 2 = Some (''api.github.com'', 18)"
proof -
  have "wf_name [''api'', ''github'', ''com'']"
    by code_simp
  from dns_name_roundtrip [OF this, of "[7, 7]" "[0, 1]"]
  have "readDNSName ([7, 7] @ wire_name [''api'', ''github'', ''com''] @ [0, 1]) 2 =
      Some (joinDNSLabels [''api'', ''github'', ''com''], 2 + length (wire_name [''api'', ''github'', ''com'']))"
    by (simp add: numeral_2_eq_2)
  also have "\<dots> = Some (''api.github.com'', 18)"
    by code_simp
  finally show ?thesis .
qed

text \<open>On any bytes, compression loops and truncations included, reading a name ends; when it succeeds it
  has moved forward and stayed inside the packet.\<close>

theorem dns_name_in_bounds:
  "readDNSName packet off = Some (name, next) \<Longrightarrow> off < next \<and> next \<le> length packet"
  unfolding readDNSName_def by (rule readDNSNameSafe_bounds)

theorem dns_name_in_bounds_witness:
  "readDNSName [0xC0, 2, 1, 97, 0] 0 = Some (''a'', 2) \<and> readDNSName [0xC0, 0] 0 = None \<and> (2 :: nat) \<le> length [0xC0 :: byte, 2, 1, 97, 0]"
proof -
  have r: "readDNSName [0xC0, 2, 1, 97, 0] 0 = Some (''a'', 2)" "readDNSName [0xC0, 0] 0 = None"
    by code_simp+
  with dns_name_in_bounds [OF r(1)] show ?thesis
    by simp
qed

end
