(* ===== verification/DnsCache.thy ===== *)
theory DnsCache
  imports LpmMaps DnsWire
begin

text \<open>
  The sniffed-DNS owner cache (\<^verbatim>\<open>internal/agent/dns_cache.go\<close>) with the eBPF \<^verbatim>\<open>dns_cache\<close> maps it
  mirrors into, and the drift watch over the compiled allowlist (\<^verbatim>\<open>internal/agent/dns_drift.go\<close>).

  The clock is an argument in nanoseconds; \<open>unix\<close> is Go's \<^verbatim>\<open>Time.Unix\<close>. Go ranges over a map in an
  unspecified order: \<open>iterE\<close> and \<open>iterA\<close> stand for the order met by one call, and the theorems
  only use that it lists every entry once. The mutex of the cache serialises the operations, so
  each is one transition of the state.
\<close>

definition dnsMaxEntries :: nat where "dnsMaxEntries = 8192"
definition dnsMaxTTLSec :: "32 word" where "dnsMaxTTLSec = 3600"
definition dnsDefaultTTL :: "32 word" where "dnsDefaultTTL = 300"
definition dnsMinTTLSec :: "32 word" where "dnsMinTTLSec = 1"

record dnsEntry =
  e_name :: string
  e_expires :: int

record 'o dns_cache =
  c_entries :: "(bytes \<times> dnsEntry) list"
  c_max :: nat
  c_maps :: "'o option list"
  c_failures :: "nat option"

text \<open>\<open>c_failures\<close> is the callback \<^verbatim>\<open>onBPFFailure\<close>: \<open>None\<close> when it is nil, and otherwise the number of
  calls it received.\<close>

definition NewDNSCache :: "'o dns_cache" where
  "NewDNSCache = \<lparr>c_entries = [], c_max = dnsMaxEntries, c_maps = [], c_failures = None\<rparr>"

definition SetBPFMaps :: "'o option list \<Rightarrow> 'o dns_cache \<Rightarrow> 'o dns_cache" where
  "SetBPFMaps maps c = c\<lparr>c_maps := maps\<rparr>"

definition SetBPFFailureCallback :: "nat option \<Rightarrow> 'o dns_cache \<Rightarrow> 'o dns_cache" where
  "SetBPFFailureCallback cb c = c\<lparr>c_failures := cb\<rparr>"

definition dnsNameForBPF :: "string \<Rightarrow> string \<times> bool" where
  "dnsNameForBPF name = (if length name \<le> dnsBPFNameMax then (name, False)
     else (take dnsBPFNameMax name, True))"

definition unix :: "int \<Rightarrow> int" where
  "unix now = now div 1000000000"

definition ttlToExpiry :: "32 word \<Rightarrow> int \<Rightarrow> int" where
  "ttlToExpiry ttl now =
    (let sec = ttl;
         sec = (if sec = 0 then dnsDefaultTTL else sec);
         sec = (if dnsMaxTTLSec < sec then dnsMaxTTLSec else sec);
         sec = (if sec < dnsMinTTLSec then dnsMinTTLSec else sec)
     in unix (now + uint sec * 1000000000))"

type_synonym 'o owner_ops = "('o, bytes, bytes) map_ops"

fun delete_maps :: "'o owner_ops \<Rightarrow> bytes \<Rightarrow> 'o option list \<Rightarrow> 'o option list \<times> nat" where
  "delete_maps ops ip [] = ([], 0)"
| "delete_maps ops ip (None # ms) = (let (ms', n) = delete_maps ops ip ms in (None # ms', n))"
| "delete_maps ops ip (Some o1 # ms) = (let (ms', n) = delete_maps ops ip ms in
     (case m_delete ops o1 ip of Deleted o2 \<Rightarrow> (Some o2 # ms', n)
      | KeyNotExist \<Rightarrow> (Some o1 # ms', n) | DeleteFailed \<Rightarrow> (Some o1 # ms', Suc n)))"

fun update_maps :: "'o owner_ops \<Rightarrow> bytes \<Rightarrow> bytes \<Rightarrow> 'o option list \<Rightarrow> 'o option list \<times> nat" where
  "update_maps ops ip v [] = ([], 0)"
| "update_maps ops ip v (None # ms) = (let (ms', n) = update_maps ops ip v ms in (None # ms', n))"
| "update_maps ops ip v (Some o1 # ms) = (let (ms', n) = update_maps ops ip v ms in
     (case m_update ops o1 ip v of Some o2 \<Rightarrow> (Some o2 # ms', n) | None \<Rightarrow> (Some o1 # ms', Suc n)))"

definition after_maps :: "'o option list \<times> nat \<Rightarrow> 'o dns_cache \<Rightarrow> 'o dns_cache" where
  "after_maps r c = c\<lparr>c_maps := fst r, c_failures := map_option (\<lambda>n. n + snd r) (c_failures c)\<rparr>"

definition deleteBPFMapsLocked :: "'o owner_ops \<Rightarrow> bytes \<Rightarrow> 'o dns_cache \<Rightarrow> 'o dns_cache" where
  "deleteBPFMapsLocked ops ip c = after_maps (delete_maps ops ip (c_maps c)) c"

definition drop_entry :: "'o owner_ops \<Rightarrow> bytes \<Rightarrow> 'o dns_cache \<Rightarrow> 'o dns_cache" where
  "drop_entry ops k c = deleteBPFMapsLocked ops k (c\<lparr>c_entries := AList.delete k (c_entries c)\<rparr>)"

type_synonym entries_order = "(bytes \<times> dnsEntry) list \<Rightarrow> (bytes \<times> dnsEntry) list"

definition purgeExpiredLocked :: "'o owner_ops \<Rightarrow> entries_order \<Rightarrow> int \<Rightarrow> 'o dns_cache \<Rightarrow> 'o dns_cache" where
  "purgeExpiredLocked ops iterE nowUnix c =
     fold (\<lambda>(k, e) c. if e_expires e \<le> nowUnix then drop_entry ops k c else c) (iterE (c_entries c)) c"

definition trimLocked :: "'o owner_ops \<Rightarrow> entries_order \<Rightarrow> int \<Rightarrow> 'o dns_cache \<Rightarrow> 'o dns_cache" where
  "trimLocked ops iterE now c =
    (if length (c_entries c) \<le> c_max c then c
     else let c1 = purgeExpiredLocked ops iterE (unix now) c in
       if length (c_entries c1) \<le> c_max c1 then c1
       else let excess = length (c_entries c1) - c_max c1 in
         fold (\<lambda>(k, e). drop_entry ops k) (take excess (iterE (c_entries c1))) c1)"

definition bpf_owner :: "string \<Rightarrow> bytes" where
  "bpf_owner name = copy_into 256 (sbytes (fst (dnsNameForBPF name)))"

definition put_entry :: "bytes \<Rightarrow> string \<Rightarrow> int \<Rightarrow> 'o dns_cache \<Rightarrow> 'o dns_cache" where
  "put_entry ip name exp c =
     c\<lparr>c_entries := AList.update ip \<lparr>e_name = name, e_expires = exp\<rparr> (c_entries c)\<rparr>"

definition set_owner :: "'o owner_ops \<Rightarrow> bytes \<Rightarrow> string \<Rightarrow> int \<Rightarrow> 'o dns_cache \<Rightarrow> 'o dns_cache" where
  "set_owner ops ip name exp c =
     after_maps (update_maps ops ip (bpf_owner name) (c_maps c)) (put_entry ip name exp c)"

definition add_answer ::
  "'o owner_ops \<Rightarrow> (string \<Rightarrow> string) \<Rightarrow> int \<Rightarrow> bytes \<times> ipv4DNSAnswer \<Rightarrow> 'o dns_cache \<Rightarrow> 'o dns_cache" where
  "add_answer ops ul now a c =
    (let ip = fst a; name = toLower ul (ans_name (snd a)); exp = ttlToExpiry (ans_ttl (snd a)) now in
     case map_of (c_entries c) ip of
       None \<Rightarrow> set_owner ops ip name exp c
     | Some prev \<Rightarrow>
         if unix now < e_expires prev \<and> name = e_name prev then put_entry ip name exp c
         else if unix now < e_expires prev \<and> length (e_name prev) < length name then c
         else set_owner ops ip name exp c)"

definition AddFromPacket ::
  "'o owner_ops \<Rightarrow> (string \<Rightarrow> string) \<Rightarrow> entries_order \<Rightarrow> (answers \<Rightarrow> answers) \<Rightarrow> int \<Rightarrow> bytes \<Rightarrow>
   'o dns_cache \<Rightarrow> 'o dns_cache" where
  "AddFromPacket ops ul iterE iterA now packet c =
    (let m = parseDNSResponseIPv4 packet in
     if m = [] then c
     else trimLocked ops iterE now
       (fold (add_answer ops ul now) (iterA m) (purgeExpiredLocked ops iterE (unix now) c)))"

definition LookupProvenance :: "int \<Rightarrow> bytes \<Rightarrow> 'o dns_cache \<Rightarrow> string \<times> string" where
  "LookupProvenance now ip c = (case To4 ip of None \<Rightarrow> ('''', ''unknown'')
     | Some k \<Rightarrow> (case map_of (c_entries c) k of None \<Rightarrow> ('''', ''unknown'')
       | Some e \<Rightarrow> if e_expires e \<le> unix now then ('''', ''unknown'') else (e_name e, ''dns_observed'')))"

definition Lookup :: "int \<Rightarrow> bytes \<Rightarrow> 'o dns_cache \<Rightarrow> string" where
  "Lookup now ip c = fst (LookupProvenance now ip c)"

section \<open>Time to live\<close>

text \<open>An entry is live for at least one second and at most an hour.\<close>

lemma ttlToExpiry_bounds:
  "unix now + 1 \<le> ttlToExpiry ttl now" "ttlToExpiry ttl now \<le> unix now + 3600"
proof -
  have "uint s \<le> 3600 \<and> 1 \<le> uint s \<longrightarrow> unix now + 1 \<le> unix (now + uint s * 1000000000) \<and>
      unix (now + uint s * 1000000000) \<le> unix now + 3600" for s :: "32 word"
    by (simp add: unix_def)
  moreover have "(1::int) \<le> uint s" if "s \<noteq> 0" for s :: "32 word"
    using that word_neq_0_conv [of s] by (simp add: word_less_def)
  moreover have "uint s \<le> 3600" if "\<not> 3600 < s" for s :: "32 word"
    using that by (simp add: word_less_def not_less)
  ultimately show "unix now + 1 \<le> ttlToExpiry ttl now" "ttlToExpiry ttl now \<le> unix now + 3600"
    by (auto simp: ttlToExpiry_def Let_def dnsDefaultTTL_def dnsMaxTTLSec_def dnsMinTTLSec_def)
qed

section \<open>Entries\<close>

definition cache_inv :: "'o dns_cache \<Rightarrow> bool" where
  "cache_inv c \<longleftrightarrow> wf_keys 4 (c_entries c) \<and> length (c_entries c) \<le> c_max c"

lemma after_maps_entries [simp]:
  "c_entries (after_maps r c) = c_entries c" "c_max (after_maps r c) = c_max c"
  by (simp_all add: after_maps_def)

lemma drop_entry_entries [simp]:
  "c_entries (drop_entry ops k c) = AList.delete k (c_entries c)" "c_max (drop_entry ops k c) = c_max c"
  by (simp_all add: drop_entry_def deleteBPFMapsLocked_def)

lemma set_owner_entries [simp]:
  "c_entries (set_owner ops ip name exp c) =
     AList.update ip \<lparr>e_name = name, e_expires = exp\<rparr> (c_entries c)"
  "c_max (set_owner ops ip name exp c) = c_max c"
  by (simp_all add: set_owner_def put_entry_def)

lemma fold_drop_entries:
  "c_entries (fold (\<lambda>(k, e). drop_entry ops k) es c) =
     filter (\<lambda>x. fst x \<notin> fst ` set es) (c_entries c)"
  "c_max (fold (\<lambda>(k, e). drop_entry ops k) es c) = c_max c"
proof (induction es arbitrary: c)
  case (Cons x es)
  { case 1 show ?case
      using Cons.IH(1) by (cases x) (auto simp: AList.delete_eq intro!: filter_cong)
  next
    case 2 show ?case
      using Cons.IH(2) by (cases x) simp }
qed simp_all

lemma purge_as_drops:
  "purgeExpiredLocked ops iterE t c =
     fold (\<lambda>(k, e). drop_entry ops k) (filter (\<lambda>x. e_expires (snd x) \<le> t) (iterE (c_entries c))) c"
proof -
  have "fold (\<lambda>(k, e) c. if e_expires e \<le> t then drop_entry ops k c else c) es c =
    fold (\<lambda>(k, e). drop_entry ops k) (filter (\<lambda>x. e_expires (snd x) \<le> t) es) c" for es c
    by (induction es arbitrary: c) auto
  then show ?thesis
    by (simp add: purgeExpiredLocked_def)
qed

lemma wf_map_unique: "wf_map m \<Longrightarrow> x \<in> set m \<Longrightarrow> y \<in> set m \<Longrightarrow> fst x = fst y \<Longrightarrow> x = y"
  by (metis eq_key_imp_eq_value prod.collapse)

text \<open>Purging keeps exactly the live entries, whatever the order.\<close>

lemma purge_entries:
  assumes "iterates iterE" "wf_map (c_entries c)"
  shows "c_entries (purgeExpiredLocked ops iterE t c) = filter (\<lambda>x. t < e_expires (snd x)) (c_entries c)"
    "c_max (purgeExpiredLocked ops iterE t c) = c_max c"
proof -
  show "c_max (purgeExpiredLocked ops iterE t c) = c_max c"
    by (simp add: purge_as_drops fold_drop_entries)
  have "fst x \<notin> fst ` {y \<in> set (c_entries c). e_expires (snd y) \<le> t} \<longleftrightarrow> t < e_expires (snd x)"
    if "x \<in> set (c_entries c)" for x
    using that wf_map_unique [OF assms(2) that] by (fastforce simp: not_le image_iff)
  then show "c_entries (purgeExpiredLocked ops iterE t c) = filter (\<lambda>x. t < e_expires (snd x)) (c_entries c)"
    by (simp add: purge_as_drops fold_drop_entries iterates_set [OF assms(1)] cong: filter_cong)
qed

lemma length_filter_take:
  assumes "wf_map m" "mset es = mset m"
  shows "length (filter (\<lambda>x. fst x \<notin> fst ` set (take n es)) m) = length m - n"
proof -
  let ?P = "\<lambda>x. fst x \<notin> fst ` set (take n es)"
  have d: "wf_map es"
    using assms by (metis mset_eq_imp_distinct_iff mset_map)
  have "set (map fst (take n es)) \<inter> set (map fst (drop n es)) = {}"
    using d by (metis append_take_drop_id distinct_append map_append)
  then have "\<forall>x \<in> set (drop n es). ?P x"
    by auto
  then have "filter ?P (take n es @ drop n es) = drop n es"
    by (subst filter_append) (simp add: filter_empty_conv)
  then have "length (filter ?P es) = length es - n"
    by simp
  moreover have "mset (filter ?P m) = mset (filter ?P es)"
    using assms(2) by simp
  ultimately show ?thesis
    using assms(2) by (metis mset_eq_length)
qed

lemma trim_entries:
  assumes "iterates iterE" "wf_map (c_entries c)"
  shows "length (c_entries (trimLocked ops iterE now c)) \<le> c_max c"
    "c_max (trimLocked ops iterE now c) = c_max c"
    "\<exists>P. c_entries (trimLocked ops iterE now c) = filter P (c_entries c)"
proof -
  let ?c1 = "purgeExpiredLocked ops iterE (unix now) c"
  note p = purge_entries [OF assms, of ops "unix now"]
  have w: "wf_map (c_entries ?c1)"
    unfolding p by (rule wf_map_filter [OF assms(2)])
  have it: "mset (iterE (c_entries ?c1)) = mset (c_entries ?c1)"
    using assms(1) by (simp add: iterates_def)
  show "length (c_entries (trimLocked ops iterE now c)) \<le> c_max c"
    using length_filter_take [OF w it] p(2) by (simp add: trimLocked_def Let_def fold_drop_entries)
  show "c_max (trimLocked ops iterE now c) = c_max c"
    using p(2) by (simp add: trimLocked_def Let_def fold_drop_entries)
  show "\<exists>P. c_entries (trimLocked ops iterE now c) = filter P (c_entries c)"
  proof (cases "length (c_entries c) \<le> c_max c")
    case True
    then show ?thesis
      by (intro exI [of _ "\<lambda>_. True"]) (simp add: trimLocked_def)
  next
    case False
    then show ?thesis
      by (auto simp: trimLocked_def Let_def fold_drop_entries p)
  qed
qed

lemma put_entry_entries [simp]:
  "c_entries (put_entry ip name exp c) =
     AList.update ip \<lparr>e_name = name, e_expires = exp\<rparr> (c_entries c)"
  "c_max (put_entry ip name exp c) = c_max c"
  by (simp_all add: put_entry_def)

text \<open>What one answer makes of the entry it meets: a live entry with a strictly shorter owner stays,
  anything else is replaced.\<close>

definition merged_entry :: "(string \<Rightarrow> string) \<Rightarrow> int \<Rightarrow> ipv4DNSAnswer \<Rightarrow> dnsEntry option \<Rightarrow> dnsEntry" where
  "merged_entry ul now ans prev =
    (let new = \<lparr>e_name = toLower ul (ans_name ans), e_expires = ttlToExpiry (ans_ttl ans) now\<rparr> in
     case prev of None \<Rightarrow> new
     | Some p \<Rightarrow> if unix now < e_expires p \<and> length (e_name p) < length (e_name new) then p else new)"

lemma add_answer_entries:
  "map_of (c_entries (add_answer ops ul now a c)) =
     (map_of (c_entries c))(fst a \<mapsto> merged_entry ul now (snd a) (map_of (c_entries c) (fst a)))"
  "c_max (add_answer ops ul now a c) = c_max c"
  "wf_keys 4 (c_entries c) \<Longrightarrow> length (fst a) = 4 \<Longrightarrow> wf_keys 4 (c_entries (add_answer ops ul now a c))"
  "length (c_entries (add_answer ops ul now a c)) \<le> Suc (length (c_entries c))"
  by (auto simp: add_answer_def merged_entry_def Let_def update_conv' wf_keys_update
      length_alist_update_le map_upd_triv split: option.splits)

lemma fold_answers_entries:
  assumes "wf_keys 4 as" "wf_keys 4 (c_entries c)"
  shows "wf_keys 4 (c_entries (fold (add_answer ops ul now) as c))"
    "c_max (fold (add_answer ops ul now) as c) = c_max c"
    "length (c_entries (fold (add_answer ops ul now) as c)) \<le> length (c_entries c) + length as"
    "map_of (c_entries (fold (add_answer ops ul now) as c)) ip =
      (case map_of as ip of None \<Rightarrow> map_of (c_entries c) ip
       | Some ans \<Rightarrow> Some (merged_entry ul now ans (map_of (c_entries c) ip)))"
proof -
  have "wf_keys 4 (c_entries (fold (add_answer ops ul now) as c)) \<and>
    c_max (fold (add_answer ops ul now) as c) = c_max c \<and>
    length (c_entries (fold (add_answer ops ul now) as c)) \<le> length (c_entries c) + length as \<and>
    map_of (c_entries (fold (add_answer ops ul now) as c)) ip =
      (case map_of as ip of None \<Rightarrow> map_of (c_entries c) ip
       | Some ans \<Rightarrow> Some (merged_entry ul now ans (map_of (c_entries c) ip)))"
    using assms
  proof (induction as arbitrary: c)
    case (Cons a as)
    have w: "wf_keys 4 as" "length (fst a) = 4" "map_of as (fst a) = None"
      using Cons.prems(1) by (auto simp: wf_keys_def map_of_eq_None_iff)
    note a = add_answer_entries(2,4) [where ops = ops and ul = ul and now = now and a = a and c = c]
    show ?case
      using Cons.IH [OF w(1) add_answer_entries(3) [OF Cons.prems(2) w(2)], of ops ul now] a w(3)
      by (cases a) (auto simp: add_answer_entries(1) split: option.splits)
  qed simp
  then show "wf_keys 4 (c_entries (fold (add_answer ops ul now) as c))"
    "c_max (fold (add_answer ops ul now) as c) = c_max c"
    "length (c_entries (fold (add_answer ops ul now) as c)) \<le> length (c_entries c) + length as"
    "map_of (c_entries (fold (add_answer ops ul now) as c)) ip =
      (case map_of as ip of None \<Rightarrow> map_of (c_entries c) ip
       | Some ans \<Rightarrow> Some (merged_entry ul now ans (map_of (c_entries c) ip)))"
    by blast+
qed

section \<open>The whole insertion\<close>

text \<open>The entry a packet leaves for an address, before any eviction: expired entries are gone, and
  an answer of the packet merges with what is left.\<close>

definition live_entry :: "int \<Rightarrow> 'o dns_cache \<Rightarrow> bytes \<Rightarrow> dnsEntry option" where
  "live_entry now c ip = (case map_of (c_entries c) ip of None \<Rightarrow> None
     | Some e \<Rightarrow> if unix now < e_expires e then Some e else None)"

definition packet_entry :: "(string \<Rightarrow> string) \<Rightarrow> int \<Rightarrow> bytes \<Rightarrow> 'o dns_cache \<Rightarrow> bytes \<Rightarrow> dnsEntry option" where
  "packet_entry ul now packet c ip = (case map_of (parseDNSResponseIPv4 packet) ip of
     None \<Rightarrow> live_entry now c ip
   | Some ans \<Rightarrow> Some (merged_entry ul now ans (live_entry now c ip)))"

lemma AddFromPacket_stored:
  fixes c :: "'o dns_cache"
  assumes it: "iterates iterE" "iterates iterA" and inv: "cache_inv c"
    and c1_def: "c1 = fold (add_answer ops ul now) (iterA (parseDNSResponseIPv4 packet))
      (purgeExpiredLocked ops iterE (unix now) c)"
  shows "wf_keys 4 (c_entries c1)" "c_max c1 = c_max c"
    "map_of (c_entries c1) = packet_entry ul now packet c"
    "length (c_entries c1) \<le> length (c_entries c) + length (parseDNSResponseIPv4 packet)"
proof -
  let ?p = "purgeExpiredLocked ops iterE (unix now) c" and ?as = "parseDNSResponseIPv4 packet"
  have wf: "wf_keys 4 (c_entries c)" "wf_map (c_entries c)"
    using inv by (simp_all add: cache_inv_def wf_keys_def)
  have as: "wf_keys 4 (iterA ?as)" "map_of (iterA ?as) = map_of ?as" "length (iterA ?as) = length ?as"
  proof -
    have "mset ?as = mset (iterA ?as)"
      using it(2) by (simp add: iterates_def)
    then show "wf_keys 4 (iterA ?as)"
      by (rule wf_keys_mset [OF _ parseDNSResponseIPv4_wf])
    show "map_of (iterA ?as) = map_of ?as"
      using iterates_map_of [OF it(2)] parseDNSResponseIPv4_wf [of packet] by (simp add: wf_keys_def)
  qed (rule iterates_length [OF it(2)])
  note p = purge_entries [OF it(1) wf(2), of ops "unix now"]
  have wp: "wf_keys 4 (c_entries ?p)"
    unfolding p by (rule wf_keys_filter [OF wf(1)])
  have live: "map_of (c_entries ?p) ip = live_entry now c ip" for ip
    using map_of_filter_wf [OF wf(2), of "\<lambda>x. unix now < e_expires (snd x)" ip]
    by (simp add: p live_entry_def split: option.splits)
  note f = fold_answers_entries [OF as(1) wp, of ops ul now]
  show "wf_keys 4 (c_entries c1)" "c_max c1 = c_max c"
    using f(1,2) p(2) by (simp_all add: c1_def)
  show "map_of (c_entries c1) = packet_entry ul now packet c"
    by (rule ext) (simp add: c1_def f(4) as(2) live packet_entry_def split: option.split)
  have "length (c_entries ?p) \<le> length (c_entries c)"
    by (simp add: p)
  with f(3) as(3) show "length (c_entries c1) \<le> length (c_entries c) + length ?as"
    unfolding c1_def by linarith
qed

lemma filter_submap: "wf_map m \<Longrightarrow> map_of (filter P m) k = None \<or> map_of (filter P m) k = map_of m k"
  by (auto simp: map_of_filter_wf split: option.splits)

lemma AddFromPacket_inv:
  assumes "iterates iterE" "iterates iterA" "cache_inv c"
  shows "cache_inv (AddFromPacket ops ul iterE iterA now packet c)"
    "c_max (AddFromPacket ops ul iterE iterA now packet c) = c_max c"
proof -
  let ?c1 = "fold (add_answer ops ul now) (iterA (parseDNSResponseIPv4 packet))
      (purgeExpiredLocked ops iterE (unix now) c)"
  note s = AddFromPacket_stored [OF assms refl, of ops ul now packet]
  have "wf_map (c_entries ?c1)"
    using s(1) by (simp add: wf_keys_def)
  note t = trim_entries [OF assms(1) this, of ops now]
  obtain P where "c_entries (trimLocked ops iterE now ?c1) = filter P (c_entries ?c1)"
    using t(3) by blast
  then have "wf_keys 4 (c_entries (trimLocked ops iterE now ?c1))"
    using wf_keys_filter [OF s(1)] by simp
  with t(1,2) s(2) assms(3) show "cache_inv (AddFromPacket ops ul iterE iterA now packet c)"
    "c_max (AddFromPacket ops ul iterE iterA now packet c) = c_max c"
    by (auto simp: AddFromPacket_def Let_def cache_inv_def)
qed

text \<open>After a packet with answers the entry of every address is the merged one, or was evicted; and
  nothing is evicted while the capacity holds the old entries and the answers.\<close>

lemma AddFromPacket_entry:
  assumes "iterates iterE" "iterates iterA" "cache_inv c" "parseDNSResponseIPv4 packet \<noteq> []"
  shows "map_of (c_entries (AddFromPacket ops ul iterE iterA now packet c)) ip
      \<in> {None, packet_entry ul now packet c ip}"
    "length (c_entries c) + length (parseDNSResponseIPv4 packet) \<le> c_max c \<Longrightarrow>
     map_of (c_entries (AddFromPacket ops ul iterE iterA now packet c)) ip = packet_entry ul now packet c ip"
proof -
  let ?c1 = "fold (add_answer ops ul now) (iterA (parseDNSResponseIPv4 packet))
      (purgeExpiredLocked ops iterE (unix now) c)"
  note s = AddFromPacket_stored [OF assms(1-3) refl, of ops ul now packet]
  have w: "wf_map (c_entries ?c1)"
    using s(1) by (simp add: wf_keys_def)
  have a: "AddFromPacket ops ul iterE iterA now packet c = trimLocked ops iterE now ?c1"
    using assms(4) by (simp add: AddFromPacket_def Let_def)
  show "map_of (c_entries (AddFromPacket ops ul iterE iterA now packet c)) ip
      \<in> {None, packet_entry ul now packet c ip}"
  proof -
    obtain P where "c_entries (trimLocked ops iterE now ?c1) = filter P (c_entries ?c1)"
      using trim_entries(3) [OF assms(1) w, of ops now] by blast
    with filter_submap [OF w, of P ip] show ?thesis
      unfolding a by (auto simp: s(3))
  qed
  show "map_of (c_entries (AddFromPacket ops ul iterE iterA now packet c)) ip = packet_entry ul now packet c ip"
    if "length (c_entries c) + length (parseDNSResponseIPv4 packet) \<le> c_max c"
    using that s(2-4) unfolding a by (simp add: trimLocked_def)
qed

section \<open>The kernel mirror\<close>

text \<open>The \<^verbatim>\<open>dns_cache\<close> maps are LRU hashes: the kernel may drop entries of its own accord, so a
  successful update promises only that nothing else appears. The contract \<open>owner_map\<close> states
  this weaker law; a map that meets \<open>bpf_map\<close> meets it.\<close>

locale owner_map =
  fixes invar :: "'o \<Rightarrow> bool"
    and ents :: "'o \<Rightarrow> (bytes \<times> bytes) list"
    and ops :: "'o owner_ops"
  assumes update_within: "invar m \<Longrightarrow> m_update ops m k v = Some m' \<Longrightarrow> invar m' \<and>
      set (ents m') \<subseteq> insert (k, v) {e \<in> set (ents m). fst e \<noteq> k}"
    and delete_within: "invar m \<Longrightarrow> m_delete ops m k = Deleted m' \<Longrightarrow> invar m' \<and>
      set (ents m') \<subseteq> {e \<in> set (ents m). fst e \<noteq> k}"
    and delete_absent: "invar m \<Longrightarrow> m_delete ops m k = KeyNotExist \<Longrightarrow> \<forall>e \<in> set (ents m). fst e \<noteq> k"
begin

text \<open>\<open>mirrors S c\<close>: every entry of every kernel map is the owner the cache holds for its address, or
  belongs to the seeded owners \<open>S\<close>.\<close>

definition maps_within :: "(bytes \<times> bytes) set \<Rightarrow> 'o option list \<Rightarrow> bool" where
  "maps_within A ms \<longleftrightarrow> (\<forall>m. Some m \<in> set ms \<longrightarrow> invar m \<and> set (ents m) \<subseteq> A)"

definition owners :: "'o dns_cache \<Rightarrow> (bytes \<times> bytes) set" where
  "owners c = {(ip, bpf_owner (e_name e)) |ip e. map_of (c_entries c) ip = Some e}"

definition mirrors :: "(bytes \<times> bytes) set \<Rightarrow> 'o dns_cache \<Rightarrow> bool" where
  "mirrors S c \<longleftrightarrow> maps_within (owners c \<union> S) (c_maps c)"

lemma maps_within_Cons [simp]:
  "maps_within A (mo # ms) \<longleftrightarrow>
    (case mo of None \<Rightarrow> True | Some m \<Rightarrow> invar m \<and> set (ents m) \<subseteq> A) \<and> maps_within A ms"
  by (auto simp: maps_within_def split: option.splits)

lemma maps_within_mono: "maps_within A ms \<Longrightarrow> A \<subseteq> B \<Longrightarrow> maps_within B ms"
  by (fastforce simp: maps_within_def)

lemma delete_maps_within:
  "maps_within A ms \<Longrightarrow> snd (delete_maps ops k ms) = 0 \<Longrightarrow>
   maps_within {e \<in> A. fst e \<noteq> k} (fst (delete_maps ops k ms))"
proof (induction ms)
  case (Cons mo ms)
  show ?case
  proof (cases mo)
    case (Some m)
    then show ?thesis
      using Cons delete_within [of m k] delete_absent [of m k]
      by (auto simp: Let_def case_prod_unfold split: del_result.splits; blast)
  qed (use Cons in \<open>auto simp: Let_def case_prod_unfold\<close>)
qed (simp add: maps_within_def)

lemma update_maps_within:
  "maps_within A ms \<Longrightarrow> snd (update_maps ops k v ms) = 0 \<Longrightarrow>
   maps_within (insert (k, v) {e \<in> A. fst e \<noteq> k}) (fst (update_maps ops k v ms))"
proof (induction ms)
  case (Cons mo ms)
  show ?case
  proof (cases mo)
    case (Some m)
    then show ?thesis
      using Cons update_within [of m k v]
      by (auto simp: Let_def case_prod_unfold split: option.splits; blast)
  qed (use Cons in \<open>auto simp: Let_def case_prod_unfold\<close>)
qed (simp add: maps_within_def)

text \<open>A step is sound when it never lowers the failure count and, when it leaves it alone, keeps the
  mirror.\<close>

definition sound_step :: "(bytes \<times> bytes) set \<Rightarrow> ('o dns_cache \<Rightarrow> 'o dns_cache) \<Rightarrow> bool" where
  "sound_step S f \<longleftrightarrow> (\<forall>c n. c_failures c = Some n \<longrightarrow> (\<exists>n'. c_failures (f c) = Some n' \<and> n \<le> n' \<and>
     (n' = n \<longrightarrow> mirrors S c \<longrightarrow> mirrors S (f c))))"

lemma sound_step_comp: "sound_step S f \<Longrightarrow> sound_step S g \<Longrightarrow> sound_step S (\<lambda>c. g (f c))"
  unfolding sound_step_def by (metis le_antisym le_trans)

lemma sound_step_fold: "(\<And>x. sound_step S (f x)) \<Longrightarrow> sound_step S (fold f xs)"
proof (induction xs)
  case (Cons x xs)
  then show ?case
    using sound_step_comp [of S "f x" "fold f xs"] by (simp add: comp_def)
qed (simp add: sound_step_def)

lemma sound_drop_entry: "sound_step S (drop_entry ops k)"
proof -
  have "mirrors S (drop_entry ops k c)" if "mirrors S c" "snd (delete_maps ops k (c_maps c)) = 0" for c
  proof -
    have "{e \<in> owners c \<union> S. fst e \<noteq> k} \<subseteq> owners (drop_entry ops k c) \<union> S"
      by (auto simp: owners_def delete_conv')
    with delete_maps_within [of "owners c \<union> S" "c_maps c" k] that show ?thesis
      unfolding mirrors_def
      by (auto simp: drop_entry_def deleteBPFMapsLocked_def after_maps_def intro: maps_within_mono)
  qed
  moreover have "c_failures (drop_entry ops k c) =
      map_option (\<lambda>n. n + snd (delete_maps ops k (c_maps c))) (c_failures c)" for c :: "'o dns_cache"
    by (simp add: drop_entry_def deleteBPFMapsLocked_def after_maps_def)
  ultimately show ?thesis
    by (auto simp: sound_step_def)
qed

lemma sound_set_owner: "sound_step S (set_owner ops ip name exp)"
proof -
  have "mirrors S (set_owner ops ip name exp c)"
    if "mirrors S c" "snd (update_maps ops ip (bpf_owner name) (c_maps c)) = 0" for c
  proof -
    have "insert (ip, bpf_owner name) {e \<in> owners c \<union> S. fst e \<noteq> ip} \<subseteq> owners (set_owner ops ip name exp c) \<union> S"
      by (auto simp: owners_def update_conv')
    with update_maps_within [of "owners c \<union> S" "c_maps c" ip "bpf_owner name"] that show ?thesis
      unfolding mirrors_def
      by (auto simp: set_owner_def put_entry_def after_maps_def intro: maps_within_mono)
  qed
  moreover have "c_failures (set_owner ops ip name exp c) =
      map_option (\<lambda>n. n + snd (update_maps ops ip (bpf_owner name) (c_maps c))) (c_failures c)"
    for c :: "'o dns_cache"
    by (simp add: set_owner_def put_entry_def after_maps_def)
  ultimately show ?thesis
    by (auto simp: sound_step_def)
qed

lemma mirrors_refresh:
  "mirrors S c \<Longrightarrow> map_of (c_entries c) ip = Some e \<Longrightarrow> e_name e = name \<Longrightarrow> mirrors S (put_entry ip name exp c)"
  unfolding mirrors_def
  by (rule maps_within_mono [of "owners c \<union> S"]) (auto simp: put_entry_def owners_def update_conv')

lemma sound_add_answer: "sound_step S (add_answer ops ul now a)"
proof -
  have "\<exists>n'. c_failures (add_answer ops ul now a c) = Some n' \<and> n \<le> n' \<and>
     (n' = n \<longrightarrow> mirrors S c \<longrightarrow> mirrors S (add_answer ops ul now a c))" if "c_failures c = Some n" for c n
    using that sound_set_owner [of S] mirrors_refresh [of S c "fst a"]
    by (auto simp: sound_step_def add_answer_def Let_def put_entry_def split: option.splits)
  then show ?thesis
    by (auto simp: sound_step_def)
qed

lemma sound_purge: "sound_step S (purgeExpiredLocked ops iterE t)"
  using sound_step_fold [of S "\<lambda>(k, e). drop_entry ops k"] sound_drop_entry
  by (auto simp: sound_step_def purge_as_drops case_prod_unfold)

lemma sound_trim: "sound_step S (trimLocked ops iterE now)"
proof -
  have "sound_step S (fold (\<lambda>(k, e). drop_entry ops k) es)" for es
    by (intro sound_step_fold) (auto simp: sound_drop_entry case_prod_unfold)
  note d = sound_step_comp [OF sound_purge this, unfolded sound_step_def, rule_format]
  note p = sound_purge [unfolded sound_step_def, rule_format]
  show ?thesis
    unfolding sound_step_def trimLocked_def Let_def using d p by auto
qed

lemma AddFromPacket_mirrors: "sound_step S (AddFromPacket ops ul iterE iterA now packet)"
proof -
  have "sound_step S (\<lambda>c. trimLocked ops iterE now
      (fold (add_answer ops ul now) as (purgeExpiredLocked ops iterE (unix now) c)))" for as
    using sound_step_comp [OF sound_step_comp [OF sound_purge sound_step_fold [OF sound_add_answer]] sound_trim] .
  then show ?thesis
    by (auto simp: AddFromPacket_def Let_def sound_step_def)
qed

end

interpretation owners_ref: owner_map "list_invar id" "\<lambda>es. es" "list_map id"
  by unfold_locales (auto dest: ref.update_ok ref.delete_ok ref.delete_missing)

section \<open>Properties\<close>

text \<open>C34. However a packet looks and in whatever order the maps are walked, inserting it keeps the cache
  within its capacity, with one entry per 4-byte address.\<close>

theorem cache_bounded:
  "iterates iterE \<Longrightarrow> iterates iterA \<Longrightarrow> cache_inv c \<Longrightarrow>
   cache_inv (AddFromPacket ops ul iterE iterA now packet c) \<and>
   c_max (AddFromPacket ops ul iterE iterA now packet c) = c_max c"
  by (simp add: AddFromPacket_inv)

text \<open>A response with one A record: api.test is 10.1.2.3 for 60 seconds.\<close>

definition demo_packet :: bytes where
  "demo_packet = [0, 1, 0x81, 0x80, 0, 0, 0, 1, 0, 0, 0, 0] @ wire_name [''API'', ''test''] @
     [0, 1, 0, 1, 0, 0, 0, 60, 0, 4, 10, 1, 2, 3]"

theorem cache_bounded_witness:
  "cache_inv (AddFromPacket (list_map id) (\<lambda>s. s) (\<lambda>m. m) rev 5000000000 demo_packet
     (NewDNSCache :: (bytes \<times> bytes) list dns_cache))"
  by (rule cache_bounded [THEN conjunct1])
    (simp_all add: iterates_id cache_inv_def NewDNSCache_def)

text \<open>After a packet with answers, the owner looked up for an address (until the entry expires) is the
  owner the packet's answer gives it, unless a live entry with a strictly shorter name was there, which
  stays; other live entries are untouched. Nothing else is returned, and nothing is lost as long as the
  entries and the answers fit the capacity.\<close>

theorem cache_lookup_after_add:
  assumes "iterates iterE" "iterates iterA" "cache_inv c" "parseDNSResponseIPv4 packet \<noteq> []"
    "To4 ip = Some k" "length (c_entries c) + length (parseDNSResponseIPv4 packet) \<le> c_max c"
  shows "LookupProvenance later ip (AddFromPacket ops ul iterE iterA now packet c) =
    (case packet_entry ul now packet c k of
       Some e \<Rightarrow> if unix later < e_expires e then (e_name e, ''dns_observed'') else ([], ''unknown'')
     | None \<Rightarrow> ([], ''unknown''))"
  using AddFromPacket_entry(2) [OF assms(1-4,6), of ops ul now k] assms(5)
  by (auto simp: LookupProvenance_def split: option.splits)

theorem cache_lookup_after_add_witness:
  "LookupProvenance 60000000000 [10, 1, 2, 3] (AddFromPacket (list_map id) (\<lambda>s. s) (\<lambda>m. m) rev 5000000000 demo_packet
     (NewDNSCache :: (bytes \<times> bytes) list dns_cache)) = (''api.test'', ''dns_observed'')"
proof -
  let ?c = "NewDNSCache :: (bytes \<times> bytes) list dns_cache"
  have p: "length (parseDNSResponseIPv4 demo_packet) = 1"
    and e: "packet_entry (\<lambda>s. s) 5000000000 demo_packet ?c [10, 1, 2, 3] = Some \<lparr>e_name = ''api.test'', e_expires = 65\<rparr>"
    by code_simp+
  have "parseDNSResponseIPv4 demo_packet \<noteq> []"
    using p by auto
  from cache_lookup_after_add [OF iterates_id(1) iterates_id(2) _ this, of ?c "[10, 1, 2, 3]" "[10, 1, 2, 3]"] p
  show ?thesis
    by (simp add: e [unfolded NewDNSCache_def dnsMaxEntries_def] cache_inv_def NewDNSCache_def
        dnsMaxEntries_def To4_def unix_def)
qed

text \<open>A cached owner lives at least one second and at most an hour after it was observed, whatever TTL
  the packet carries, zero and the largest 32-bit value included.\<close>

theorem ttl_clamped:
  "unix now < ttlToExpiry ttl now \<and> ttlToExpiry ttl now \<le> unix now + 3600"
  using ttlToExpiry_bounds [where now = now and ttl = ttl] by linarith

text \<open>C35. The kernel never holds a stale owner: if no eBPF map operation failed while a packet was
  inserted, every entry of every kernel map is still the owner the cache holds for that address or
  one of the seeded owners, even when the kernel's LRU drops entries of its own accord.\<close>

theorem kernel_owner_not_stale:
  assumes "owner_map invar ents ops" "c_failures c = Some n"
    "c_failures (AddFromPacket ops ul iterE iterA now packet c) = Some n"
    "owner_map.mirrors invar ents S c"
  shows "owner_map.mirrors invar ents S (AddFromPacket ops ul iterE iterA now packet c)"
  using owner_map.AddFromPacket_mirrors [OF assms(1), of S ul iterE iterA now packet] assms(2-4)
  unfolding owner_map.sound_step_def [OF assms(1)] by (metis option.inject)

theorem kernel_owner_not_stale_witness:
  "owner_map.mirrors (list_invar id) (\<lambda>es. es) {} (AddFromPacket (list_map id) (\<lambda>s. s) (\<lambda>m. m) rev 5000000000 demo_packet
     (SetBPFMaps [Some []] (SetBPFFailureCallback (Some 0) NewDNSCache)))"
proof (rule kernel_owner_not_stale)
  let ?c = "SetBPFMaps [Some []] (SetBPFFailureCallback (Some 0) NewDNSCache) :: (bytes \<times> bytes) list dns_cache"
  show "owner_map (list_invar id) (\<lambda>es. es) (list_map id)"
    by (rule owners_ref.owner_map_axioms)
  show "c_failures ?c = Some 0"
    by (simp add: SetBPFMaps_def SetBPFFailureCallback_def)
  show "c_failures (AddFromPacket (list_map id) (\<lambda>s. s) (\<lambda>m. m) rev 5000000000 demo_packet ?c) = Some 0"
    by code_simp
  show "owner_map.mirrors (list_invar id) (\<lambda>es. es) {} ?c"
    by (simp add: owners_ref.mirrors_def owners_ref.maps_within_def SetBPFMaps_def list_invar_def)
qed

end
