(* ===== verification/DefendState.thy ===== *)
theory DefendState
  imports Events Decode Sanitize DnsCache
begin

text \<open>
  The defend side of the agent: its counters and the folding of denies seen by two hook families
  (\<^verbatim>\<open>internal/agent/agent_linux_state_defend.go\<close>), and the path of one deny record from the ring buffer to the event log
  (\<^verbatim>\<open>appendDenyFromRaw\<close> and its callers in \<^verbatim>\<open>agent_linux_policy_maps.go\<close>). A nil state is \<^const>\<open>None\<close>; the clock is
  read by the caller, as nanoseconds and as the formatted timestamp.
\<close>

section \<open>State\<close>

definition denyDedupWindow :: int where "denyDedupWindow = 1000000000"
definition denyDedupMaxEntries :: nat where "denyDedupMaxEntries = 4096"

record denyDedupKey =
  dk_tgid :: "32 word"
  dk_tid :: "32 word"
  dk_dst :: string
  dk_dport :: "16 word"
  dk_protocol :: string

record denyDedupEntry =
  dd_family :: string
  dd_nano :: int

record defendState =
  ds_mode :: string
  ds_allowlistSize :: int
  ds_allowlistIPv6Size :: int
  ds_denyCountN :: int
  ds_denyCorroboratedN :: int
  ds_denyReserveFailuresN :: int
  ds_mapIntegrityFailures :: int
  ds_expectedEntries :: int
  ds_expectedIgnoredEntries :: int
  ds_denyDedup :: "(denyDedupKey \<times> denyDedupEntry) list"

record defendSnapshot =
  sn_mode :: string
  sn_allowlistSize :: int
  sn_allowlistIPv6Size :: int
  sn_denyCount :: int
  sn_denyCorroborated :: int
  sn_denyReserveFailures :: int
  sn_mapIntegrityFailures :: int

definition chooseDefendBackend :: "bool \<Rightarrow> bool \<Rightarrow> bool \<Rightarrow> string" where
  "chooseDefendBackend modeDefend haveLSM lsmAttachOK = (if \<not> modeDefend then ''detect''
     else if haveLSM \<and> lsmAttachOK then ''lsm'' else ''cgroup'')"

definition defendModeForBackend :: "string \<Rightarrow> string" where
  "defendModeForBackend backend = (if backend = ''lsm'' then ''defend+lsm'' else ''defend+cgroup'')"

definition newDefendState :: defendState where
  "newDefendState = \<lparr>ds_mode = [], ds_allowlistSize = 0, ds_allowlistIPv6Size = 0, ds_denyCountN = 0,
     ds_denyCorroboratedN = 0, ds_denyReserveFailuresN = 0, ds_mapIntegrityFailures = 0, ds_expectedEntries = 0,
     ds_expectedIgnoredEntries = 0, ds_denyDedup = []\<rparr>"

definition setModeAndAllowlist :: "string \<Rightarrow> int \<Rightarrow> int \<Rightarrow> defendState \<Rightarrow> defendState" where
  "setModeAndAllowlist mode allowlistSize ignoredSize s =
     s\<lparr>ds_mode := mode, ds_allowlistSize := allowlistSize, ds_expectedEntries := allowlistSize,
       ds_expectedIgnoredEntries := ignoredSize\<rparr>"

definition downgradeMode :: "string \<Rightarrow> defendState \<Rightarrow> defendState" where
  "downgradeMode mode s = s\<lparr>ds_mode := mode\<rparr>"

definition setIPv6AllowlistSize :: "int \<Rightarrow> defendState \<Rightarrow> defendState" where
  "setIPv6AllowlistSize n s = s\<lparr>ds_allowlistIPv6Size := n\<rparr>"

definition addMapIntegrityFailure :: "defendState \<Rightarrow> defendState" where
  "addMapIntegrityFailure s = s\<lparr>ds_mapIntegrityFailures := ds_mapIntegrityFailures s + 1\<rparr>"

definition mapIntegrityFailureCount :: "defendState \<Rightarrow> int" where
  "mapIntegrityFailureCount s = ds_mapIntegrityFailures s"

definition pruneDenyDedupLocked :: "int \<Rightarrow> defendState \<Rightarrow> defendState" where
  "pruneDenyDedupLocked nowNano s =
     s\<lparr>ds_denyDedup := filter (\<lambda>(k, e). \<not> denyDedupWindow < nowNano - dd_nano e) (ds_denyDedup s)\<rparr>"

text \<open>The entry for the key is fresh and was emitted by another family.\<close>

definition is_twin :: "denyDedupEntry option \<Rightarrow> string \<Rightarrow> int \<Rightarrow> bool" where
  "is_twin prev family nowNano = (case prev of None \<Rightarrow> False
     | Some p \<Rightarrow> dd_nano p \<le> nowNano \<and> nowNano - dd_nano p \<le> denyDedupWindow \<and>
         dd_family p \<noteq> [] \<and> family \<noteq> [] \<and> dd_family p \<noteq> family)"

definition shouldEmitDeny ::
    "denyDedupKey \<Rightarrow> string \<Rightarrow> int \<Rightarrow> defendState option \<Rightarrow> bool \<times> defendState option" where
  "shouldEmitDeny key family nowNano so = (case so of None \<Rightarrow> (True, None)
     | Some s \<Rightarrow> let prev = map_of (ds_denyDedup s) key in
       if is_twin prev family nowNano then
         (False, Some (s\<lparr>ds_denyCorroboratedN := ds_denyCorroboratedN s + 1,
            ds_denyDedup := AList.update key \<lparr>dd_family = dd_family (the prev), dd_nano = nowNano\<rparr> (ds_denyDedup s)\<rparr>))
       else let s' = s\<lparr>ds_denyDedup := AList.update key \<lparr>dd_family = family, dd_nano = nowNano\<rparr> (ds_denyDedup s)\<rparr> in
         (True, Some (if denyDedupMaxEntries < length (ds_denyDedup s') then pruneDenyDedupLocked nowNano s' else s')))"

definition denyCorroborated :: "defendState \<Rightarrow> int" where
  "denyCorroborated s = ds_denyCorroboratedN s"

definition noteDeny :: "defendState \<Rightarrow> defendState" where
  "noteDeny s = s\<lparr>ds_denyCountN := ds_denyCountN s + 1\<rparr>"

definition denyCount :: "defendState \<Rightarrow> int" where
  "denyCount s = ds_denyCountN s"

definition snapshot :: "defendState \<Rightarrow> defendSnapshot" where
  "snapshot s = \<lparr>sn_mode = ds_mode s, sn_allowlistSize = ds_allowlistSize s,
     sn_allowlistIPv6Size = ds_allowlistIPv6Size s, sn_denyCount = ds_denyCountN s,
     sn_denyCorroborated = ds_denyCorroboratedN s, sn_denyReserveFailures = ds_denyReserveFailuresN s,
     sn_mapIntegrityFailures = ds_mapIntegrityFailures s\<rparr>"

definition setDenyReserveFailures :: "int \<Rightarrow> defendState \<Rightarrow> defendState" where
  "setDenyReserveFailures n s = s\<lparr>ds_denyReserveFailuresN := n\<rparr>"

section \<open>One deny record\<close>

text \<open>\<^verbatim>\<open>nullTermStr\<close>: trailing zero bytes are dropped, the rest is the text.\<close>

definition nullTermStr :: "bytes \<Rightarrow> string" where
  "nullTermStr b = bstr (rev (dropWhile (\<lambda>x. x = 0) (rev b)))"

datatype deny_error = DecodeDeny | UnsupportedFamily byte | AppendDeny

record deny_config =
  cfg_EventsLogPath :: string
  cfg_PublicMode :: string

record deny_world =
  dw_sink :: sink
  dw_state :: "defendState option"

text \<open>The destination as \<^verbatim>\<open>net.IP\<close>: \<^verbatim>\<open>net.IPv4\<close> gives the mapped form.\<close>

definition deny_dst :: "byte \<Rightarrow> bytes \<Rightarrow> bytes option" where
  "deny_dst af daddr16 = (if af = linuxAFInet then Some (v4InV6Prefix @ take 4 daddr16)
     else if af = linuxAFInet6 then Some daddr16 else None)"

definition deny_line :: "deny_config \<Rightarrow> string \<Rightarrow> string \<Rightarrow> string \<Rightarrow>
    32 word \<times> 32 word \<times> bytes \<times> byte \<times> byte \<times> byte \<times> bytes \<times> 16 word \<Rightarrow> string \<Rightarrow> DenyEvent" where
  "deny_line cfg ts hookFamily matchKind = (\<lambda>(tgid, tid, commb, protocolRaw, reasonRaw, af, daddr16, dport) dst.
     \<lparr>dn_Type = ''deny'', dn_TS = ts, dn_Seq = 0, dn_PID = tgid, dn_TGID = tgid, dn_ThreadID = tid,
      dn_Comm = SanitizeField (nullTermStr commb) 16, dn_Protocol = denyProtocolLabel protocolRaw,
      dn_Dst = dst, dn_Dport = dport, dn_Reason = denyReasonLabel reasonRaw, dn_Mode = cfg_PublicMode cfg,
      dn_HookFamily = hookFamily, dn_MatchKind = matchKind, dn_Sig = []\<rparr>)"

definition deny_key :: "DenyEvent \<Rightarrow> denyDedupKey" where
  "deny_key d = \<lparr>dk_tgid = dn_TGID d, dk_tid = dn_ThreadID d, dk_dst = dn_Dst d, dk_dport = dn_Dport d,
     dk_protocol = dn_Protocol d\<rparr>"

text \<open>The event a record gives, before folding.\<close>

definition deny_event_of :: "deny_config \<Rightarrow> bytes \<Rightarrow> string \<Rightarrow> 'o dns_cache option \<Rightarrow> int \<times> string \<Rightarrow>
    deny_error + DenyEvent" where
  "deny_event_of cfg raw hookFamily dns clock = (case decodeDenyEvent raw of None \<Rightarrow> Inl DecodeDeny
     | Some ev \<Rightarrow> let (tgid, tid, commb, protocolRaw, reasonRaw, af, daddr16, dport) = ev in
       (case deny_dst af daddr16 of None \<Rightarrow> Inl (UnsupportedFamily af)
        | Some dstIP \<Rightarrow>
          let (now, ts) = clock;
            matchKind = (case dns of None \<Rightarrow> ''unknown''
              | Some c \<Rightarrow> if Lookup now dstIP c \<noteq> [] then ''dns_cache'' else ''unknown'') in
          Inr (deny_line cfg ts hookFamily matchKind ev (IP_String dstIP))))"

text \<open>Folding, the log and the counter.\<close>

definition emit_deny :: "(jsonl \<Rightarrow> bool) \<Rightarrow> deny_config \<Rightarrow> string \<Rightarrow> int \<Rightarrow> DenyEvent \<Rightarrow> deny_world \<Rightarrow>
    (deny_error + DenyEvent) \<times> deny_world" where
  "emit_deny ok cfg hookFamily now d w =
     (let (emit, st) = shouldEmitDeny (deny_key d) hookFamily now (dw_state w); w1 = w\<lparr>dw_state := st\<rparr> in
      if \<not> emit then (Inr d, w1)
      else if cfg_EventsLogPath cfg \<noteq> [] then
        (let (written, k) = AppendJSONL ok (\<lambda>n. JDenyEvent (d\<lparr>dn_Seq := n\<rparr>)) (dw_sink w1); w2 = w1\<lparr>dw_sink := k\<rparr> in
         if \<not> written then (Inl AppendDeny, w2)
         else (Inr (d\<lparr>dn_Seq := next_seq k\<rparr>), w2\<lparr>dw_state := map_option noteDeny (dw_state w2)\<rparr>))
      else (Inr d, w1\<lparr>dw_state := map_option noteDeny (dw_state w1)\<rparr>))"

definition appendDenyFromRaw :: "(jsonl \<Rightarrow> bool) \<Rightarrow> deny_config \<Rightarrow> bytes \<Rightarrow> string \<Rightarrow> 'o dns_cache option \<Rightarrow>
    int \<times> string \<Rightarrow> deny_world \<Rightarrow> (deny_error + DenyEvent) \<times> deny_world" where
  "appendDenyFromRaw ok cfg raw hookFamily dns clock w = (case deny_event_of cfg raw hookFamily dns clock of
       Inl e \<Rightarrow> (Inl e, w)
     | Inr d \<Rightarrow> emit_deny ok cfg hookFamily (fst clock) d w)"

text \<open>The error the test entry point returns for a deny, and its recognition.\<close>

record defendDenyError =
  er_protocol :: string
  er_dst :: string
  er_dport :: "16 word"
  er_reason :: string

definition newDefendDenyError :: "DenyEvent \<Rightarrow> defendDenyError" where
  "newDefendDenyError ev = \<lparr>er_protocol = dn_Protocol ev, er_dst = dn_Dst ev, er_dport = dn_Dport ev,
     er_reason = dn_Reason ev\<rparr>"

definition testAppendDenySample :: "(jsonl \<Rightarrow> bool) \<Rightarrow> deny_config \<Rightarrow> bytes \<Rightarrow> string \<Rightarrow> 'o dns_cache option \<Rightarrow>
    int \<times> string \<Rightarrow> deny_world \<Rightarrow> (deny_error + defendDenyError) \<times> deny_world" where
  "testAppendDenySample ok cfg raw hookFamily dns clock w =
     apfst (map_sum id newDefendDenyError) (appendDenyFromRaw ok cfg raw hookFamily dns clock w)"

text \<open>One sample of the deny ring: a failure is logged and dropped.\<close>

definition processDenyRingSample :: "(jsonl \<Rightarrow> bool) \<Rightarrow> deny_config \<Rightarrow> bytes \<Rightarrow> string \<Rightarrow> 'o dns_cache option \<Rightarrow>
    int \<times> string \<Rightarrow> deny_world \<Rightarrow> deny_world" where
  "processDenyRingSample ok cfg raw hookFamily dns clock w = snd (appendDenyFromRaw ok cfg raw hookFamily dns clock w)"

section \<open>Folding of twins\<close>

text \<open>
  What the folding promises, without the bound on the table: one entry per key, kept until it is replaced. A deny is
  folded when the last deny of its key is fresh and was emitted by another family.
\<close>

definition emit_spec :: "denyDedupKey \<Rightarrow> string \<Rightarrow> int \<Rightarrow> (denyDedupKey \<rightharpoonup> denyDedupEntry) \<Rightarrow>
    bool \<times> (denyDedupKey \<rightharpoonup> denyDedupEntry)" where
  "emit_spec key family now m = (let twin = is_twin (m key) family now in
     (\<not> twin, m(key \<mapsto> \<lparr>dd_family = (if twin then dd_family (the (m key)) else family), dd_nano = now\<rparr>)))"

fun decisions_spec :: "(denyDedupKey \<times> string \<times> int) list \<Rightarrow> (denyDedupKey \<rightharpoonup> denyDedupEntry) \<Rightarrow> bool list" where
  "decisions_spec [] m = []"
| "decisions_spec ((key, family, now) # es) m = (let (b, m') = emit_spec key family now m in b # decisions_spec es m')"

fun decisions :: "(denyDedupKey \<times> string \<times> int) list \<Rightarrow> defendState option \<Rightarrow> bool list" where
  "decisions [] so = []"
| "decisions ((key, family, now) # es) so =
     (let (b, so') = shouldEmitDeny key family now so in b # decisions es so')"

definition stale :: "int \<Rightarrow> denyDedupEntry \<Rightarrow> bool" where
  "stale now e \<longleftrightarrow> denyDedupWindow < now - dd_nano e"

text \<open>The table agrees with the specification except that stale entries may be gone.\<close>

definition refines :: "int \<Rightarrow> defendState \<Rightarrow> (denyDedupKey \<rightharpoonup> denyDedupEntry) \<Rightarrow> bool" where
  "refines now s m \<longleftrightarrow> wf_map (ds_denyDedup s) \<and>
     (\<forall>k. map_of (ds_denyDedup s) k = m k \<or> map_of (ds_denyDedup s) k = None \<and> (\<exists>e. m k = Some e \<and> stale now e))"

lemma stale_mono: "stale t e \<Longrightarrow> t \<le> t' \<Longrightarrow> stale t' e"
  by (simp add: stale_def)

lemma stale_no_twin: "stale now e \<Longrightarrow> \<not> is_twin (Some e) family now"
  by (simp add: stale_def is_twin_def)

lemma refines_mono: "refines t s m \<Longrightarrow> t \<le> t' \<Longrightarrow> refines t' s m"
  unfolding refines_def by (meson stale_mono)

lemma refines_twin: "refines now s m \<Longrightarrow> is_twin (map_of (ds_denyDedup s) key) family now = is_twin (m key) family now"
proof -
  assume "refines now s m"
  then have "map_of (ds_denyDedup s) key = m key \<or>
      map_of (ds_denyDedup s) key = None \<and> (\<exists>e. m key = Some e \<and> stale now e)"
    by (simp add: refines_def)
  then show ?thesis
    using stale_no_twin by (auto simp: is_twin_def [of None])
qed

lemma refines_family:
  "refines now s m \<Longrightarrow> is_twin (m key) family now \<Longrightarrow> map_of (ds_denyDedup s) key = m key"
  unfolding refines_def by (metis stale_no_twin)

lemma refines_update:
  assumes "refines now s m" "ds_denyDedup s' = AList.update key e (ds_denyDedup s)"
  shows "refines now s' (m(key \<mapsto> e))"
  using assms by (auto simp: refines_def update_conv' distinct_update)

lemma map_of_filter_keys:
  "wf_map m \<Longrightarrow> map_of (filter (\<lambda>(k, e). P e) m) k =
     (case map_of m k of None \<Rightarrow> None | Some e \<Rightarrow> if P e then Some e else None)"
  by (induction m) (auto split: option.split simp: map_of_eq_None_iff)

lemma refines_prune: "refines now s m \<Longrightarrow> refines now (pruneDenyDedupLocked now s) m"
proof -
  assume r: "refines now s m"
  then have wf: "wf_map (ds_denyDedup s)"
    by (simp add: refines_def)
  define P where "P = (\<lambda>e :: denyDedupEntry. \<not> denyDedupWindow < now - dd_nano e)"
  have m: "map_of (ds_denyDedup (pruneDenyDedupLocked now s)) k =
      (case map_of (ds_denyDedup s) k of None \<Rightarrow> None | Some e \<Rightarrow> if P e then Some e else None)" for k
    using map_of_filter_keys [OF wf, of P k] by (simp add: pruneDenyDedupLocked_def P_def)
  have "map_of (ds_denyDedup (pruneDenyDedupLocked now s)) k = m k \<or>
      map_of (ds_denyDedup (pruneDenyDedupLocked now s)) k = None \<and> (\<exists>e. m k = Some e \<and> stale now e)" for k
    using r unfolding m refines_def stale_def P_def by (cases "map_of (ds_denyDedup s) k") (auto dest: spec [of _ k])
  then show ?thesis
    using wf by (simp add: refines_def pruneDenyDedupLocked_def wf_map_filter)
qed

lemma shouldEmit_refines:
  assumes "refines now s m"
  obtains s' where "shouldEmitDeny key family now (Some s) = (fst (emit_spec key family now m), Some s')"
    "refines now s' (snd (emit_spec key family now m))"
proof (cases "is_twin (m key) family now")
  case True
  let ?e = "\<lparr>dd_family = dd_family (the (m key)), dd_nano = now\<rparr>"
  let ?s = "s\<lparr>ds_denyCorroboratedN := ds_denyCorroboratedN s + 1, ds_denyDedup := AList.update key ?e (ds_denyDedup s)\<rparr>"
  have "refines now ?s (m(key \<mapsto> ?e))"
    using refines_update [OF assms, of ?s key ?e] by simp
  then show thesis
    using that [of ?s] True refines_twin [OF assms] refines_family [OF assms True]
    by (simp add: shouldEmitDeny_def emit_spec_def Let_def)
next
  case False
  let ?e = "\<lparr>dd_family = family, dd_nano = now\<rparr>"
  let ?s = "s\<lparr>ds_denyDedup := AList.update key ?e (ds_denyDedup s)\<rparr>"
  let ?s' = "if denyDedupMaxEntries < length (ds_denyDedup ?s) then pruneDenyDedupLocked now ?s else ?s"
  have "refines now ?s (m(key \<mapsto> ?e))"
    using refines_update [OF assms, of ?s key ?e] by simp
  then have "refines now ?s' (m(key \<mapsto> ?e))"
    using refines_prune by simp
  then show thesis
    using that [of ?s'] False refines_twin [OF assms, of key family]
    by (simp add: shouldEmitDeny_def emit_spec_def Let_def)
qed

lemma decisions_refine:
  "refines t s m \<Longrightarrow> sorted (t # map (snd \<circ> snd) es) \<Longrightarrow> decisions es (Some s) = decisions_spec es m"
proof (induction es arbitrary: t s m)
  case (Cons x es)
  obtain key family now where x: "x = (key, family, now)"
    by (cases x) auto
  have "refines now s m"
    using Cons.prems refines_mono by (auto simp: x)
  then obtain s' where s': "shouldEmitDeny key family now (Some s) = (fst (emit_spec key family now m), Some s')"
    "refines now s' (snd (emit_spec key family now m))"
    using shouldEmit_refines by blast
  then show ?case
    using Cons.IH [OF s'(2)] Cons.prems(2) by (simp add: x split_beta)
qed simp

lemma prune_leaves_fresh: "\<forall>x \<in> set (ds_denyDedup (pruneDenyDedupLocked now s)). \<not> stale now (snd x)"
  by (auto simp: pruneDenyDedupLocked_def stale_def)

section \<open>Accounting of denies\<close>

fun deny_run :: "(jsonl \<Rightarrow> bool) \<Rightarrow> deny_config \<Rightarrow> 'o dns_cache option \<Rightarrow> (bytes \<times> string \<times> int \<times> string) list \<Rightarrow>
    deny_world \<Rightarrow> (deny_error + DenyEvent) list \<times> deny_world" where
  "deny_run ok cfg dns [] w = ([], w)"
| "deny_run ok cfg dns ((raw, hookFamily, clock) # rs) w =
     (let (r, w1) = appendDenyFromRaw ok cfg raw hookFamily dns clock w; (rest, w2) = deny_run ok cfg dns rs w1 in
      (r # rest, w2))"

definition tally :: "defendState \<Rightarrow> int" where
  "tally s = ds_denyCountN s + ds_denyCorroboratedN s"

lemma prune_counts [simp]:
  "ds_denyCountN (pruneDenyDedupLocked t s) = ds_denyCountN s"
  "ds_denyCorroboratedN (pruneDenyDedupLocked t s) = ds_denyCorroboratedN s"
  by (simp_all add: pruneDenyDedupLocked_def)

lemma shouldEmit_counts:
  obtains b s' where "shouldEmitDeny key family now (Some s) = (b, Some s')" "ds_denyCountN s' = ds_denyCountN s"
    "ds_denyCorroboratedN s' = ds_denyCorroboratedN s + (if b then 0 else 1)"
  using that [of "fst (shouldEmitDeny key family now (Some s))" "the (snd (shouldEmitDeny key family now (Some s)))"]
  by (cases "is_twin (map_of (ds_denyDedup s) key) family now") (simp_all add: shouldEmitDeny_def Let_def)

lemma emit_deny_cases:
  assumes "shouldEmitDeny (deny_key d) hookFamily now (dw_state w) = (b, Some s1)"
  defines "n \<equiv> next_seq (dw_sink w) + 1"
  shows "emit_deny ok cfg hookFamily now d w =
    (if \<not> b then (Inr d, w\<lparr>dw_state := Some s1\<rparr>)
     else if cfg_EventsLogPath cfg = [] then (Inr d, w\<lparr>dw_state := Some (noteDeny s1)\<rparr>)
     else if ok (JDenyEvent (d\<lparr>dn_Seq := n\<rparr>)) then (Inr (d\<lparr>dn_Seq := n\<rparr>),
       w\<lparr>dw_sink := \<lparr>next_seq = n, lines = lines (dw_sink w) @ [JDenyEvent (d\<lparr>dn_Seq := n\<rparr>)]\<rparr>, dw_state := Some (noteDeny s1)\<rparr>)
     else (Inl AppendDeny, w\<lparr>dw_sink := \<lparr>next_seq = n, lines = lines (dw_sink w)\<rparr>, dw_state := Some s1\<rparr>))"
  using assms(1) by (simp add: emit_deny_def Let_def AppendJSONL_def Next_def n_def)

lemma append_deny_counts:
  assumes "dw_state w = Some s" "appendDenyFromRaw ok cfg raw hookFamily dns clock w = (r, w')"
  obtains s' ls where "dw_state w' = Some s'" "lines (dw_sink w') = lines (dw_sink w) @ ls"
    "tally s' + (if isl r then 1 else 0) = tally s + 1"
    "cfg_EventsLogPath cfg \<noteq> [] \<longrightarrow> int (length ls) = ds_denyCountN s' - ds_denyCountN s"
proof (cases "deny_event_of cfg raw hookFamily dns clock")
  case (Inl e)
  then have "r = Inl e" "w' = w"
    using assms(2) by (simp_all add: appendDenyFromRaw_def)
  then show thesis
    using that [of s "[]"] assms(1) by simp
next
  case (Inr d)
  obtain b s1 where s1: "shouldEmitDeny (deny_key d) hookFamily (fst clock) (Some s) = (b, Some s1)"
    "ds_denyCountN s1 = ds_denyCountN s" "ds_denyCorroboratedN s1 = ds_denyCorroboratedN s + (if b then 0 else 1)"
    by (rule shouldEmit_counts)
  have e: "emit_deny ok cfg hookFamily (fst clock) d w = (r, w')"
    using assms(2) Inr by (simp add: appendDenyFromRaw_def)
  show thesis
    using that [of s1 "[]"] that [of "noteDeny s1" "[]"] that [of "noteDeny s1" "[JDenyEvent (d\<lparr>dn_Seq := next_seq (dw_sink w) + 1\<rparr>)]"]
      s1 e unfolding emit_deny_cases [of d hookFamily "fst clock" w b s1, unfolded assms(1), OF s1(1)]
    by (auto simp: tally_def noteDeny_def split: if_splits)
qed

lemma deny_run_counts:
  "dw_state w = Some s \<Longrightarrow> deny_run ok cfg dns rs w = (results, w') \<Longrightarrow>
   \<exists>s' ls. dw_state w' = Some s' \<and> lines (dw_sink w') = lines (dw_sink w) @ ls \<and>
     tally s' + int (length (filter isl results)) = tally s + int (length rs) \<and>
     (cfg_EventsLogPath cfg \<noteq> [] \<longrightarrow> int (length ls) = ds_denyCountN s' - ds_denyCountN s)"
proof (induction rs arbitrary: w s results)
  case Nil
  then show ?case
    by auto
next
  case (Cons x rs)
  obtain raw fam clock where x: "x = (raw, fam, clock)"
    by (cases x) auto
  obtain r w1 where 1: "appendDenyFromRaw ok cfg raw fam dns clock w = (r, w1)"
    by (cases "appendDenyFromRaw ok cfg raw fam dns clock w")
  obtain rest where 2: "deny_run ok cfg dns rs w1 = (rest, w')" "results = r # rest"
    using Cons.prems(2) by (auto simp: x 1 split: prod.splits)
  obtain s1 ls1 where s1: "dw_state w1 = Some s1" "lines (dw_sink w1) = lines (dw_sink w) @ ls1"
    "tally s1 + (if isl r then 1 else 0) = tally s + 1"
    "cfg_EventsLogPath cfg \<noteq> [] \<longrightarrow> int (length ls1) = ds_denyCountN s1 - ds_denyCountN s"
    by (rule append_deny_counts [OF Cons.prems(1) 1])
  obtain s' ls where "dw_state w' = Some s'" "lines (dw_sink w') = lines (dw_sink w1) @ ls"
    "tally s' + int (length (filter isl rest)) = tally s1 + int (length rs)"
    "cfg_EventsLogPath cfg \<noteq> [] \<longrightarrow> int (length ls) = ds_denyCountN s' - ds_denyCountN s1"
    using Cons.IH [OF s1(1) 2(1)] by blast
  then show ?case
    using s1 2(2) by (intro exI [of _ s'] exI [of _ "ls1 @ ls"]) (auto split: if_splits)
qed

section \<open>What the folding loses\<close>

definition demo_deny_key :: denyDedupKey where
  "demo_deny_key = \<lparr>dk_tgid = 7, dk_tid = 7, dk_dst = ''10.0.0.9'', dk_dport = 443, dk_protocol = ''tcp''\<rparr>"

definition demo_deny_raw :: bytes where
  "demo_deny_raw = deny_event 0 (7, 7, sbytes ''curl'' @ replicate 12 0, 1, 1, 2, [10, 0, 0, 9] @ replicate 12 0, 443)"

definition demo_deny_config :: deny_config where
  "demo_deny_config = \<lparr>cfg_EventsLogPath = ''log'', cfg_PublicMode = ''defend''\<rparr>"

definition demo_deny_world :: deny_world where
  "demo_deny_world = \<lparr>dw_sink = \<lparr>next_seq = 0, lines = []\<rparr>, dw_state = Some newDefendState\<rparr>"

definition demo_deny :: "string \<Rightarrow> string \<Rightarrow> DenyEvent" where
  "demo_deny hookFamily ts = \<lparr>dn_Type = ''deny'', dn_TS = ts, dn_Seq = 0, dn_PID = 7, dn_TGID = 7, dn_ThreadID = 7,
     dn_Comm = ''curl'', dn_Protocol = ''tcp'', dn_Dst = ''10.0.0.9'', dn_Dport = 443, dn_Reason = ''dst_not_allowlisted'',
     dn_Mode = ''defend'', dn_HookFamily = hookFamily, dn_MatchKind = ''unknown'', dn_Sig = []\<rparr>"

lemma demo_deny_event:
  "deny_event_of demo_deny_config demo_deny_raw hookFamily None (now, ts) = Inr (demo_deny hookFamily ts)"
proof -
  have "SanitizeField (nullTermStr (sbytes ''curl'' @ replicate 12 0)) 16 = ''curl''"
    "IP_String (v4InV6Prefix @ take 4 ([10, 0, 0, 9] @ replicate 12 0)) = ''10.0.0.9''"
    by code_simp+
  moreover have "decodeDenyEvent demo_deny_raw =
      Some (7, 7, sbytes ''curl'' @ replicate 12 0, 1, 1, 2, [10, 0, 0, 9] @ replicate 12 0, 443)"
    using deny_decoded [of "sbytes ''curl'' @ replicate 12 0" "[10, 0, 0, 9] @ replicate 12 0" 0 7 7 1 1 2 443 "[]"]
    by (simp add: demo_deny_raw_def)
  ultimately show ?thesis
    by (simp add: deny_event_of_def deny_dst_def deny_line_def demo_deny_def demo_deny_config_def denyProtocolLabel_def
        denyReasonLabel_def)
qed

fun emit_run :: "(jsonl \<Rightarrow> bool) \<Rightarrow> deny_config \<Rightarrow> (string \<times> int \<times> string) list \<Rightarrow> deny_world \<Rightarrow>
    (deny_error + DenyEvent) list \<times> deny_world" where
  "emit_run ok cfg [] w = ([], w)"
| "emit_run ok cfg ((hookFamily, now, ts) # rs) w = (let (r, w1) = emit_deny ok cfg hookFamily now (demo_deny hookFamily ts) w;
     (rest, w2) = emit_run ok cfg rs w1 in (r # rest, w2))"

lemma demo_deny_run:
  "deny_run ok demo_deny_config None (map (Pair demo_deny_raw) rs) w = emit_run ok demo_deny_config rs w"
  by (induction rs arbitrary: w) (auto simp: appendDenyFromRaw_def demo_deny_event)

text \<open>
  A repeat by the family whose report was folded is folded as well: after a cgroup deny and its LSM twin, a second
  attempt that only the LSM hook reports within the window leaves no line.
\<close>

lemma same_family_retry_folded:
  "decisions [(demo_deny_key, ''cgroup'', 0), (demo_deny_key, ''lsm'', 1000), (demo_deny_key, ''lsm'', 500000000)]
     (Some newDefendState) = [True, False, False]"
  by code_simp

text \<open>
  The table records a deny before its line is written: when the append fails, the twin that arrives next is folded into
  a deny that is neither in the log nor counted.
\<close>

lemma deny_lost_after_failed_append:
  "(let (results, w) = deny_run (\<lambda>e. line_seq e \<noteq> 1) demo_deny_config (None :: unit dns_cache option)
        (map (Pair demo_deny_raw) [(''cgroup'', 0, ''t0''), (''lsm'', 1000, ''t1'')]) demo_deny_world in
     map isl results = [True, False] \<and> lines (dw_sink w) = [] \<and>
     map_option ds_denyCountN (dw_state w) = Some 0 \<and> map_option ds_denyCorroboratedN (dw_state w) = Some 1)"
  unfolding demo_deny_run by code_simp

section \<open>Properties\<close>





end
