(* ===== verification/TlsHello.thy ===== *)
theory TlsHello
  imports GoText
begin

text \<open>
  The TLS ClientHello server-name parser (\<^verbatim>\<open>internal/telemetry/tls_clienthello.go\<close>). The parser works
  on a prefix of the record when the capture was cut, so what matters besides the round trip is
  that more bytes never change a name already found.

  \<open>client_hello\<close> and \<open>extensions\<close> are the two halves of \<^verbatim>\<open>ParseClientHelloSNI\<close>, up to the handshake body
  and up to the extension block.
\<close>

definition client_hello :: "bytes \<Rightarrow> bytes option" where
  "client_hello b =
    (if length b < 43 then None
     else if b ! 0 \<noteq> 0x16 then None
     else let ver = be16_at b 1 in
       if ver < 0x0301 \<or> 0x0304 < ver then None
     else let recLen = be16_at b 3 in
       if recLen < 38 then None
     else let hs = slice 5 (min (5 + recLen) (length b)) b in
       if length hs < 4 \<or> hs ! 0 \<noteq> 0x01 then None
     else let chLen = unat (hs ! 1) * 65536 + unat (hs ! 2) * 256 + unat (hs ! 3) in
       if chLen < 34 then None
     else Some (slice 4 (min (4 + chLen) (length hs)) hs))"

definition extensions :: "bytes \<Rightarrow> bytes option" where
  "extensions ch =
    (if length ch \<le> 34 then None
     else let i = 35 + unat (ch ! 34) in
       if length ch < i then None
     else if length ch < i + 2 then None
     else let csLen = be16_at ch i; i = i + 2 in
       if length ch < i + csLen then None
     else let i = i + csLen in
       if length ch \<le> i then None
     else let compLen = unat (ch ! i); i = Suc i in
       if length ch < i + compLen then None
     else let i = i + compLen in
       if length ch < i + 2 then None
     else let extLen = be16_at ch i; i = i + 2 in
       if extLen = 0 then None
     else Some (slice i (min (i + extLen) (length ch)) ch))"

definition server_name :: "(string \<Rightarrow> string) \<Rightarrow> bytes \<Rightarrow> string option" where
  "server_name ul block =
    (if length block < 2 then None
     else let listLen = be16_at block 0 in
       if listLen < 3 \<or> length block < 2 + listLen then None
     else let list = slice 2 (2 + listLen) block in
       if length list < 3 \<or> list ! 0 \<noteq> 0 then None
     else let nameLen = be16_at list 1 in
       if nameLen \<le> 0 \<or> length list < 3 + nameLen then None
     else let raw = toLower ul (TrimSpace (bstr (slice 3 (3 + nameLen) list))) in
       if raw = [] \<or> 255 < length raw then None else Some raw)"

function scanServerNameList :: "(string \<Rightarrow> string) \<Rightarrow> bytes \<Rightarrow> string option" where
  "scanServerNameList ul ext =
    (if length ext < 4 then None
     else let typ = be16_at ext 0; ln = be16_at ext 2 in
       if length ext < 4 + ln then None
       else if typ \<noteq> 0 then scanServerNameList ul (drop (4 + ln) ext)
       else server_name ul (slice 4 (4 + ln) ext))"
  by pat_completeness auto
termination
  by (relation "measure (\<lambda>(_, ext). length ext)") auto

declare scanServerNameList.simps [simp del]

definition ParseClientHelloSNI :: "(string \<Rightarrow> string) \<Rightarrow> bytes \<Rightarrow> string option" where
  "ParseClientHelloSNI ul b = (case client_hello b of None \<Rightarrow> None
     | Some ch \<Rightarrow> (case extensions ch of None \<Rightarrow> None | Some ext \<Rightarrow> scanServerNameList ul ext))"

section \<open>More bytes never change a name\<close>

lemma take_append_extend: "\<exists>d. take n (a @ c) = take n a @ d"
  by auto

lemma slice_extend: "\<exists>d. slice i (min n (length (a @ c))) (a @ c) = slice i (min n (length a)) a @ d"
proof (cases "i \<le> length a")
  case True
  then show ?thesis
    by (cases "n \<le> length a") (auto simp: slice_def min_def)
qed (auto simp: slice_def)

definition record_body :: "bytes \<Rightarrow> bytes" where
  "record_body b = slice 5 (min (5 + be16_at b 3) (length b)) b"

definition hello_len :: "bytes \<Rightarrow> nat" where
  "hello_len hs = unat (hs ! 1) * 65536 + unat (hs ! 2) * 256 + unat (hs ! 3)"

lemma client_hello_Some:
  "client_hello b = Some ch \<longleftrightarrow> 43 \<le> length b \<and> b ! 0 = 0x16 \<and> 0x0301 \<le> be16_at b 1 \<and>
     be16_at b 1 \<le> 0x0304 \<and> 38 \<le> be16_at b 3 \<and> 4 \<le> length (record_body b) \<and> record_body b ! 0 = 1 \<and>
     34 \<le> hello_len (record_body b) \<and>
     ch = slice 4 (min (4 + hello_len (record_body b)) (length (record_body b))) (record_body b)"
  unfolding client_hello_def Let_def record_body_def [symmetric] hello_len_def [symmetric]
  by (auto split: if_splits)

lemma hello_len_append: "4 \<le> length hs \<Longrightarrow> hello_len (hs @ d) = hello_len hs"
  by (simp add: hello_len_def nth_append)

lemma client_hello_extend:
  assumes "client_hello b = Some ch"
  shows "\<exists>d. client_hello (b @ c) = Some (ch @ d)"
proof -
  let ?hs = "record_body b"
  note h = assms [unfolded client_hello_Some]
  have r: "be16_at (b @ c) 1 = be16_at b 1" "be16_at (b @ c) 3 = be16_at b 3" "(b @ c) ! 0 = b ! 0"
    using h by (auto simp: nth_append)
  obtain d where d: "record_body (b @ c) = ?hs @ d"
    using slice_extend [of 5 "5 + be16_at b 3" b c] unfolding record_body_def r by blast
  have n: "hello_len (?hs @ d) = hello_len ?hs" "(?hs @ d) ! 0 = ?hs ! 0"
    using h by (auto simp: nth_append hello_len_append)
  obtain d2 where "slice 4 (min (4 + hello_len ?hs) (length (?hs @ d))) (?hs @ d) = ch @ d2"
    using slice_extend [of 4 "4 + hello_len ?hs" ?hs d] h by metis
  then have "client_hello (b @ c) = Some (ch @ d2)"
    unfolding client_hello_Some d n r using h by simp
  then show ?thesis
    by blast
qed

definition sid_end :: "bytes \<Rightarrow> nat" where
  "sid_end ch = 35 + unat (ch ! 34)"

definition suites_end :: "bytes \<Rightarrow> nat" where
  "suites_end ch = sid_end ch + 2 + be16_at ch (sid_end ch)"

definition comp_end :: "bytes \<Rightarrow> nat" where
  "comp_end ch = Suc (suites_end ch) + unat (ch ! suites_end ch)"

lemma extensions_Some:
  "extensions ch = Some e \<longleftrightarrow> 34 < length ch \<and> sid_end ch + 2 \<le> length ch \<and> suites_end ch < length ch \<and>
     comp_end ch + 2 \<le> length ch \<and> be16_at ch (comp_end ch) \<noteq> 0 \<and>
     e = slice (comp_end ch + 2) (min (comp_end ch + 2 + be16_at ch (comp_end ch)) (length ch)) ch"
  unfolding extensions_def Let_def sid_end_def [symmetric] suites_end_def [symmetric] comp_end_def [symmetric]
  by (auto split: if_splits)

lemma extensions_extend:
  assumes "extensions ch = Some e"
  shows "\<exists>d. extensions (ch @ c) = Some (e @ d)"
proof -
  note h = assms [unfolded extensions_Some]
  have s1: "sid_end (ch @ c) = sid_end ch"
    using h by (simp add: sid_end_def nth_append)
  have s2: "suites_end (ch @ c) = suites_end ch"
    using h by (simp add: suites_end_def s1)
  have s3: "comp_end (ch @ c) = comp_end ch" "be16_at (ch @ c) (comp_end ch) = be16_at ch (comp_end ch)"
    using h by (simp_all add: comp_end_def s2 nth_append)
  obtain d where d: "slice (comp_end ch + 2) (min (comp_end ch + 2 + be16_at ch (comp_end ch)) (length (ch @ c))) (ch @ c) = e @ d"
    using slice_extend [of "comp_end ch + 2" "comp_end ch + 2 + be16_at ch (comp_end ch)" ch c] h by metis
  have "extensions (ch @ c) = Some (e @ d)"
    unfolding extensions_Some s1 s2 s3 d [symmetric] using h by simp
  then show ?thesis
    by blast
qed

lemma scan_extend: "scanServerNameList ul e = Some s \<Longrightarrow> scanServerNameList ul (e @ d) = Some s"
proof (induction ul e rule: scanServerNameList.induct)
  case (1 ul ext)
  from "1.prems" "1.IH" [OF _ refl refl] show ?case
    unfolding scanServerNameList.simps [of ul ext] scanServerNameList.simps [of ul "ext @ d"]
    by (auto simp: Let_def slice_append split: if_splits)
qed

lemma ParseClientHelloSNI_extend:
  assumes "ParseClientHelloSNI ul b = Some s"
  shows "ParseClientHelloSNI ul (b @ c) = Some s"
proof -
  obtain ch e where e: "client_hello b = Some ch" "extensions ch = Some e" "scanServerNameList ul e = Some s"
    using assms by (auto simp: ParseClientHelloSNI_def split: option.splits)
  obtain d where d: "client_hello (b @ c) = Some (ch @ d)"
    using client_hello_extend [OF e(1)] by blast
  obtain d' where "extensions (ch @ d) = Some (e @ d')"
    using extensions_extend [OF e(2)] by blast
  with d scan_extend [OF e(3)] show ?thesis
    by (simp add: ParseClientHelloSNI_def)
qed

section \<open>Results\<close>

lemma scan_result:
  "scanServerNameList ul e = Some s \<Longrightarrow> s \<noteq> [] \<and> length s \<le> 255 \<and> (\<exists>raw. s = toLower ul (TrimSpace raw))"
proof (induction ul e rule: scanServerNameList.induct)
  case (1 ul ext)
  from "1.prems" "1.IH" [OF _ refl refl] show ?case
    unfolding scanServerNameList.simps [of ul ext]
    by (auto simp: Let_def server_name_def split: if_splits)
qed

lemma ParseClientHelloSNI_result:
  "ParseClientHelloSNI ul b = Some s \<Longrightarrow>
   43 \<le> length b \<and> b ! 0 = 0x16 \<and> s \<noteq> [] \<and> length s \<le> 255 \<and> (\<exists>raw. s = toLower ul (TrimSpace raw))"
  by (auto simp: ParseClientHelloSNI_def client_hello_def Let_def split: option.splits if_splits
      dest: scan_result)

section \<open>Round trip\<close>

text \<open>The bytes of a ClientHello whose server-name extension follows other extensions.\<close>

definition ext_bytes :: "nat \<times> bytes \<Rightarrow> bytes" where
  "ext_bytes e = be_bytes 2 (fst e) @ be_bytes 2 (length (snd e)) @ snd e"

definition sni_block :: "string \<Rightarrow> bytes" where
  "sni_block host = be_bytes 2 (length host + 3) @ 0 # be_bytes 2 (length host) @ sbytes host"

definition hello_exts :: "(nat \<times> bytes) list \<Rightarrow> string \<Rightarrow> bytes \<Rightarrow> bytes" where
  "hello_exts exts host rest = concat (map ext_bytes exts) @ ext_bytes (0, sni_block host) @ rest"

definition hello_body :: "bytes \<Rightarrow> bytes \<Rightarrow> bytes \<Rightarrow> bytes \<Rightarrow> bytes \<Rightarrow> bytes" where
  "hello_body rnd sid suites comps ext =
     rnd @ of_nat (length sid) # sid @ be_bytes 2 (length suites) @ suites @
     of_nat (length comps) # comps @ be_bytes 2 (length ext) @ ext"

definition hello_record :: "nat \<Rightarrow> bytes \<Rightarrow> bytes" where
  "hello_record ver body =
     0x16 # be_bytes 2 ver @ be_bytes 2 (length body + 4) @ 1 # be_bytes 3 (length body) @ body"

lemma be16_at_at: "i = length p \<Longrightarrow> n < 65536 \<Longrightarrow> be16_at (p @ be_bytes 2 n @ q) i = n"
  by simp

lemma slice_suffix: "i = length p \<Longrightarrow> slice i (min (i + length q) (length (p @ q))) (p @ q) = q"
  by (simp add: slice_def)

lemma hello_len_bytes: "n < 65536 \<Longrightarrow> hello_len (1 # be_bytes 3 n @ r) = n"
proof -
  assume n: "n < 65536"
  have "be_bytes 3 n = [of_nat (n div 256 div 256 mod 256), of_nat (n div 256 mod 256), of_nat (n mod 256)]"
    by (simp add: be_bytes_def numeral_3_eq_3)
  with n show ?thesis
    by (simp add: hello_len_def)
qed

lemma client_hello_record:
  assumes "0x0301 \<le> ver" "ver \<le> 0x0304" "34 \<le> length body" "length body + 4 < 65536"
  shows "client_hello (hello_record ver body) = Some body"
proof -
  let ?b = "hello_record ver body"
  have b1: "be16_at ?b 1 = ver"
    using be16_at_at [of 1 "[0x16]" ver] assms(1,2) by (simp add: hello_record_def)
  have b3: "be16_at ?b 3 = length body + 4"
    using be16_at_at [of 3 "0x16 # be_bytes 2 ver" "length body + 4"] assms(4)
    by (simp add: hello_record_def)
  have r: "record_body ?b = 1 # be_bytes 3 (length body) @ body"
    unfolding record_body_def b3 by (simp add: hello_record_def slice_def)
  have n: "hello_len (1 # be_bytes 3 (length body) @ body) = length body"
    using assms(4) by (simp add: hello_len_bytes)
  show ?thesis
    unfolding client_hello_Some b1 b3 r n using assms by (simp add: hello_record_def slice_def)
qed

lemma extensions_body:
  assumes "length rnd = 34" "length sid < 256" "length suites < 65536" "length comps < 256"
    "0 < length ext" "length ext < 65536"
  shows "extensions (hello_body rnd sid suites comps ext) = Some ext"
proof -
  let ?ch = "hello_body rnd sid suites comps ext"
  have s1: "sid_end ?ch = 35 + length sid"
    using assms(1,2) by (simp add: sid_end_def hello_body_def nth_append)
  have "be16_at ?ch (35 + length sid) = length suites"
    using be16_at_at [of "35 + length sid" "rnd @ of_nat (length sid) # sid" "length suites"] assms
    by (simp add: hello_body_def)
  then have s2: "suites_end ?ch = 37 + length sid + length suites"
    by (simp add: suites_end_def s1)
  then have s3: "comp_end ?ch = 38 + length sid + length suites + length comps"
    using assms(1,4) by (simp add: comp_end_def hello_body_def nth_append)
  have n: "be16_at ?ch (comp_end ?ch) = length ext"
    unfolding s3
    using be16_at_at [of "38 + length sid + length suites + length comps" "rnd @ of_nat (length sid) # sid @ be_bytes 2 (length suites) @ suites @
      of_nat (length comps) # comps" "length ext" ext] assms
    by (simp add: hello_body_def add.assoc)
  have "slice (comp_end ?ch + 2) (min (comp_end ?ch + 2 + length ext) (length ?ch)) ?ch = ext"
    unfolding s3
    using slice_suffix [of "40 + length sid + length suites + length comps" "rnd @ of_nat (length sid) # sid @ be_bytes 2 (length suites) @ suites @
      of_nat (length comps) # comps @ be_bytes 2 (length ext)" ext] assms(1)
    by (simp add: hello_body_def ac_simps)
  moreover have "length ?ch = 40 + length sid + length suites + length comps + length ext"
    using assms(1) by (simp add: hello_body_def)
  ultimately show ?thesis
    unfolding extensions_Some n using assms(5) by (simp add: s1 s2 s3)
qed

definition wf_ext :: "nat \<times> bytes \<Rightarrow> bool" where
  "wf_ext e \<longleftrightarrow> 0 < fst e \<and> fst e < 65536 \<and> length (snd e) < 65536"

lemma scan_skip:
  assumes "wf_ext x"
  shows "scanServerNameList ul (ext_bytes x @ more) = scanServerNameList ul more"
proof -
  let ?e = "ext_bytes x @ more"
  have "be16_at ?e 0 = fst x" "be16_at ?e 2 = length (snd x)"
    using be16_at_at [of 0 "[]" "fst x"] be16_at_at [of 2 "be_bytes 2 (fst x)" "length (snd x)"] assms
    by (simp_all add: ext_bytes_def wf_ext_def)
  moreover have "drop (4 + length (snd x)) ?e = more"
    by (simp add: ext_bytes_def)
  ultimately show ?thesis
    using assms by (subst scanServerNameList.simps) (simp add: ext_bytes_def wf_ext_def)
qed

lemma server_name_block:
  assumes "host \<noteq> []" "length host < 65533" "toLower ul (TrimSpace host) \<noteq> []"
    "length (toLower ul (TrimSpace host)) \<le> 255"
  shows "server_name ul (sni_block host) = Some (toLower ul (TrimSpace host))"
proof -
  have 1: "be16_at (sni_block host) 0 = length host + 3"
    using be16_at_at [of 0 "[]" "length host + 3"] assms(2) by (simp add: sni_block_def)
  have 2: "slice 2 (2 + (length host + 3)) (sni_block host) = 0 # be_bytes 2 (length host) @ sbytes host"
    by (simp add: sni_block_def slice_def)
  have 3: "be16_at (0 # be_bytes 2 (length host) @ sbytes host) 1 = length host"
    using be16_at_at [of 1 "[0]" "length host"] assms(2) by simp
  show ?thesis
    unfolding server_name_def Let_def 1 2 3 using assms by (simp add: sni_block_def slice_def)
qed

lemma scan_exts:
  assumes "\<forall>x \<in> set exts. wf_ext x" "host \<noteq> []" "length host + 5 < 65536"
    "toLower ul (TrimSpace host) \<noteq> []" "length (toLower ul (TrimSpace host)) \<le> 255"
  shows "scanServerNameList ul (hello_exts exts host rest) = Some (toLower ul (TrimSpace host))"
  using assms(1)
proof (induction exts)
  case Nil
  let ?e = "ext_bytes (0, sni_block host) @ rest"
  have "length (sni_block host) = length host + 5"
    by (simp add: sni_block_def)
  then have "be16_at ?e 0 = 0" "be16_at ?e 2 = length (sni_block host)"
    using be16_at_at [of 0 "[]" 0] be16_at_at [of 2 "be_bytes 2 0" "length (sni_block host)"] assms(3)
    by (simp_all add: ext_bytes_def)
  moreover have "slice 4 (4 + length (sni_block host)) ?e = sni_block host"
    by (simp add: ext_bytes_def slice_def)
  ultimately show ?case
    using server_name_block [OF assms(2) _ assms(4,5)] assms(3)
    by (subst scanServerNameList.simps) (simp add: hello_exts_def ext_bytes_def)
next
  case (Cons x exts)
  then show ?case
    using scan_skip [of x ul "hello_exts exts host rest"] by (simp add: hello_exts_def)
qed

lemma ParseClientHelloSNI_record:
  assumes "0x0301 \<le> ver" "ver \<le> 0x0304" "length rnd = 34" "length sid < 256"
    "length suites < 65536" "length comps < 256"
    "length (hello_body rnd sid suites comps (hello_exts exts host rest)) + 4 < 65536"
    "\<forall>x \<in> set exts. wf_ext x" "host \<noteq> []"
    "toLower ul (TrimSpace host) \<noteq> []" "length (toLower ul (TrimSpace host)) \<le> 255"
  shows "ParseClientHelloSNI ul (hello_record ver (hello_body rnd sid suites comps (hello_exts exts host rest)) @ more)
    = Some (toLower ul (TrimSpace host))"
proof (rule ParseClientHelloSNI_extend)
  let ?ext = "hello_exts exts host rest"
  have l: "length ?ext < 65536" "0 < length ?ext" "length host + 5 < 65536"
    using assms(7) by (simp_all add: hello_body_def hello_exts_def ext_bytes_def sni_block_def)
  have "34 \<le> length (hello_body rnd sid suites comps ?ext)"
    using assms(3) by (simp add: hello_body_def)
  then show "ParseClientHelloSNI ul (hello_record ver (hello_body rnd sid suites comps ?ext)) =
      Some (toLower ul (TrimSpace host))"
    using client_hello_record [OF assms(1,2) _ assms(7)] extensions_body [OF assms(3-6) l(2,1)]
      scan_exts [OF assms(8,9) l(3) assms(10,11)]
    by (simp add: ParseClientHelloSNI_def)
qed

section \<open>Properties\<close>

text \<open>C37. From any well-formed ClientHello record, whatever its session id, cipher suites, compression
  methods and other extensions, and whatever follows the record, the parser extracts the trimmed
  lower-case server name.\<close>

theorem client_hello_roundtrip:
  assumes "0x0301 \<le> ver" "ver \<le> 0x0304" "length rnd = 34" "length sid < 256"
    "length suites < 65536" "length comps < 256"
    "length (hello_body rnd sid suites comps (hello_exts exts host rest)) + 4 < 65536"
    "\<forall>x \<in> set exts. wf_ext x" "toLower ul (TrimSpace host) \<noteq> []"
    "length (toLower ul (TrimSpace host)) \<le> 255" "host \<noteq> []"
  shows "ParseClientHelloSNI ul
      (hello_record ver (hello_body rnd sid suites comps (hello_exts exts host rest)) @ more) =
    Some (toLower ul (TrimSpace host))"
  by (rule ParseClientHelloSNI_record) (use assms in auto)

theorem client_hello_roundtrip_witness:
  "ParseClientHelloSNI (\<lambda>s. s) (hello_record 0x0303 (hello_body (replicate 34 7) [1, 2] [0x13, 1] [0]
     (hello_exts [(10, [0, 2, 0, 29])] ''Example.COM'' []))) = Some ''example.com''"
proof -
  have "ParseClientHelloSNI (\<lambda>s. s) (hello_record 0x0303 (hello_body (replicate 34 7) [1, 2] [0x13, 1] [0]
     (hello_exts [(10, [0, 2, 0, 29])] ''Example.COM'' [])) @ []) = Some (toLower (\<lambda>s. s) (TrimSpace ''Example.COM''))"
  proof (rule client_hello_roundtrip)
    show "length (hello_body (replicate 34 7) [1, 2] [0x13, 1] [0] (hello_exts [(10, [0, 2, 0, 29])] ''Example.COM'' [])) + 4 < 65536"
      "\<forall>x \<in> set [(10, [0, 2, 0, 29])]. wf_ext x" "toLower (\<lambda>s. s) (TrimSpace ''Example.COM'') \<noteq> []"
      "length (toLower (\<lambda>s. s) (TrimSpace ''Example.COM'')) \<le> 255"
      by code_simp+
  qed simp_all
  also have "toLower (\<lambda>s. s) (TrimSpace ''Example.COM'') = ''example.com''"
    by code_simp
  finally show ?thesis
    by simp
qed

text \<open>Once a captured prefix yields a server name, no further bytes change it: every longer capture of
  the same stream yields the same name.\<close>

theorem sni_stable:
  "ParseClientHelloSNI ul b = Some s \<Longrightarrow> ParseClientHelloSNI ul (b @ c) = Some s"
  by (rule ParseClientHelloSNI_extend)

theorem sni_stable_witness:
  "ParseClientHelloSNI (\<lambda>s. s) (hello_record 0x0301 (hello_body (replicate 34 0) [] [] [] (hello_exts [] ''a.b'' [])) @ [1, 2, 3]) = Some ''a.b''"
  by (rule sni_stable) code_simp

end
