(* ===== verification/TlsReassembler.thy ===== *)
theory TlsReassembler
  imports TlsHello GoNet
begin

text \<open>
  Reassembly of a ClientHello that was split over several writes
  (\<^verbatim>\<open>internal/agent/agent_linux_tls_reassembler.go\<close>). The store is a Go map from
  \<open>(pid, dst, dport)\<close> to the bytes seen so far. The clock is read up to three times in one call (for the
  expiry cut-off, for a new entry, for the update), so a call takes three times; \<open>iterS\<close> is the
  order in which the map is walked when the oldest entry is sought. The mutex makes each call
  one transition.
\<close>

definition tlsReassemblyBufferCap :: int where "tlsReassemblyBufferCap = 512"
definition tlsReassemblyDefaultTTL :: int where "tlsReassemblyDefaultTTL = 30 * 1000000000"
definition tlsReassemblyDefaultMaxKey :: int where "tlsReassemblyDefaultMaxKey = 1024"

record tlsReassemblyKey =
  rk_pid :: "32 word"
  rk_dst :: bytes
  rk_dport :: "16 word"

definition tlsReassemblyKeyForEvent ::
  "32 word \<Rightarrow> bytes \<Rightarrow> bytes \<Rightarrow> bool \<Rightarrow> 16 word \<Rightarrow> tlsReassemblyKey option" where
  "tlsReassemblyKeyForEvent tgid daddr daddr6 isIPv6 dport =
     (if \<not> isIPv6 then Some \<lparr>rk_pid = tgid, rk_dst = daddr, rk_dport = dport\<rparr>
      else (case To4 daddr6 of None \<Rightarrow> None
        | Some v4 \<Rightarrow> Some \<lparr>rk_pid = tgid, rk_dst = v4, rk_dport = dport\<rparr>))"

record tlsReassemblyEntry =
  re_buf :: bytes
  re_created :: int
  re_updated :: int

type_synonym reassembly_store = "(tlsReassemblyKey \<times> tlsReassemblyEntry) list"

record tlsReassembler =
  r_ttl :: int
  r_maxKey :: nat
  r_bufCap :: nat
  r_store :: reassembly_store

definition newTLSReassemblerWithClock :: "int \<Rightarrow> int \<Rightarrow> int \<Rightarrow> tlsReassembler" where
  "newTLSReassemblerWithClock ttl maxKey bufCap =
     \<lparr>r_ttl = (if ttl \<le> 0 then tlsReassemblyDefaultTTL else ttl),
      r_maxKey = nat (if maxKey \<le> 0 then tlsReassemblyDefaultMaxKey else maxKey),
      r_bufCap = nat (if bufCap \<le> 0 then tlsReassemblyBufferCap else bufCap), r_store = []\<rparr>"

definition newTLSReassembler :: tlsReassembler where
  "newTLSReassembler = newTLSReassemblerWithClock tlsReassemblyDefaultTTL tlsReassemblyDefaultMaxKey tlsReassemblyBufferCap"

record appendResult =
  ar_sni :: string
  ar_parsed :: bool
  ar_bufferLen :: nat
  ar_reassembly :: bool

definition evictExpiredLocked :: "int \<Rightarrow> tlsReassembler \<Rightarrow> nat \<times> tlsReassembler" where
  "evictExpiredLocked now r = (if r_ttl r \<le> 0 \<or> r_store r = [] then (0, r)
     else let cutoff = now - r_ttl r; kept = filter (\<lambda>(k, v). \<not> re_updated v < cutoff) (r_store r) in
       (length (r_store r) - length kept, r\<lparr>r_store := kept\<rparr>))"

fun oldest :: "reassembly_store \<Rightarrow> (tlsReassemblyKey \<times> int) option \<Rightarrow> (tlsReassemblyKey \<times> int) option" where
  "oldest [] best = best"
| "oldest ((k, v) # es) best = oldest es (case best of None \<Rightarrow> Some (k, re_updated v)
     | Some (_, at) \<Rightarrow> if re_updated v < at then Some (k, re_updated v) else best)"

definition evictOldestLocked :: "(reassembly_store \<Rightarrow> reassembly_store) \<Rightarrow> tlsReassembler \<Rightarrow> tlsReassembler" where
  "evictOldestLocked iterS r = (case oldest (iterS (r_store r)) None of None \<Rightarrow> r
     | Some (k, _) \<Rightarrow> r\<lparr>r_store := AList.delete k (r_store r)\<rparr>)"

definition noResult :: appendResult where
  "noResult = \<lparr>ar_sni = [], ar_parsed = False, ar_bufferLen = 0, ar_reassembly = False\<rparr>"

definition appendAndParse :: "(string \<Rightarrow> string) \<Rightarrow> (reassembly_store \<Rightarrow> reassembly_store) \<Rightarrow> int \<times> int \<times> int \<Rightarrow>
    tlsReassemblyKey \<Rightarrow> bytes \<Rightarrow> tlsReassembler \<Rightarrow> appendResult \<times> tlsReassembler" where
  "appendAndParse ul iterS clock key payload r =
    (if payload = [] then (noResult, r)
     else let (t1, t2, t3) = clock;
       r1 = snd (evictExpiredLocked t1 r);
       (hadEntry, entry, r2) = (case map_of (r_store r1) key of
           Some e \<Rightarrow> (True, e, r1)
         | None \<Rightarrow> (False, \<lparr>re_buf = [], re_created = t2, re_updated = 0\<rparr>,
             if r_maxKey r1 \<le> length (r_store r1) then evictOldestLocked iterS r1 else r1));
       buf = re_buf entry @ take (r_bufCap r2 - length (re_buf entry)) payload;
       r3 = r2\<lparr>r_store := AList.update key (entry\<lparr>re_buf := buf, re_updated := t3\<rparr>) (r_store r2)\<rparr>;
       gone = r2\<lparr>r_store := AList.delete key (r_store r2)\<rparr> in
     if 1 \<le> length buf \<and> buf ! 0 \<noteq> 0x16 then (noResult\<lparr>ar_bufferLen := length buf\<rparr>, gone)
     else (case ParseClientHelloSNI ul buf of
         Some sni \<Rightarrow> (\<lparr>ar_sni = sni, ar_parsed = True, ar_bufferLen = length buf, ar_reassembly = hadEntry\<rparr>, gone)
       | None \<Rightarrow> (noResult\<lparr>ar_bufferLen := length buf\<rparr>, r3)))"

definition sweep :: "int \<Rightarrow> tlsReassembler \<Rightarrow> nat \<times> tlsReassembler" where
  "sweep now r = evictExpiredLocked now r"

definition reassembler_len :: "tlsReassembler \<Rightarrow> nat" where
  "reassembler_len r = length (r_store r)"

section \<open>Invariant\<close>

text \<open>Between calls the store holds at most \<^verbatim>\<open>maxKey\<close> keys, and every buffer is a non-empty handshake
  prefix of at most \<^verbatim>\<open>bufCap\<close> bytes that does not yield a name yet.\<close>

definition waiting :: "(string \<Rightarrow> string) \<Rightarrow> nat \<Rightarrow> bytes \<Rightarrow> bool" where
  "waiting ul cap b \<longleftrightarrow> b \<noteq> [] \<and> length b \<le> cap \<and> b ! 0 = 0x16 \<and> ParseClientHelloSNI ul b = None"

definition reassembler_inv :: "(string \<Rightarrow> string) \<Rightarrow> tlsReassembler \<Rightarrow> bool" where
  "reassembler_inv ul r \<longleftrightarrow> 0 < r_ttl r \<and> 0 < r_maxKey r \<and> 0 < r_bufCap r \<and> wf_map (r_store r) \<and>
     length (r_store r) \<le> r_maxKey r \<and> (\<forall>e \<in> snd ` set (r_store r). waiting ul (r_bufCap r) (re_buf e))"

lemma new_inv: "reassembler_inv ul (newTLSReassemblerWithClock ttl maxKey bufCap)"
  by (simp add: reassembler_inv_def newTLSReassemblerWithClock_def tlsReassemblyDefaultTTL_def
      tlsReassemblyDefaultMaxKey_def tlsReassemblyBufferCap_def)

text \<open>Invariant-preserving operations that only remove entries.\<close>

definition shrinks :: "tlsReassembler \<Rightarrow> tlsReassembler \<Rightarrow> bool" where
  "shrinks r r' \<longleftrightarrow> (\<exists>P. r' = r\<lparr>r_store := filter P (r_store r)\<rparr>)"

lemma shrinks_refl: "shrinks r r"
  unfolding shrinks_def by (rule exI [of _ "\<lambda>_. True"]) simp

lemma shrinks_inv:
  assumes "shrinks r r'" "reassembler_inv ul r"
  shows "reassembler_inv ul r'"
proof -
  obtain P where "r' = r\<lparr>r_store := filter P (r_store r)\<rparr>"
    using assms(1) by (auto simp: shrinks_def)
  then show ?thesis
    using assms(2) le_trans [OF length_filter_le [of P "r_store r"]]
    by (auto simp: reassembler_inv_def wf_map_filter)
qed

lemma shrinks_delete: "shrinks r (r\<lparr>r_store := AList.delete k (r_store r)\<rparr>)"
  by (auto simp: shrinks_def AList.delete_eq)

lemma shrinks_expired: "shrinks r (snd (evictExpiredLocked now r))"
  using shrinks_refl [of r] by (auto simp: evictExpiredLocked_def Let_def shrinks_def)

lemma oldest_some: "oldest es best = Some (k, t) \<Longrightarrow> best \<noteq> Some (k, t) \<Longrightarrow> k \<in> fst ` set es"
proof (induction es best rule: oldest.induct)
  case (2 k' v es best)
  then show ?case
    by (cases "oldest es best = Some (k, t)") (auto split: option.splits prod.splits if_splits)
qed simp

lemma oldest_none: "oldest es best = None \<longleftrightarrow> es = [] \<and> best = None"
  by (induction es best rule: oldest.induct) (auto split: option.splits)

lemma length_delete_mem:
  assumes "wf_map m" "k \<in> fst ` set m"
  shows "length (AList.delete k m) = length m - 1"
proof -
  have "length (AList.delete k m) = length (remove1 k (map fst m))"
    using assms(1) by (metis delete_keys distinct_remove1_removeAll length_map)
  then show ?thesis
    using assms(2) by (simp add: length_remove1)
qed

lemma evictOldest_inv:
  assumes "iterates iterS" "wf_map (r_store r)" "length (r_store r) \<le> r_maxKey r" "0 < r_maxKey r"
  shows "shrinks r (evictOldestLocked iterS r)" "length (r_store (evictOldestLocked iterS r)) < r_maxKey r"
proof -
  show "shrinks r (evictOldestLocked iterS r)"
    using shrinks_refl shrinks_delete by (auto simp: evictOldestLocked_def split: option.splits)
  show "length (r_store (evictOldestLocked iterS r)) < r_maxKey r"
  proof (cases "oldest (iterS (r_store r)) None")
    case None
    then have "r_store r = []"
      using iterates_set [OF assms(1), of "r_store r"] by (simp add: oldest_none)
    then show ?thesis
      using assms(4) None by (simp add: evictOldestLocked_def)
  next
    case (Some kt)
    then obtain k t where kt: "oldest (iterS (r_store r)) None = Some (k, t)"
      by (cases kt) auto
    then have "k \<in> fst ` set (r_store r)"
      using oldest_some [OF kt] iterates_set [OF assms(1)] by auto
    then have "0 < length (r_store r)" "length (AList.delete k (r_store r)) = length (r_store r) - 1"
      using length_delete_mem [OF assms(2)] by auto
    with kt assms(3) show ?thesis
      by (simp add: evictOldestLocked_def del: length_greater_0_conv)
  qed
qed

section \<open>One call\<close>

text \<open>The live buffer of a key at time \<open>t\<close>: what an unexpired entry holds.\<close>

definition live_buf :: "int \<Rightarrow> tlsReassembler \<Rightarrow> tlsReassemblyKey \<Rightarrow> bytes" where
  "live_buf t r k = (case map_of (r_store r) k of None \<Rightarrow> []
     | Some e \<Rightarrow> if re_updated e < t - r_ttl r then [] else re_buf e)"

definition stored_buf :: "tlsReassembler \<Rightarrow> tlsReassemblyKey \<Rightarrow> bytes option" where
  "stored_buf r k = map_option re_buf (map_of (r_store r) k)"

lemma map_of_expired:
  assumes "reassembler_inv ul r"
  shows "map_of (r_store (snd (evictExpiredLocked t r))) k = (case map_of (r_store r) k of None \<Rightarrow> None
     | Some e \<Rightarrow> if re_updated e < t - r_ttl r then None else Some e)"
  using assms map_of_filter_wf [of "r_store r" "\<lambda>(k, v). \<not> re_updated v < t - r_ttl r" k]
  by (auto simp: evictExpiredLocked_def Let_def reassembler_inv_def split: option.splits)

lemma shrinks_frame: "shrinks r r' \<Longrightarrow> r_ttl r' = r_ttl r \<and> r_maxKey r' = r_maxKey r \<and> r_bufCap r' = r_bufCap r"
  by (auto simp: shrinks_def)

lemma shrinks_trans: "shrinks a b \<Longrightarrow> shrinks b c \<Longrightarrow> shrinks a c"
  by (auto simp: shrinks_def)

text \<open>A call first makes room: \<open>room\<close> is the state in which the new bytes are stored.\<close>

definition room :: "(reassembly_store \<Rightarrow> reassembly_store) \<Rightarrow> int \<Rightarrow> tlsReassemblyKey \<Rightarrow> tlsReassembler \<Rightarrow> tlsReassembler" where
  "room iterS t key r = (let r1 = snd (evictExpiredLocked t r) in
     if map_of (r_store r1) key = None \<and> r_maxKey r1 \<le> length (r_store r1) then evictOldestLocked iterS r1 else r1)"

lemma room_inv:
  assumes "iterates iterS" "reassembler_inv ul r"
  shows "shrinks r (room iterS t key r)" "reassembler_inv ul (room iterS t key r)"
    "key \<notin> fst ` set (r_store (room iterS t key r)) \<Longrightarrow> length (r_store (room iterS t key r)) < r_maxKey r"
proof -
  let ?r1 = "snd (evictExpiredLocked t r)"
  have i: "reassembler_inv ul ?r1"
    by (rule shrinks_inv [OF shrinks_expired assms(2)])
  then have w: "wf_map (r_store ?r1)" "length (r_store ?r1) \<le> r_maxKey ?r1" "0 < r_maxKey ?r1"
    by (simp_all add: reassembler_inv_def)
  note e = evictOldest_inv [OF assms(1) w]
  show s: "shrinks r (room iterS t key r)"
    using shrinks_trans [OF shrinks_expired e(1)] shrinks_expired by (simp add: room_def Let_def)
  show "reassembler_inv ul (room iterS t key r)"
    by (rule shrinks_inv [OF s assms(2)])
  show "length (r_store (room iterS t key r)) < r_maxKey r" if "key \<notin> fst ` set (r_store (room iterS t key r))"
    using that e(2) shrinks_frame [OF shrinks_expired [of r t]]
    by (auto simp: room_def Let_def map_of_eq_None_iff not_le split: if_splits)
qed

lemma room_buf:
  assumes "reassembler_inv ul r" "iterates iterS"
  shows "live_buf t r key = (case map_of (r_store (room iterS t key r)) key of None \<Rightarrow> [] | Some e \<Rightarrow> re_buf e)"
    "map_of (r_store (snd (evictExpiredLocked t r))) key = map_of (r_store (room iterS t key r)) key"
proof -
  let ?r1 = "snd (evictExpiredLocked t r)"
  show eq: "map_of (r_store ?r1) key = map_of (r_store (room iterS t key r)) key"
  proof (cases "map_of (r_store ?r1) key = None \<and> r_maxKey ?r1 \<le> length (r_store ?r1)")
    case True
    have w: "wf_map (r_store ?r1)" "length (r_store ?r1) \<le> r_maxKey ?r1" "0 < r_maxKey ?r1"
      using shrinks_inv [OF shrinks_expired assms(1)] by (simp_all add: reassembler_inv_def)
    obtain P where "evictOldestLocked iterS ?r1 = ?r1\<lparr>r_store := filter P (r_store ?r1)\<rparr>"
      using evictOldest_inv(1) [OF assms(2) w] unfolding shrinks_def by blast
    with True show ?thesis
      by (auto simp: room_def Let_def map_of_filter_wf [OF w(1)])
  next
    case False
    then show ?thesis
      unfolding room_def Let_def by (simp only: if_False)
  qed
  show "live_buf t r key = (case map_of (r_store (room iterS t key r)) key of None \<Rightarrow> [] | Some e \<Rightarrow> re_buf e)"
    unfolding eq [symmetric] map_of_expired [OF assms(1)] by (simp add: live_buf_def split: option.splits)
qed

text \<open>What a call makes of the accumulated bytes \<open>nb\<close>.\<close>

definition append_outcome :: "(string \<Rightarrow> string) \<Rightarrow> tlsReassemblyKey \<Rightarrow> bytes \<Rightarrow> bool \<Rightarrow> int \<Rightarrow> int \<Rightarrow> tlsReassembler \<Rightarrow>
    appendResult \<times> tlsReassembler" where
  "append_outcome ul key nb had cr t rm =
    (if nb ! 0 \<noteq> 0x16 then (noResult\<lparr>ar_bufferLen := length nb\<rparr>, rm\<lparr>r_store := AList.delete key (r_store rm)\<rparr>)
     else (case ParseClientHelloSNI ul nb of
        Some sni \<Rightarrow> (\<lparr>ar_sni = sni, ar_parsed = True, ar_bufferLen = length nb, ar_reassembly = had\<rparr>,
          rm\<lparr>r_store := AList.delete key (r_store rm)\<rparr>)
      | None \<Rightarrow> (noResult\<lparr>ar_bufferLen := length nb\<rparr>,
          rm\<lparr>r_store := AList.update key \<lparr>re_buf = nb, re_created = cr, re_updated = t\<rparr> (r_store rm)\<rparr>)))"

lemma append_step:
  assumes "iterates iterS" "reassembler_inv ul r" "payload \<noteq> []"
    and nb: "nb = take (r_bufCap r) (live_buf t1 r key @ payload)"
    and rm: "rm = room iterS t1 key r"
  shows "\<exists>cr. appendAndParse ul iterS (t1, t2, t3) key payload r =
    append_outcome ul key nb (live_buf t1 r key \<noteq> []) cr t3 rm"
proof -
  let ?r1 = "snd (evictExpiredLocked t1 r)"
  note b = room_buf [OF assms(2,1), of t1 key]
  have fr: "r_bufCap rm = r_bufCap r" "reassembler_inv ul rm"
    using shrinks_frame [OF room_inv(1) [OF assms(1,2)]] room_inv(2) [OF assms(1,2)] by (simp_all add: rm)
  have ne: "0 < length nb"
    using assms(2,3) by (simp add: nb reassembler_inv_def)
  show ?thesis
  proof (cases "map_of (r_store rm) key")
    case None
    then have 1: "map_of (r_store ?r1) key = None" "live_buf t1 r key = []"
      using b by (simp_all add: rm)
    have 2: "(if r_maxKey ?r1 \<le> length (r_store ?r1) then evictOldestLocked iterS ?r1 else ?r1) = rm"
      using 1(1) by (simp add: rm room_def Let_def)
    have 3: "take (r_bufCap rm) payload = nb" "0 < r_bufCap rm"
      using fr(2) by (simp_all add: nb 1(2) fr(1) [symmetric] reassembler_inv_def)
    show ?thesis
      by (rule exI [of _ t2])
        (use assms(3) in \<open>simp add: append_outcome_def appendAndParse_def Let_def 1 2 3 Suc_le_eq split: option.split\<close>)
  next
    case (Some e)
    then have 1: "map_of (r_store ?r1) key = Some e" "live_buf t1 r key = re_buf e"
      using b by (simp_all add: rm)
    have 2: "?r1 = rm"
      using 1(1) by (simp add: rm room_def Let_def)
    have w: "waiting ul (r_bufCap r) (re_buf e)"
      using fr(2) map_of_SomeD [OF Some] by (force simp: reassembler_inv_def fr(1))
    then have 3: "re_buf e @ take (r_bufCap rm - length (re_buf e)) payload = nb" "re_buf e \<noteq> []"
      by (simp_all add: nb 1(2) fr waiting_def)
    have 4: "e\<lparr>re_buf := x, re_updated := y\<rparr> = \<lparr>re_buf = x, re_created = re_created e, re_updated = y\<rparr>" for x y
      by (cases e) simp
    show ?thesis
      by (rule exI [of _ "re_created e"])
        (use assms(3) ne Some in \<open>simp add: append_outcome_def appendAndParse_def Let_def 1 2 3 4 Suc_le_eq split: option.split\<close>)
  qed
qed

text \<open>The invariant is kept by every call, and the stored buffer of the key afterwards is the live one
  with the payload appended and cut at the capacity, unless the call settled the key.\<close>

lemma append_inv:
  assumes "iterates iterS" "reassembler_inv ul r"
  shows "reassembler_inv ul (snd (appendAndParse ul iterS clock key payload r))"
proof (cases "payload = []")
  case False
  obtain t1 t2 t3 where c: "clock = (t1, t2, t3)"
    by (cases clock) auto
  let ?nb = "take (r_bufCap r) (live_buf t1 r key @ payload)" and ?rm = "room iterS t1 key r"
  obtain cr where step: "appendAndParse ul iterS (t1, t2, t3) key payload r =
      append_outcome ul key ?nb (live_buf t1 r key \<noteq> []) cr t3 ?rm"
    using append_step [OF assms False refl refl] by blast
  note i = room_inv [OF assms, where t = t1 and key = key]
  have fr: "r_bufCap ?rm = r_bufCap r" "r_maxKey ?rm = r_maxKey r"
    using shrinks_frame [OF i(1)] by simp_all
  have gone: "reassembler_inv ul (?rm\<lparr>r_store := AList.delete key (r_store ?rm)\<rparr>)"
    by (rule shrinks_inv [OF shrinks_delete i(2)])
  have kept: "reassembler_inv ul (?rm\<lparr>r_store := AList.update key \<lparr>re_buf = ?nb, re_created = cr, re_updated = t3\<rparr> (r_store ?rm)\<rparr>)"
    if "?nb ! 0 = 0x16" "ParseClientHelloSNI ul ?nb = None"
  proof -
    have "waiting ul (r_bufCap r) ?nb"
      using that assms(2) False by (auto simp: waiting_def reassembler_inv_def)
    moreover have "length (AList.update key x (r_store ?rm)) \<le> r_maxKey r" for x
      using i(2,3) fr(2) length_alist_update_le [of key x "r_store ?rm"] length_alist_update_mem [of key "r_store ?rm" x]
      by (cases "key \<in> fst ` set (r_store ?rm)") (simp_all add: reassembler_inv_def)
    moreover from i(2) \<open>waiting ul (r_bufCap r) ?nb\<close>
    have "\<forall>e \<in> snd ` set (AList.update key \<lparr>re_buf = ?nb, re_created = cr, re_updated = t3\<rparr> (r_store ?rm)).
        waiting ul (r_bufCap r) (re_buf e)"
      unfolding reassembler_inv_def fr by (intro values_alist_update) (blast, simp only: tlsReassemblyEntry.simps)
    ultimately show ?thesis
      using i(2) by (simp add: reassembler_inv_def fr wf_map_update)
  qed
  show ?thesis
    unfolding c step append_outcome_def using gone kept by (auto split: option.split)
qed (simp add: appendAndParse_def assms(2))

lemma append_result:
  assumes "iterates iterS" "reassembler_inv ul r" "payload \<noteq> []"
    and nb: "nb = take (r_bufCap r) (live_buf t1 r key @ payload)"
    and res: "appendAndParse ul iterS (t1, t2, t3) key payload r = (res, r')"
  shows "nb ! 0 \<noteq> 0x16 \<Longrightarrow> \<not> ar_parsed res \<and> map_of (r_store r') key = None"
    "nb ! 0 = 0x16 \<Longrightarrow> ParseClientHelloSNI ul nb = Some sni \<Longrightarrow> ar_parsed res \<and> ar_sni res = sni \<and>
       ar_reassembly res = (live_buf t1 r key \<noteq> []) \<and> map_of (r_store r') key = None"
    "nb ! 0 = 0x16 \<Longrightarrow> ParseClientHelloSNI ul nb = None \<Longrightarrow> \<not> ar_parsed res \<and>
       (\<exists>e. map_of (r_store r') key = Some e \<and> re_buf e = nb \<and> re_updated e = t3)"
    "ar_bufferLen res = length nb" "r_ttl r' = r_ttl r" "r_bufCap r' = r_bufCap r"
proof -
  obtain cr where "(res, r') = append_outcome ul key nb (live_buf t1 r key \<noteq> []) cr t3 (room iterS t1 key r)"
    using append_step [OF assms(1-3) nb refl] res by metis
  note o = this [unfolded append_outcome_def]
  note fr = shrinks_frame [OF room_inv(1) [OF assms(1,2)], of t1 key]
  show "nb ! 0 \<noteq> 0x16 \<Longrightarrow> \<not> ar_parsed res \<and> map_of (r_store r') key = None"
    using o by (simp add: noResult_def delete_conv')
  show "nb ! 0 = 0x16 \<Longrightarrow> ParseClientHelloSNI ul nb = Some sni \<Longrightarrow> ar_parsed res \<and> ar_sni res = sni \<and>
       ar_reassembly res = (live_buf t1 r key \<noteq> []) \<and> map_of (r_store r') key = None"
    using o by (simp add: delete_conv')
  show "nb ! 0 = 0x16 \<Longrightarrow> ParseClientHelloSNI ul nb = None \<Longrightarrow> \<not> ar_parsed res \<and>
       (\<exists>e. map_of (r_store r') key = Some e \<and> re_buf e = nb \<and> re_updated e = t3)"
    using o by (simp add: noResult_def update_conv')
  show "ar_bufferLen res = length nb" "r_ttl r' = r_ttl r" "r_bufCap r' = r_bufCap r"
    using o fr by (auto simp: noResult_def split: if_splits option.splits)
qed

section \<open>A stream of writes\<close>

text \<open>\<open>feed\<close> plays the writes of one connection, each with its clock readings.\<close>

fun feed :: "(string \<Rightarrow> string) \<Rightarrow> (reassembly_store \<Rightarrow> reassembly_store) \<Rightarrow> tlsReassemblyKey \<Rightarrow>
    ((int \<times> int \<times> int) \<times> bytes) list \<Rightarrow> tlsReassembler \<Rightarrow> appendResult list \<times> tlsReassembler" where
  "feed ul iterS key [] r = ([], r)"
| "feed ul iterS key ((clock, p) # ws) r = (let (res, r1) = appendAndParse ul iterS clock key p r;
      (rest, r2) = feed ul iterS key ws r1 in (res # rest, r2))"

text \<open>Writes come in time when each happens at most the TTL after the one before.\<close>

fun timely :: "int \<Rightarrow> int \<Rightarrow> ((int \<times> int \<times> int) \<times> bytes) list \<Rightarrow> bool" where
  "timely ttl prev [] = True"
| "timely ttl prev (((t1, _, t3), _) # ws) = (t1 - ttl \<le> prev \<and> timely ttl t3 ws)"

lemma feed_nonempty: "fst (feed ul iterS key ws r) = [] \<longleftrightarrow> ws = []"
  by (cases ws) (auto simp: case_prod_unfold Let_def)

lemma live_after:
  "map_of (r_store r) key = Some e \<Longrightarrow> t - r_ttl r \<le> re_updated e \<Longrightarrow> live_buf t r key = re_buf e"
  by (simp add: live_buf_def)

text \<open>Once the buffered prefix is \<open>b\<close>, the name comes out at the first write that completes it.\<close>

lemma feed_recovers:
  assumes "iterates iterS" "reassembler_inv ul r" "map_of (r_store r) key = Some e"
    "timely (r_ttl r) (re_updated e) ws" "ws \<noteq> []" "\<forall>w \<in> set ws. snd w \<noteq> []"
    "length (re_buf e @ concat (map snd ws)) \<le> r_bufCap r"
    "ParseClientHelloSNI ul (re_buf e @ concat (map snd ws)) = Some sni"
    "\<forall>i < length ws. ParseClientHelloSNI ul (re_buf e @ concat (map snd (take i ws))) = None"
  shows "ar_parsed (last (fst (feed ul iterS key ws r))) \<and> ar_sni (last (fst (feed ul iterS key ws r))) = sni \<and>
    ar_reassembly (last (fst (feed ul iterS key ws r)))"
  using assms(2-)
proof (induction ws arbitrary: r e)
  case (Cons w ws)
  obtain t1 t2 t3 p where w: "w = ((t1, t2, t3), p)"
    by (metis surj_pair)
  have p: "p \<noteq> []" "t1 - r_ttl r \<le> re_updated e" "timely (r_ttl r) t3 ws"
    using Cons.prems(3,5) by (simp_all add: w)
  let ?nb = "re_buf e @ p"
  have live: "live_buf t1 r key = re_buf e"
    by (rule live_after [OF Cons.prems(2) p(2)])
  have nb: "?nb = take (r_bufCap r) (live_buf t1 r key @ p)"
    using Cons.prems(6) by (simp add: live w)
  obtain res r1 where ap: "appendAndParse ul iterS (t1, t2, t3) key p r = (res, r1)"
    by fastforce
  note a = append_result [OF assms(1) Cons.prems(1) p(1) nb ap]
  have r1: "reassembler_inv ul r1"
    using append_inv [OF assms(1) Cons.prems(1), of "(t1, t2, t3)" key p] ap by simp
  have buf: "waiting ul (r_bufCap r) (re_buf e)"
    using Cons.prems(1) map_of_SomeD [OF Cons.prems(2)] by (force simp: reassembler_inv_def)
  then have hd: "?nb ! 0 = 0x16" "re_buf e \<noteq> []"
    by (auto simp: waiting_def nth_append)
  show ?case
  proof (cases ws)
    case Nil
    then have "ParseClientHelloSNI ul ?nb = Some sni"
      using Cons.prems(7) by (simp add: w)
    then show ?thesis
      using a(2) [OF hd(1)] hd(2) ap by (simp add: w Nil live)
  next
    case ws: (Cons w' ws')
    have none: "ParseClientHelloSNI ul ?nb = None"
      using Cons.prems(8) [rule_format, of 1] by (simp add: w ws)
    obtain e1 where e1: "map_of (r_store r1) key = Some e1" "re_buf e1 = ?nb" "re_updated e1 = t3"
      using a(3) [OF hd(1) none] by blast
    have pre: "\<forall>i < length ws. ParseClientHelloSNI ul (re_buf e1 @ concat (map snd (take i ws))) = None"
    proof safe
      fix i assume "i < length ws"
      then show "ParseClientHelloSNI ul (re_buf e1 @ concat (map snd (take i ws))) = None"
        using Cons.prems(8) [rule_format, of "Suc i"] by (simp add: w e1(2))
    qed
    have "ar_parsed (last (fst (feed ul iterS key ws r1))) \<and> ar_sni (last (fst (feed ul iterS key ws r1))) = sni \<and>
      ar_reassembly (last (fst (feed ul iterS key ws r1)))"
      using Cons.prems(5,6,7) p(3) a(5,6) ws pre
      by (intro Cons.IH [OF r1 e1(1)]) (simp_all add: w e1)
    moreover have "fst (feed ul iterS key (w # ws) r) = res # fst (feed ul iterS key ws r1)"
      "fst (feed ul iterS key ws r1) \<noteq> []"
      using ap by (simp_all add: w ws feed_nonempty case_prod_unfold Let_def)
    ultimately show ?thesis
      by simp
  qed
qed simp

section \<open>Properties\<close>


definition demo_hello :: bytes where
  "demo_hello = hello_record 0x0303 (hello_body (replicate 34 7) [] [0x13, 1] [0] (hello_exts [] ''a.example'' []))"

definition demo_key :: tlsReassemblyKey where
  "demo_key = \<lparr>rk_pid = 42, rk_dst = [10, 0, 0, 1], rk_dport = 443\<rparr>"


text \<open>C39. Every call keeps the store bounded: at most the configured number of keys, each with a non-empty
  handshake prefix within the buffer size that does not yield a name yet; and the constructor starts so.\<close>

theorem reassembler_bounded:
  "reassembler_inv ul (newTLSReassemblerWithClock ttl maxKey bufCap) \<and>
   (iterates iterS \<longrightarrow> reassembler_inv ul r \<longrightarrow>
     reassembler_inv ul (snd (appendAndParse ul iterS clock key payload r)) \<and>
     reassembler_inv ul (snd (sweep now r)))"
  using new_inv append_inv shrinks_inv [OF shrinks_expired] by (simp add: sweep_def)

theorem reassembler_bounded_witness:
  "reassembler_inv (\<lambda>s. s) (snd (appendAndParse (\<lambda>s. s) rev (0, 0, 0) demo_key [0x16, 3, 1] newTLSReassembler))"
  by (rule reassembler_bounded [THEN conjunct2, THEN mp, THEN mp, THEN conjunct1])
    (simp_all add: iterates_id new_inv newTLSReassembler_def)

end
