(* ===== verification/KtlsTracker.thy ===== *)
theory KtlsTracker
  imports Prelude
begin

text \<open>
  Correlation of kernel-TLS offloads with later ClientHello events
  (\<^verbatim>\<open>internal/agent/agent_linux_ktls_tracker.go\<close>). Wall-clock times are arguments in nanoseconds;
  \<open>iterB\<close> is the order in which the map is walked. A nil tracker is \<open>None\<close>.
\<close>

definition ktlsTrackerTTL :: int where "ktlsTrackerTTL = 60 * 1000000000"

type_synonym ktlsKey = "32 word \<times> 32 word"

record ktlsEntry =
  k_at :: int
  k_markedAt :: int

type_synonym ktlsTracker = "(ktlsKey \<times> ktlsEntry) list"

definition newKTLSTracker :: ktlsTracker where
  "newKTLSTracker = []"

definition evictLocked :: "int \<Rightarrow> ktlsTracker \<Rightarrow> ktlsTracker" where
  "evictLocked now t = (let cutoff = now - ktlsTrackerTTL in filter (\<lambda>(k, e). cutoff < k_at e) t)"

definition Mark :: "int \<Rightarrow> 32 word \<Rightarrow> 32 word \<Rightarrow> int \<Rightarrow> ktlsTracker option \<Rightarrow> ktlsTracker option" where
  "Mark now pid fd markedAtNs to = (case to of None \<Rightarrow> None
     | Some t \<Rightarrow> Some (AList.update (pid, fd) \<lparr>k_at = now, k_markedAt = markedAtNs\<rparr> (evictLocked now t)))"

fun earliest :: "32 word \<Rightarrow> int \<Rightarrow> (ktlsKey \<times> ktlsEntry) list \<Rightarrow> int option \<Rightarrow> int option" where
  "earliest pid cutoff [] best = best"
| "earliest pid cutoff ((k, e) # es) best =
     (if fst k \<noteq> pid \<or> \<not> cutoff < k_at e then earliest pid cutoff es best
      else earliest pid cutoff es (case best of None \<Rightarrow> Some (k_markedAt e)
        | Some b \<Rightarrow> if k_markedAt e < b then Some (k_markedAt e) else best))"

definition IsKTLS :: "(ktlsTracker \<Rightarrow> ktlsTracker) \<Rightarrow> int \<Rightarrow> 32 word \<Rightarrow> 32 word \<Rightarrow> int \<Rightarrow> ktlsTracker option \<Rightarrow> bool" where
  "IsKTLS iterB now pid fd tlsTimestampNs to = (case to of None \<Rightarrow> False
     | Some t \<Rightarrow> let cutoff = now - ktlsTrackerTTL in
       if fd \<noteq> 0 then (case map_of t (pid, fd) of
           Some e \<Rightarrow> if cutoff < k_at e then k_markedAt e \<le> tlsTimestampNs else False | None \<Rightarrow> False)
       else (case earliest pid cutoff (iterB t) None of None \<Rightarrow> False
         | Some b \<Rightarrow> b \<le> tlsTimestampNs))"

section \<open>The wildcard answer\<close>

text \<open>An offload is in force for a query when it is live and was marked no later than the query.\<close>

definition in_force :: "int \<Rightarrow> int \<Rightarrow> ktlsEntry \<Rightarrow> bool" where
  "in_force now ts e \<longleftrightarrow> now - ktlsTrackerTTL < k_at e \<and> k_markedAt e \<le> ts"

lemma earliest_le:
  "(\<exists>b. earliest pid cutoff es best = Some b \<and> b \<le> ts) \<longleftrightarrow>
     (\<exists>b. best = Some b \<and> b \<le> ts) \<or>
     (\<exists>x \<in> set es. fst (fst x) = pid \<and> cutoff < k_at (snd x) \<and> k_markedAt (snd x) \<le> ts)"
proof (induction pid cutoff es best rule: earliest.induct)
  case (2 pid cutoff k e es best)
  show ?case
  proof (cases "fst k \<noteq> pid \<or> \<not> cutoff < k_at e")
    case True
    then show ?thesis
      using "2.IH"(1) by auto
  next
    case False
    then show ?thesis
      using "2.IH"(2) by (cases best) auto
  qed
qed simp

lemma IsKTLS_exact:
  "fd \<noteq> 0 \<Longrightarrow> IsKTLS iterB now pid fd ts (Some t) \<longleftrightarrow> (\<exists>e. map_of t (pid, fd) = Some e \<and> in_force now ts e)"
  by (auto simp: IsKTLS_def in_force_def Let_def split: option.splits)

lemma IsKTLS_wildcard:
  assumes "iterates iterB"
  shows "IsKTLS iterB now pid 0 ts (Some t) \<longleftrightarrow> (\<exists>fd e. ((pid, fd), e) \<in> set t \<and> in_force now ts e)"
proof -
  have "IsKTLS iterB now pid 0 ts (Some t) \<longleftrightarrow>
      (\<exists>b. earliest pid (now - ktlsTrackerTTL) (iterB t) None = Some b \<and> b \<le> ts)"
    by (auto simp: IsKTLS_def Let_def split: option.splits)
  then show ?thesis
    unfolding earliest_le iterates_set [OF assms] by (force simp: in_force_def)
qed

lemma Mark_wf: "wf_map t \<Longrightarrow> Mark now pid fd m (Some t) = Some t' \<Longrightarrow> wf_map t'"
  by (auto simp: Mark_def evictLocked_def Let_def intro!: wf_map_update wf_map_filter)

lemma Mark_in_force:
  assumes "wf_map t" "Mark now pid fd m (Some t) = Some t'" "now \<le> later"
  shows "((p, f), e) \<in> set t' \<and> in_force later ts e \<longleftrightarrow>
    ((p, f) = (pid, fd) \<and> e = \<lparr>k_at = now, k_markedAt = m\<rparr> \<or> (p, f) \<noteq> (pid, fd) \<and> ((p, f), e) \<in> set t) \<and> in_force later ts e"
  using assms set_alist_update [OF wf_map_filter [OF assms(1)]]
  by (auto simp: Mark_def evictLocked_def Let_def in_force_def)

section \<open>Properties\<close>

text \<open>A query without a descriptor answers yes exactly when some live offload of the process, on any
  descriptor, was marked no later than the event; the answer does not depend on the order of the map,
  and it is yes whenever a query for one of the process's descriptors is.\<close>

theorem ktls_wildcard_is_any:
  "iterates iterB \<Longrightarrow> wf_map t \<Longrightarrow>
   (IsKTLS iterB now pid 0 ts (Some t) \<longleftrightarrow> (\<exists>fd e. map_of t (pid, fd) = Some e \<and> in_force now ts e)) \<and>
   (IsKTLS iterB now pid fd ts (Some t) \<longrightarrow> IsKTLS iterB now pid 0 ts (Some t))"
  using IsKTLS_wildcard [of iterB now pid ts t] IsKTLS_exact [of fd iterB now pid ts t]
  by (cases "fd = 0") auto

theorem ktls_wildcard_is_any_witness:
  "IsKTLS rev 100 7 0 60 (Some [((7, 4), \<lparr>k_at = 50, k_markedAt = 55\<rparr>), ((7, 3), \<lparr>k_at = 90, k_markedAt = 95\<rparr>)])"
proof -
  let ?t = "[((7, 4), \<lparr>k_at = 50, k_markedAt = 55\<rparr>), ((7, 3), \<lparr>k_at = 90, k_markedAt = 95\<rparr>)] :: ktlsTracker"
  have "IsKTLS rev 100 7 4 60 (Some ?t)"
    by code_simp
  moreover have "wf_map ?t"
    by simp
  ultimately show ?thesis
    using conjunct2 [OF ktls_wildcard_is_any [OF iterates_id(2)]] by blast
qed

text \<open>After an offload is marked, a query within the TTL answers for that descriptor by the new mark
  alone, and for every other descriptor of the process as before: eviction never changes an answer.\<close>

theorem ktls_mark_answers:
  assumes "iterates iterB" "wf_map t" "Mark now pid fd m (Some t) = Some t'" "fd \<noteq> 0" "fd' \<noteq> 0"
    "now \<le> later" "later < now + ktlsTrackerTTL"
  shows "(IsKTLS iterB later pid fd ts (Some t') \<longleftrightarrow> m \<le> ts) \<and>
    (fd' \<noteq> fd \<longrightarrow> IsKTLS iterB later pid fd' ts (Some t') = IsKTLS iterB later pid fd' ts (Some t))"
proof -
  have w: "wf_map t'"
    by (rule Mark_wf [OF assms(2,3)])
  note f = Mark_in_force [OF assms(2,3,6), of pid _ _ ts]
  have "IsKTLS iterB later pid d ts (Some t') \<longleftrightarrow> (\<exists>e. ((pid, d), e) \<in> set t' \<and> in_force later ts e)"
    "IsKTLS iterB later pid d ts (Some t) \<longleftrightarrow> (\<exists>e. ((pid, d), e) \<in> set t \<and> in_force later ts e)" if "d \<noteq> 0" for d
    using IsKTLS_exact [OF that] w assms(2) by (simp_all add: map_of_eq_Some_iff)
  then show ?thesis
    using assms(4,5,7) unfolding f by (auto simp: in_force_def)
qed

theorem ktls_mark_answers_witness:
  "IsKTLS rev 150 7 3 120 (Mark 100 7 3 110 (Some [((7, 4), \<lparr>k_at = 50, k_markedAt = 55\<rparr>)]))"
proof -
  let ?t = "[((7, 4), \<lparr>k_at = 50, k_markedAt = 55\<rparr>)] :: ktlsTracker"
  obtain t' where t': "Mark 100 7 3 110 (Some ?t) = Some t'"
    by (simp add: Mark_def)
  then show ?thesis
    using ktls_mark_answers [of rev ?t 100 7 3 110 t' 3 150 120]
    by (simp add: iterates_id ktlsTrackerTTL_def)
qed

end
