(* ===== verification/HttpSniff.thy ===== *)
theory HttpSniff
  imports GoText
begin

text \<open>
  The cleartext HTTP request parser (\<^verbatim>\<open>internal/telemetry/parsehttp.go\<close>) and the classification of
  connect results (\<^verbatim>\<open>internal/telemetry/connect_result.go\<close>). The captured bytes are a string here.
\<close>

abbreviation CR :: char where "CR \<equiv> CHR 0x0D"
abbreviation LF :: char where "LF \<equiv> CHR 0x0A"

definition crlf :: string where "crlf = [CR, LF]"

definition normalizeHostHeader :: "string \<Rightarrow> string" where
  "normalizeHostHeader val0 = (let val = TrimSpace val0 in
     if val = [] then ''?''
     else if HasPrefix val ''['' then
       (case IndexByte val (CHR '']'') of None \<Rightarrow> ''?'' | Some e \<Rightarrow> if 1 < e then take (e - 1) (drop 1 val) else ''?'')
     else (case IndexByte val (CHR '':'') of Some i \<Rightarrow> take i val | None \<Rightarrow> val))"

definition skipEOL :: "string \<Rightarrow> string" where
  "skipEOL b = TrimPrefix (TrimPrefix b crlf) [LF]"

definition takeLine :: "string \<Rightarrow> (string \<times> string) option" where
  "takeLine b = (if b = [] then None
     else (case IndexStr b crlf of Some i \<Rightarrow> Some (take i b, drop (i + 2) b)
       | None \<Rightarrow> (case IndexByte b LF of Some i \<Rightarrow> Some (take i b, drop (i + 1) b) | None \<Rightarrow> None)))"

lemma IndexStr_bound: "IndexStr s p = Some i \<Longrightarrow> i + length p \<le> length s"
proof (induction s p arbitrary: i rule: IndexStr.induct)
  case (2 x xs p)
  show ?case
  proof (cases "HasPrefix (x # xs) p")
    case True
    then obtain t where "x # xs = p @ t"
      by (auto simp: HasPrefix_iff)
    then have "length p \<le> length (x # xs)"
      by simp
    then show ?thesis
      using "2.prems" True by simp
  next
    case False
    then obtain j where "IndexStr xs p = Some j" "i = Suc j"
      using "2.prems" by auto
    then show ?thesis
      using "2.IH" [OF False] by simp
  qed
qed (auto split: if_splits)

lemma takeLine_shorter: "takeLine b = Some (line, rest) \<Longrightarrow> length rest < length b"
  using IndexStr_bound [of b crlf] IndexByte_SomeD [of b LF]
  by (auto simp: takeLine_def crlf_def split: if_splits option.splits)

text \<open>The host a header line carries, when it is a usable Host header.\<close>

definition header_host :: "(string \<Rightarrow> string) \<Rightarrow> string \<Rightarrow> string option" where
  "header_host ul line = (case IndexByte line (CHR '':'') of None \<Rightarrow> None
     | Some colon \<Rightarrow> if colon = 0 then None
       else let name = TrimSpace (toLower ul (take colon line)); val = TrimSpace (drop (colon + 1) line) in
         if name = ''host'' \<and> val \<noteq> [] then Some (normalizeHostHeader val) else None)"

function scan_host :: "(string \<Rightarrow> string) \<Rightarrow> string \<Rightarrow> string" where
  "scan_host ul rest = (if rest = [] then []
     else (case takeLine rest of None \<Rightarrow> []
       | Some (line, rest') \<Rightarrow> if line = [] then scan_host ul rest'
           else (case header_host ul line of Some h \<Rightarrow> h | None \<Rightarrow> scan_host ul rest')))"
  by pat_completeness auto
termination
  by (relation "measure (\<lambda>(_, r). length r)") (auto dest: takeLine_shorter)

declare scan_host.simps [simp del]

definition ParseHTTPRequestPrefix :: "(string \<Rightarrow> string) \<Rightarrow> string \<Rightarrow> (string \<times> string \<times> string) option" where
  "ParseHTTPRequestPrefix ul raw0 = (let raw = dropWhile (\<lambda>c. c \<in> {CHR '' '', CHR 0x09, CR, LF}) raw0 in
     if length raw < 8 then None
     else let lineEnd = (case IndexStr raw crlf of Some i \<Rightarrow> i
         | None \<Rightarrow> (case IndexByte raw LF of Some i \<Rightarrow> i | None \<Rightarrow> min (length raw) 256));
       parts = Fields (take lineEnd raw) in
     if length parts < 3 then None
     else let path = parts ! 1 in
       if path = [] \<or> path ! 0 \<noteq> CHR ''/'' then None
     else let host = scan_host ul (skipEOL (drop lineEnd raw)) in
       Some (parts ! 0, if host = [] then ''?'' else host, path))"

definition ConnectResultString :: "32 word \<Rightarrow> string" where
  "ConnectResultString result = (if result = 0 then ''established''
     else let e = - result in
       if e = 111 then ''refused''
       else if e = 110 then ''timeout''
       else if e = 101 \<or> e = 113 \<or> e = 100 \<or> e = 112 then ''unreachable''
       else if e = 115 then ''in_progress''
       else if e = 13 \<or> e = 1 then ''denied''
       else ''other'')"

section \<open>Lines and words\<close>

lemma IndexStr_crlf: "CR \<notin> set l \<Longrightarrow> IndexStr (l @ crlf @ r) crlf = Some (length l)"
  by (induction l) (auto simp: HasPrefix_def crlf_def)

lemma IndexStr_none: "LF \<notin> set s \<Longrightarrow> IndexStr s crlf = None"
proof (induction s)
  case (Cons x s)
  have "take 1 s \<noteq> [LF]"
    using Cons.prems by (cases s) auto
  then show ?case
    using Cons by (auto simp: HasPrefix_def crlf_def)
qed (simp add: crlf_def)

lemma takeLine_crlf: "CR \<notin> set l \<Longrightarrow> takeLine (l @ crlf @ r) = Some (l, r)"
  using IndexStr_crlf [of l r] by (auto simp: takeLine_def crlf_def)

lemma takeLine_none: "LF \<notin> set s \<Longrightarrow> takeLine s = None"
  by (simp add: takeLine_def IndexStr_none IndexByte_None [THEN iffD2])

definition token :: "string \<Rightarrow> bool" where
  "token w \<longleftrightarrow> w \<noteq> [] \<and> (\<forall>c \<in> set w. is_ascii c \<and> \<not> ascii_space c)"

lemma space_len_token: "is_ascii c \<Longrightarrow> \<not> ascii_space c \<Longrightarrow> space_len (c # cs) = 0"
  by (simp add: space_len_def)

lemma fields_word:
  "\<forall>c \<in> set w. is_ascii c \<and> \<not> ascii_space c \<Longrightarrow>
   fieldsFunc space_len (w @ s) cur = fieldsFunc space_len s (rev w @ cur)"
  by (induction w arbitrary: cur) (auto simp: space_len_token)

lemma fields_space:
  "ascii_space c \<Longrightarrow> cur \<noteq> [] \<Longrightarrow> fieldsFunc space_len (c # s) cur = rev cur # fieldsFunc space_len s []"
  by (simp add: space_len_def)

lemma Fields_three:
  assumes "token a" "token b" "token c"
  shows "Fields (a @ '' '' @ b @ '' '' @ c) = [a, b, c]"
proof -
  have sp: "ascii_space (CHR '' '')"
    by code_simp
  show ?thesis
    using assms sp fields_word [of c "[]" "[]"]
    by (simp add: Fields_def token_def fields_word fields_space del: fieldsFunc.simps(2))
qed

lemma scan_skip_headers:
  assumes "\<forall>l \<in> set hdrs. CR \<notin> set l \<and> (l = [] \<or> header_host ul l = None)"
  shows "scan_host ul (concat (map (\<lambda>l. l @ crlf) hdrs) @ r) = scan_host ul r"
  using assms
proof (induction hdrs)
  case (Cons l hdrs)
  have "concat (map (\<lambda>l. l @ crlf) (l # hdrs)) @ r = l @ crlf @ (concat (map (\<lambda>l. l @ crlf) hdrs) @ r)"
    by simp
  moreover have "scan_host ul (l @ crlf @ x) = scan_host ul x" for x
    using Cons.prems takeLine_crlf [of l x]
    by (subst scan_host.simps) (auto simp: crlf_def split: option.split)
  ultimately show ?case
    using Cons by simp
qed simp

lemma scan_host_line:
  assumes "CR \<notin> set l" "header_host ul l = Some h"
  shows "scan_host ul (l @ crlf @ r) = h"
proof -
  have "l \<noteq> []"
    using assms(2) by (auto simp: header_host_def)
  then show ?thesis
    using assms takeLine_crlf [of l r] by (subst scan_host.simps) auto
qed

lemma token_no_eol: "token w \<Longrightarrow> CR \<notin> set w \<and> CHR '' '' \<notin> set w \<and> LF \<notin> set w"
proof -
  have "ascii_space CR" "ascii_space LF" "ascii_space (CHR '' '')"
    by code_simp+
  then show "token w \<Longrightarrow> ?thesis"
    by (auto simp: token_def)
qed

definition request_head :: "string \<Rightarrow> string \<Rightarrow> string \<Rightarrow> string list \<Rightarrow> string" where
  "request_head verb path proto hdrs =
     verb @ '' '' @ path @ '' '' @ proto @ crlf @ concat (map (\<lambda>l. l @ crlf) hdrs)"

lemma request_parsed:
  assumes "token verb" "token path" "token proto" "path ! 0 = CHR ''/''" "4 \<le> length proto"
    "\<forall>l \<in> set hdrs. CR \<notin> set l \<and> LF \<notin> set l \<and> (l = [] \<or> header_host ul l = None)" "\<not> HasPrefix r [LF]"
  shows "ParseHTTPRequestPrefix ul (request_head verb path proto hdrs @ r) =
    Some (verb, if scan_host ul r = [] then ''?'' else scan_host ul r, path)"
proof -
  let ?line = "verb @ '' '' @ path @ '' '' @ proto" and ?more = "concat (map (\<lambda>l. l @ crlf) hdrs) @ r"
  let ?raw = "request_head verb path proto hdrs @ r"
  have raw: "?raw = ?line @ crlf @ ?more"
    by (simp add: request_head_def)
  have tok: "is_ascii (hd verb)" "\<not> ascii_space (hd verb)" "verb \<noteq> []" "path \<noteq> []"
    using assms(1,2) by (auto simp: token_def)
  have "hd verb \<notin> {CHR '' '', CHR 0x09, CR, LF}"
  proof -
    have "\<forall>c \<in> {CHR '' '', CHR 0x09, CR, LF}. ascii_space c"
      by code_simp
    then show ?thesis
      using tok(2) by blast
  qed
  then have dw: "dropWhile (\<lambda>c. c \<in> {CHR '' '', CHR 0x09, CR, LF}) ?raw = ?raw"
    using tok(3) by (cases verb) (simp_all add: request_head_def)
  have idx: "IndexStr ?raw crlf = Some (length ?line)"
    using assms(1-3) token_no_eol unfolding raw by (intro IndexStr_crlf) auto
  have parts: "Fields (take (length ?line) ?raw) = [verb, path, proto]"
    using Fields_three [OF assms(1-3)] by (simp add: raw)
  have rest: "scan_host ul (skipEOL (drop (length ?line) ?raw)) = scan_host ul r"
  proof -
    have d: "drop (length ?line) ?raw = crlf @ ?more"
      by (simp add: raw)
    have "\<not> HasPrefix ?more [LF]"
      using assms(6,7) by (cases hdrs; cases "hd hdrs") (auto simp: HasPrefix_def crlf_def)
    then have "skipEOL (crlf @ ?more) = ?more"
      by (simp add: skipEOL_def, simp add: TrimPrefix_def)
    then show ?thesis
      using scan_skip_headers [of hdrs ul r] assms(6) unfolding d by auto
  qed
  have "8 \<le> length ?raw"
    using assms(5) tok(3,4) by (simp add: raw crlf_def Suc_le_eq)
  then show ?thesis
    unfolding ParseHTTPRequestPrefix_def dw Let_def idx
    using parts rest assms(4) tok(4) by (simp del: length_append)
qed

section \<open>Properties\<close>

text \<open>A request whose request line is three words, whose path starts with a slash and whose other header lines
  carry no host is parsed into its verb, its path and the normalized value of its Host line, whatever follows.\<close>

theorem request_host_found:
  assumes "token verb" "token path" "token proto" "path ! 0 = CHR ''/''" "4 \<le> length proto"
    and "\<forall>l \<in> set hdrs. CR \<notin> set l \<and> LF \<notin> set l \<and> (l = [] \<or> header_host ul l = None)"
    and "CR \<notin> set line" "LF \<notin> set line" "header_host ul line = Some h"
  shows "ParseHTTPRequestPrefix ul (request_head verb path proto hdrs @ line @ crlf @ rest) =
    Some (verb, if h = [] then ''?'' else h, path)"
proof -
  have "\<not> HasPrefix (line @ crlf @ rest) [LF]"
    using assms(8) by (cases line) (auto simp: HasPrefix_def crlf_def)
  from request_parsed [OF assms(1-6) this] show ?thesis
    using scan_host_line [OF assms(7,9)] by simp
qed

theorem request_host_found_witness:
  "ParseHTTPRequestPrefix id (request_head ''GET'' ''/a'' ''HTTP/1.1'' [''Accept: x''] @ ''HOST: ex.org:80'' @ crlf @ []) =
    Some (''GET'', ''ex.org'', ''/a'')"
proof -
  have h: "header_host id ''HOST: ex.org:80'' = Some ''ex.org''" "header_host id ''Accept: x'' = None"
    "token ''GET'' \<and> token ''/a'' \<and> token ''HTTP/1.1''"
    by code_simp+
  show ?thesis
    using request_host_found [of "''GET''" "''/a''" "''HTTP/1.1''" "[''Accept: x'']" id "''HOST: ex.org:80''" "''ex.org''" "[]"] h
    by simp
qed

text \<open>A Host line cut off by the capture window is never reported: when what follows the complete header lines
  holds no line feed, the host is the placeholder.\<close>

theorem truncated_host_unknown:
  assumes "token verb" "token path" "token proto" "path ! 0 = CHR ''/''" "4 \<le> length proto"
    and "\<forall>l \<in> set hdrs. CR \<notin> set l \<and> LF \<notin> set l \<and> (l = [] \<or> header_host ul l = None)"
    and "LF \<notin> set partial"
  shows "ParseHTTPRequestPrefix ul (request_head verb path proto hdrs @ partial) = Some (verb, ''?'', path)"
proof -
  have "\<not> HasPrefix partial [LF]"
    using assms(7) by (cases partial) (auto simp: HasPrefix_def)
  moreover have "scan_host ul partial = []"
    using takeLine_none [OF assms(7)] by (subst scan_host.simps) simp
  ultimately show ?thesis
    using request_parsed [OF assms(1-6)] by simp
qed

theorem truncated_host_unknown_witness:
  "ParseHTTPRequestPrefix id (request_head ''GET'' ''/a'' ''HTTP/1.1'' [''Accept: x''] @ ''Host: ex.or'') =
    Some (''GET'', ''?'', ''/a'')"
proof -
  have h: "header_host id ''Accept: x'' = None" "token ''GET'' \<and> token ''/a'' \<and> token ''HTTP/1.1''"
    by code_simp+
  show ?thesis
    using truncated_host_unknown [of "''GET''" "''/a''" "''HTTP/1.1''" "[''Accept: x'']" id "''Host: ex.or''"] h
    by simp
qed

end
