(* ===== verification/Pipeline.thy ===== *)
theory Pipeline
  imports RunStats Allowlist
begin

text \<open>
  The loops around the ring buffers: the retry backoff and the reader loop
  (\<^verbatim>\<open>agent_linux_state_sections.go\<close>, \<^verbatim>\<open>runRingReader\<close> of \<^verbatim>\<open>agent_linux_ring_read.go\<close>), the telemetry canary and the
  heartbeat (\<^verbatim>\<open>agent_run_state.go\<close>), and the watch for DNS drift (\<^verbatim>\<open>dns_drift.go\<close>). A loop runs until its
  context ends, so each is a function of what its blocking calls return, in order; the empty rest is a loop that waits.
  Durations and instants are nanoseconds.
\<close>

section \<open>Backoff\<close>

definition ringReadRetryBaseDelay :: int where "ringReadRetryBaseDelay = 5000000"
definition ringReadRetryMaxDelay :: int where "ringReadRetryMaxDelay = 200000000"

text \<open>The backoff is the field \<^verbatim>\<open>current\<close>; a new one is zero.\<close>

definition nextDelay :: "int \<Rightarrow> int \<times> int" where
  "nextDelay b = (if b \<le> 0 then (ringReadRetryBaseDelay, ringReadRetryBaseDelay)
     else let n = (if ringReadRetryMaxDelay < b * 2 then ringReadRetryMaxDelay else b * 2) in (n, n))"

definition backoff_sleep :: "int \<Rightarrow> int \<times> int" where
  "backoff_sleep b = (let (delay, b') = nextDelay b in if delay \<le> 0 then (0, b') else (delay, b'))"

definition backoff_reset :: "int \<Rightarrow> int" where
  "backoff_reset b = 0"

section \<open>The reader loop\<close>

text \<open>What \<^verbatim>\<open>rd.Read\<close> returns: a record, \<^verbatim>\<open>ErrClosed\<close>, or another error with the state of the context.\<close>

datatype ring_read = Record bytes | ReadClosed | ReadFailed bool

datatype reader_exit = ExitClosed | ExitContext

fun runRingReader :: "(bytes \<Rightarrow> 's \<Rightarrow> 's) \<Rightarrow> ring_read list \<Rightarrow> int \<Rightarrow> 's \<Rightarrow> reader_exit option \<times> int list \<times> 's" where
  "runRingReader onRecord [] b s = (None, [], s)"
| "runRingReader onRecord (ReadClosed # rs) b s = (Some ExitClosed, [], s)"
| "runRingReader onRecord (ReadFailed cancelled # rs) b s =
     (if cancelled then (Some ExitContext, [], s)
      else let (delay, b') = backoff_sleep b; (e, ds, s') = runRingReader onRecord rs b' s in (e, delay # ds, s'))"
| "runRingReader onRecord (Record raw # rs) b s = runRingReader onRecord rs (backoff_reset b) (onRecord raw s)"

fun goes_on :: "ring_read \<Rightarrow> bool" where
  "goes_on (Record raw) = True"
| "goes_on ReadClosed = False"
| "goes_on (ReadFailed cancelled) = (\<not> cancelled)"

fun records :: "ring_read list \<Rightarrow> bytes list" where
  "records [] = []"
| "records (Record raw # rs) = raw # records rs"
| "records (_ # rs) = records rs"

definition backoff_ok :: "int \<Rightarrow> bool" where
  "backoff_ok b \<longleftrightarrow> b = 0 \<or> ringReadRetryBaseDelay \<le> b \<and> b \<le> ringReadRetryMaxDelay"

lemma backoff_step:
  assumes "backoff_ok b" "backoff_sleep b = (d, b')"
  shows "backoff_ok b'" "ringReadRetryBaseDelay \<le> d" "d \<le> ringReadRetryMaxDelay"
  using assms
  by (auto simp: backoff_ok_def backoff_sleep_def nextDelay_def Let_def ringReadRetryBaseDelay_def ringReadRetryMaxDelay_def
      split: if_splits)

lemma reader_state: "snd (snd (runRingReader f rs b s)) = fold f (records (takeWhile goes_on rs)) s"
proof (induction rs arbitrary: b s)
  case (Cons r rs)
  then show ?case
    by (cases r) (simp_all add: split_beta)
qed simp

lemma reader_delays:
  "backoff_ok b \<Longrightarrow> set (fst (snd (runRingReader f rs b s))) \<subseteq> {ringReadRetryBaseDelay..ringReadRetryMaxDelay}"
proof (induction f rs b s rule: runRingReader.induct)
  case (3 f cancelled rs b s)
  obtain d b' where b: "backoff_sleep b = (d, b')"
    by (cases "backoff_sleep b")
  show ?case
    using "3.IH" [OF _ b [symmetric] refl] backoff_step [OF "3.prems" b] by (auto simp: b split_beta)
qed (simp_all add: backoff_ok_def backoff_reset_def)

text \<open>The \<open>k\<close>-th failure in a row waits \<open>2 ^ k\<close> times the base, up to the maximum.\<close>

fun backoff_after :: "nat \<Rightarrow> int" where
  "backoff_after 0 = 0"
| "backoff_after (Suc k) = snd (backoff_sleep (backoff_after k))"

lemma backoff_doubles:
  "backoff_sleep (backoff_after k) =
     (min (ringReadRetryBaseDelay * 2 ^ k) ringReadRetryMaxDelay, min (ringReadRetryBaseDelay * 2 ^ k) ringReadRetryMaxDelay)"
proof (induction k)
  case 0
  show ?case
    by (simp add: backoff_sleep_def nextDelay_def ringReadRetryBaseDelay_def ringReadRetryMaxDelay_def)
next
  case (Suc k)
  define x :: int where "x = min (ringReadRetryBaseDelay * 2 ^ k) ringReadRetryMaxDelay"
  have pos: "0 < x" "x \<le> ringReadRetryMaxDelay"
    by (simp_all add: x_def ringReadRetryBaseDelay_def ringReadRetryMaxDelay_def)
  have "backoff_after (Suc k) = x"
    using Suc by (simp add: x_def)
  moreover have "backoff_sleep x = (min (x * 2) ringReadRetryMaxDelay, min (x * 2) ringReadRetryMaxDelay)"
    using pos by (simp add: backoff_sleep_def nextDelay_def Let_def min_def ringReadRetryMaxDelay_def)
  moreover have "min (x * 2) ringReadRetryMaxDelay = min (ringReadRetryBaseDelay * 2 ^ Suc k) ringReadRetryMaxDelay"
    unfolding x_def by (simp add: min_def ringReadRetryBaseDelay_def ringReadRetryMaxDelay_def)
  ultimately show ?case
    by simp
qed

section \<open>The canary\<close>

definition canaryTimeout :: int where "canaryTimeout = 30000000000"

record canaryState =
  cn_lastSent :: "64 word"
  cn_lastSentAt :: int
  cn_lastReceived :: "64 word"
  cn_lastRecvAt :: int
  cn_failCount :: int

record canarySnapshot =
  cs_lastSent :: "64 word"
  cs_lastReceived :: "64 word"
  cs_failCount :: int
  cs_pipelineOK :: bool
  cs_lastSentAt :: int
  cs_lastReceivedAt :: int

definition newCanaryState :: canaryState where
  "newCanaryState = \<lparr>cn_lastSent = 0, cn_lastSentAt = 0, cn_lastReceived = 0, cn_lastRecvAt = 0, cn_failCount = 0\<rparr>"

definition noteSent :: "int \<Rightarrow> 64 word \<Rightarrow> canaryState \<Rightarrow> canaryState" where
  "noteSent now seqNr c = c\<lparr>cn_lastSent := seqNr, cn_lastSentAt := now\<rparr>"

definition noteReceived :: "int \<Rightarrow> 64 word \<Rightarrow> canaryState \<Rightarrow> canaryState" where
  "noteReceived now seqNr c = c\<lparr>cn_lastReceived := seqNr, cn_lastRecvAt := now\<rparr>"

definition overdue :: "int \<Rightarrow> canaryState \<Rightarrow> bool" where
  "overdue now c \<longleftrightarrow> 0 < cn_lastSent c \<and> cn_lastReceived c < cn_lastSent c \<and> canaryTimeout < now - cn_lastSentAt c"

definition canary_snapshot :: "int \<Rightarrow> canaryState \<Rightarrow> canarySnapshot" where
  "canary_snapshot now c = \<lparr>cs_lastSent = cn_lastSent c, cs_lastReceived = cn_lastReceived c,
     cs_failCount = cn_failCount c, cs_pipelineOK = (\<not> overdue now c), cs_lastSentAt = cn_lastSentAt c,
     cs_lastReceivedAt = cn_lastRecvAt c\<rparr>"

definition checkAndRecordFailure :: "int \<Rightarrow> canaryState \<Rightarrow> bool \<times> canaryState" where
  "checkAndRecordFailure now c = (if overdue now c then (True, c\<lparr>cn_failCount := cn_failCount c + 1\<rparr>) else (False, c))"

text \<open>
  What the loop and the reader see: a tick (did the trigger map take the number; the instants of the two clock
  readings), and an echo.
\<close>

datatype canary_event = Tick bool int int | Echo "64 word" int

fun runCanaryLoop :: "canary_event list \<Rightarrow> 64 word \<Rightarrow> canaryState \<Rightarrow> bool list \<times> canaryState" where
  "runCanaryLoop [] seqNr c = ([], c)"
| "runCanaryLoop (Echo n t # es) seqNr c = runCanaryLoop es seqNr (noteReceived t n c)"
| "runCanaryLoop (Tick updated t1 t2 # es) seqNr c = (let n = seqNr + 1 in
     if \<not> updated then runCanaryLoop es n c
     else let (failed, c') = checkAndRecordFailure t2 (noteSent t1 n c); (fs, c'') = runCanaryLoop es n c' in
       (failed # fs, c''))"

text \<open>
  The loop notes the new number as sent right before it looks for an overdue one, and the clock it compares with is the
  one it has just set: as long as the two readings of one tick are within the timeout, no echo at all is ever missed.
\<close>

lemma noteSent_failCount [simp]: "cn_failCount (noteSent t n c) = cn_failCount c"
  by (simp add: noteSent_def)

lemma canary_never_reports:
  "\<forall>e \<in> set es. \<forall>u t1 t2. e = Tick u t1 t2 \<longrightarrow> t2 - t1 \<le> canaryTimeout \<Longrightarrow>
   True \<notin> set (fst (runCanaryLoop es n c)) \<and> cn_failCount (snd (runCanaryLoop es n c)) = cn_failCount c"
proof (induction es n c rule: runCanaryLoop.induct)
  case (3 updated t1 t2 es seqNr c)
  have "\<not> overdue t2 (noteSent t1 (seqNr + 1) c)"
    using "3.prems" by (simp add: overdue_def noteSent_def)
  then have k: "checkAndRecordFailure t2 (noteSent t1 (seqNr + 1) c) = (False, noteSent t1 (seqNr + 1) c)"
    by (simp add: checkAndRecordFailure_def)
  show ?case
    using "3.IH"(1) "3.IH"(2) [OF refl _ k [symmetric] refl] "3.prems"
    by (cases updated) (simp_all add: Let_def k split_beta)
qed (auto simp: noteReceived_def)

section \<open>Heartbeat\<close>

text \<open>One result of \<^verbatim>\<open>Info\<close> and \<^verbatim>\<open>ID\<close> per tick: an error, no ID, or an ID.\<close>

datatype heartbeat = InfoError | NoID | HasID

fun runHeartbeatLoop :: "heartbeat list \<Rightarrow> runStats \<Rightarrow> runStats" where
  "runHeartbeatLoop [] s = s"
| "runHeartbeatLoop (InfoError # hs) s = runHeartbeatLoop hs (addBPFHeartbeatFailure s)"
| "runHeartbeatLoop (HasID # hs) s = runHeartbeatLoop hs s"
| "runHeartbeatLoop (NoID # hs) s = runHeartbeatLoop hs (addBPFHeartbeatFailure s)"

lemma heartbeat_counts:
  "bpfHeartbeatFailures (runHeartbeatLoop hs s) = bpfHeartbeatFailures s + int (length (filter (\<lambda>h. h \<noteq> HasID) hs))"
  by (induction hs s rule: runHeartbeatLoop.induct) (simp_all add: addBPFHeartbeatFailure_def)

section \<open>DNS drift\<close>

definition allowlistReCheckInterval :: int where "allowlistReCheckInterval = 5 * 60 * 1000000000"
definition allowlistReCheckMaxAttempts :: int where "allowlistReCheckMaxAttempts = 1"

text \<open>
  A round of the watch: the wake-up is the end of the context (\<^const>\<open>None\<close>) or a tick, with the state of the context
  before and after the resolution, the resolver's answers and the instants of compilation and comparison.
\<close>

record drift_tick =
  dt_ended_before :: bool
  dt_env :: env
  dt_ended_after :: bool
  dt_compiled :: int
  dt_checked :: int

datatype drift_output = OnClean | OnDrift DriftReport

definition drift_interval :: "int \<Rightarrow> int" where
  "drift_interval interval = (if interval \<le> 0 then allowlistReCheckInterval else interval)"

fun drift_loop :: "(string \<Rightarrow> string) \<Rightarrow> CompileResult \<Rightarrow> int \<Rightarrow> drift_tick option list \<Rightarrow> drift_output list" where
  "drift_loop ul original maxAttempts [] = []"
| "drift_loop ul original maxAttempts (None # ts) = []"
| "drift_loop ul original maxAttempts (Some t # ts) =
     (if dt_ended_before t then []
      else let updated = ReResolve ul (dt_env t) (dt_compiled t) original maxAttempts in
        if dt_ended_after t then []
        else let dr = Diff (dt_checked t) original updated in
          (if AddedIPs dr = [] \<and> RemovedIPs dr = [] then OnClean else OnDrift dr) # drift_loop ul original maxAttempts ts)"

definition runDNSDriftWatch ::
    "(string \<Rightarrow> string) \<Rightarrow> CompileResult \<Rightarrow> int \<Rightarrow> drift_tick option list \<Rightarrow> drift_output list" where
  "runDNSDriftWatch ul original maxAttempts ts = (if Domains original = [] then []
     else drift_loop ul original (if maxAttempts < 1 then allowlistReCheckMaxAttempts else maxAttempts) ts)"

lemma Diff_empty:
  assumes "wf_v4set (AllowedIPv4 a)" "wf_v4set (AllowedIPv4 b)"
  shows "AddedIPs (Diff now a b) = [] \<and> RemovedIPs (Diff now a b) = [] \<longleftrightarrow> set (AllowedIPv4 a) = set (AllowedIPv4 b)"
proof -
  have "length k = 4" if "k \<in> set (AllowedIPv4 a) \<union> set (AllowedIPv4 b)" for k
    using that assms by (auto simp: wf_v4set_def list_all_iff)
  moreover have "sort xs = [] \<longleftrightarrow> xs = []" for xs :: "string list"
    by (metis length_0_conv length_sort)
  ultimately show ?thesis
    unfolding Diff_lists using v4set_Contains_key [OF assms(1)] v4set_Contains_key [OF assms(2)]
    by (auto simp: filter_empty_conv)
qed

lemma drift_rounds:
  assumes "Domains original \<noteq> []" "wf_v4set (AllowedIPv4 original)"
    and "\<forall>t \<in> set ts. \<not> dt_ended_before t \<and> \<not> dt_ended_after t"
    and u: "u = (\<lambda>t. ReResolve ul (dt_env t) (dt_compiled t) original (max 1 k))"
  shows "runDNSDriftWatch ul original k (map Some ts) = map (\<lambda>t.
    if set (AllowedIPv4 original) = set (AllowedIPv4 (u t)) then OnClean else OnDrift (Diff (dt_checked t) original (u t))) ts"
proof -
  have k: "(if k < 1 then allowlistReCheckMaxAttempts else k) = max 1 k"
    by (simp add: allowlistReCheckMaxAttempts_def max_def)
  have e: "AddedIPs (Diff n original (u t)) = [] \<and> RemovedIPs (Diff n original (u t)) = [] \<longleftrightarrow>
      set (AllowedIPv4 original) = set (AllowedIPv4 (u t))" for n t
    using Diff_empty [OF assms(2)] by (simp add: u ReResolve_def Compile_wf)
  have "drift_loop ul original (max 1 k) (map Some ts) = map (\<lambda>t.
    if set (AllowedIPv4 original) = set (AllowedIPv4 (u t)) then OnClean else OnDrift (Diff (dt_checked t) original (u t))) ts"
    using assms(3)
  proof (induction ts)
    case (Cons t ts)
    have "drift_loop ul original (max 1 k) (map Some (t # ts)) =
        (if AddedIPs (Diff (dt_checked t) original (u t)) = [] \<and> RemovedIPs (Diff (dt_checked t) original (u t)) = []
         then OnClean else OnDrift (Diff (dt_checked t) original (u t))) # drift_loop ul original (max 1 k) (map Some ts)"
      using Cons.prems by (simp add: u Let_def)
    then show ?case
      unfolding e using Cons by simp
  qed simp
  then show ?thesis
    using assms(1) unfolding runDNSDriftWatch_def k by simp
qed

section \<open>Properties\<close>

text \<open>C40. Whatever a ring buffer returns, its reader hands every record read before the exit to the handler, once and
  in order, and every pause after a failed read is between the base and the maximum delay.\<close>

theorem ring_reader_faithful:
  "snd (snd (runRingReader onRecord rs 0 s)) = fold onRecord (records (takeWhile goes_on rs)) s \<and>
   set (fst (snd (runRingReader onRecord rs 0 s))) \<subseteq> {ringReadRetryBaseDelay..ringReadRetryMaxDelay}"
  using reader_state [of onRecord rs 0 s] reader_delays [of 0 onRecord rs s] by (simp add: backoff_ok_def)

end
