(* ===== verification/RingReaders.thy ===== *)
theory RingReaders
  imports DefendState TlsReassembler KtlsTracker HttpSniff Pipeline
begin

text \<open>
  The handlers of the ring buffer readers (\<^verbatim>\<open>internal/agent/agent_linux_ring_read.go\<close>): each takes one raw record,
  updates the counters and the shared caches and appends its lines to the event log. Readers run concurrently; what they
  share is behind mutexes, and a run is an interleaving of handler calls.

  Taken as arguments: whether the file system takes a line, the classification policy, the kernel maps behind the
  DNS cache, the orders in which maps are walked, the content hash of an executable (file access) and the redaction of
  request paths (\<^verbatim>\<open>sanitize_request_uri.go\<close>, regular expressions). Debug output is left out.
\<close>

section \<open>State and environment\<close>

record 'o agent_env =
  ae_EventsLogPath :: string
  ae_append :: "jsonl \<Rightarrow> bool"
  ae_pol :: "policy option"
  ae_ul :: "string \<Rightarrow> string"
  ae_ops :: "'o owner_ops"
  ae_iterE :: entries_order
  ae_iterA :: "answers \<Rightarrow> answers"
  ae_iterS :: "reassembly_store \<Rightarrow> reassembly_store"
  ae_iterB :: "ktlsTracker \<Rightarrow> ktlsTracker"
  ae_exeSHA :: "string \<Rightarrow> string"
  ae_redact :: "string \<Rightarrow> string"

record 'o observer =
  o_stats :: runStats
  o_sink :: sink
  o_dns :: "'o dns_cache option"
  o_ktls :: "ktlsTracker option"
  o_reasm :: tlsReassembler
  o_fsCount :: int
  o_canary :: "canaryState option"

text \<open>The readings of the clock in one handler call: on arrival, later, formatted, and inside the reassembler.\<close>

record clock =
  ck_recv :: int
  ck_now :: int
  ck_ts :: string
  ck_reasm :: "int \<times> int \<times> int"

definition stat :: "(runStats \<Rightarrow> runStats) \<Rightarrow> 'o observer \<Rightarrow> 'o observer" where
  "stat f w = w\<lparr>o_stats := f (o_stats w)\<rparr>"

text \<open>The tail every reader shares: with a log, draw a number, append, count a failure under its own kind.\<close>

definition emit :: "'o agent_env \<Rightarrow> string \<Rightarrow> (64 word \<Rightarrow> jsonl) \<Rightarrow> 'o observer \<Rightarrow> 'o observer" where
  "emit a kind ev w = (if ae_EventsLogPath a = [] then w
     else let (written, k) = AppendJSONL (ae_append a) ev (o_sink w); w1 = w\<lparr>o_sink := k\<rparr> in
       if written then w1 else stat (addDropped kind) w1)"

definition comm_text :: "bytes \<Rightarrow> string" where
  "comm_text commb = SanitizeField (nullTermStr commb) 16"

section \<open>Processes and files\<close>

definition decodeExec :: "bytes \<Rightarrow> (32 word \<times> 32 word \<times> bytes \<times> bytes \<times> 64 word \<times> 32 word) option" where
  "decodeExec raw = (if length raw < 296 then None
     else Some (le32_at raw 0, le32_at raw 4, slice 8 24 raw, slice 24 280 raw, le64_at raw 280, le32_at raw 288))"

definition readExecRing :: "'o agent_env \<Rightarrow> clock \<Rightarrow> bytes \<Rightarrow> 'o observer \<Rightarrow> 'o observer" where
  "readExecRing a ck raw w = (case decodeExec raw of None \<Rightarrow> stat (addDropped ''exec_decode'') w
     | Some (tgid, tid, commb, pathb, ino, dev) \<Rightarrow>
       let exe = SanitizeField (nullTermStr pathb) 4096 in
       emit a ''exec_jsonl'' (\<lambda>n. JExecEvent
         \<lparr>ex_Type = ''exec'', ex_TS = ck_ts ck, ex_Seq = n, ex_PID = tgid, ex_TGID = tgid, ex_ThreadID = tid,
          ex_Comm = comm_text commb, ex_Exe = exe, ex_ExeInode = ino, ex_ExeDev = dev,
          ex_ExeSHA256 = ae_exeSHA a exe, ex_Sig = []\<rparr>) (stat addExec w))"

definition decodeFork ::
    "bytes \<Rightarrow> (32 word \<times> 32 word \<times> bytes \<times> bytes \<times> 32 word \<times> 32 word) option" where
  "decodeFork raw = (if length raw < 48 then None
     else Some (le32_at raw 0, le32_at raw 4, slice 8 24 raw, slice 24 40 raw, le32_at raw 40, le32_at raw 44))"

definition readForkRing :: "'o agent_env \<Rightarrow> clock \<Rightarrow> bytes \<Rightarrow> 'o observer \<Rightarrow> 'o observer" where
  "readForkRing a ck raw w = (case decodeFork raw of None \<Rightarrow> stat (addDropped ''proc_fork_decode'') w
     | Some (ppid, cpid, pcommb, ccommb, sid, pidns) \<Rightarrow>
       emit a ''proc_fork_jsonl'' (\<lambda>n. JProcForkEvent
         \<lparr>pf_Type = ''proc_fork'', pf_TS = ck_ts ck, pf_Seq = n, pf_ParentPID = ppid, pf_ChildPID = cpid,
          pf_ParentComm = comm_text pcommb, pf_ChildComm = comm_text ccommb, pf_ChildSID = sid, pf_ChildPidnsNum = pidns,
          pf_Note = ''best-effort pid namespace; parent/child are kernel fork trace ids'', pf_Sig = []\<rparr>)
         (stat addProcFork w))"

definition fsOpName :: "byte \<Rightarrow> string" where
  "fsOpName p = (if p = 1 then ''create'' else if p = 2 then ''unlink'' else if p = 3 then ''rename''
     else if p = 4 then ''chmod'' else ''unknown'')"

definition maxFSEventsTotal :: int where "maxFSEventsTotal = 5000"

definition decodeFS :: "bytes \<Rightarrow> (32 word \<times> 32 word \<times> bytes \<times> byte \<times> bytes) option" where
  "decodeFS raw = (if length raw < 284 then None
     else Some (le32_at raw 0, le32_at raw 4, slice 8 24 raw, raw ! 24, slice 25 281 raw))"

definition readFSRing :: "'o agent_env \<Rightarrow> clock \<Rightarrow> bytes \<Rightarrow> 'o observer \<Rightarrow> 'o observer" where
  "readFSRing a ck raw w = (case decodeFS raw of None \<Rightarrow> stat (addDropped ''fs_decode'') w
     | Some (tgid, tid, commb, p, pathb) \<Rightarrow>
       let w1 = stat addFS (w\<lparr>o_fsCount := o_fsCount w + 1\<rparr>) in
       if maxFSEventsTotal < o_fsCount w1 then stat (addDropped ''fs_cap'') w1
       else emit a ''fs_jsonl'' (\<lambda>n. JFSEvent
         \<lparr>fe_Type = ''fs_event'', fe_TS = ck_ts ck, fe_Seq = n, fe_PID = tgid, fe_TGID = tgid, fe_ThreadID = tid,
          fe_Comm = comm_text commb, fe_Op = fsOpName p, fe_Path = SanitizeField (nullTermStr pathb) 4096,
          fe_Note = [], fe_Sig = []\<rparr>) w1)"

section \<open>Connections\<close>

datatype connectRingRecordKind = KindConnectEvent | KindCanary | KindConnectResult

definition canaryMagic :: "32 word" where "canaryMagic = 0xCA1A1210"
definition connectResultMagic :: "32 word" where "connectResultMagic = 0xC0EE0001"
definition canaryEventWireSize :: nat where "canaryEventWireSize = 16"

definition classifyConnectRingRecord :: "bytes \<Rightarrow> connectRingRecordKind" where
  "classifyConnectRingRecord raw = (if length raw < 4 then KindConnectEvent
     else let m = le32_at raw 0 in
       if m = canaryMagic then KindCanary
       else if m = connectResultMagic then KindConnectResult else KindConnectEvent)"

definition lookup_name :: "clock \<Rightarrow> bytes \<Rightarrow> 'o observer \<Rightarrow> string \<times> string" where
  "lookup_name ck ip w = (case o_dns w of None \<Rightarrow> ([], ''unknown'') | Some c \<Rightarrow> LookupProvenance (ck_now ck) ip c)"

definition on_canary :: "clock \<Rightarrow> bytes \<Rightarrow> 'o observer \<Rightarrow> 'o observer" where
  "on_canary ck raw w = (if length raw < canaryEventWireSize then w
     else w\<lparr>o_canary := map_option (noteReceived (ck_now ck) (le64_at raw 8)) (o_canary w)\<rparr>)"

definition on_connect_result :: "'o agent_env \<Rightarrow> clock \<Rightarrow> bytes \<Rightarrow> 'o observer \<Rightarrow> 'o observer" where
  "on_connect_result a ck raw w = (case decodeConnectResultEvent raw of
       None \<Rightarrow> stat (addDropped ''tcp_result_decode'') w
     | Some (tgid, tid, commb, result) \<Rightarrow>
       let bucket = ConnectResultString result in
       emit a ''tcp_result_jsonl'' (\<lambda>n. JTCPResultEvent
         \<lparr>tr_Type = ''tcp_result'', tr_TS = ck_ts ck, tr_Seq = n, tr_PID = tgid, tr_TGID = tgid, tr_ThreadID = tid,
          tr_Comm = comm_text commb, tr_Result = result, tr_ResultStr = bucket, tr_Sig = []\<rparr>)
         (stat (addTCPResult bucket) w))"

definition on_connect :: "'o agent_env \<Rightarrow> clock \<Rightarrow> bytes \<Rightarrow> 'o observer \<Rightarrow> 'o observer" where
  "on_connect a ck raw w = (case decodeConnectEvent raw of None \<Rightarrow> stat (addDropped ''tcp_decode'') w
     | Some (tgid, tid, commb, daddr, port) \<Rightarrow>
       (case To4 daddr of None \<Rightarrow> w
        | Some ip \<Rightarrow>
          let (name, prov) = lookup_name ck ip w; fqdn = SanitizeField name 253;
            cl = Classify (ae_ul a) (ae_pol a) fqdn ip in
          emit a ''tcp_jsonl'' (\<lambda>n. JTCPEvent
            \<lparr>tc_Type = ''tcp'', tc_TS = ck_ts ck, tc_Seq = n, tc_PID = tgid, tc_TGID = tgid, tc_ThreadID = tid,
             tc_Comm = comm_text commb, tc_Dst = IP_String ip, tc_Dport = port, tc_FQDN = fqdn, tc_FQDNProvenance = prov,
             tc_Direction = ''egress'', tc_Policy = class_string cl, tc_Sig = []\<rparr>)
            (stat (incDomainCount fqdn) (stat (addTCP cl) w))))"

definition readConnectRing :: "'o agent_env \<Rightarrow> clock \<Rightarrow> bytes \<Rightarrow> 'o observer \<Rightarrow> 'o observer" where
  "readConnectRing a ck raw w = (case classifyConnectRingRecord raw of
       KindCanary \<Rightarrow> on_canary ck raw w
     | KindConnectResult \<Rightarrow> on_connect_result a ck raw w
     | KindConnectEvent \<Rightarrow> on_connect a ck raw w)"

section \<open>TLS\<close>

definition note_single :: string where
  "note_single = ''ClientHello SNI from first write/writev/sendto buffer (best-effort); fragmented handshakes may be missed''"

definition note_reassembled :: string where
  "note_reassembled = ''ClientHello SNI recovered via inter-syscall reassembly (header/body split across writes)''"

text \<open>The server name of one capture, from the buffer itself or from the reassembler.\<close>

definition hello_name :: "'o agent_env \<Rightarrow> clock \<Rightarrow> 32 word \<Rightarrow> bytes \<Rightarrow> bytes \<Rightarrow> bool \<Rightarrow> 16 word \<Rightarrow> bytes \<Rightarrow>
    'o observer \<Rightarrow> (string \<times> bool) option \<times> 'o observer" where
  "hello_name a ck tgid daddr daddr6 isIPv6 port rawPay w = (case ParseClientHelloSNI (ae_ul a) rawPay of
       Some sni \<Rightarrow> (Some (sni, False), w)
     | None \<Rightarrow>
       (case tlsReassemblyKeyForEvent tgid daddr daddr6 isIPv6 port of None \<Rightarrow> (None, w)
        | Some key \<Rightarrow>
          let (res, r) = appendAndParse (ae_ul a) (ae_iterS a) (ck_reasm ck) key rawPay (o_reasm w); w1 = w\<lparr>o_reasm := r\<rparr> in
          if ar_parsed res then (Some (ar_sni res, ar_reassembly res), w1) else (None, w1)))"

definition tls_ip :: "bytes \<Rightarrow> bytes \<Rightarrow> bool \<Rightarrow> bytes option" where
  "tls_ip daddr daddr6 isIPv6 = (if isIPv6 then (if length daddr6 = 16 then Some daddr6 else None) else To4 daddr)"

definition readTLSRing :: "'o agent_env \<Rightarrow> clock \<Rightarrow> bytes \<Rightarrow> 'o observer \<Rightarrow> 'o observer" where
  "readTLSRing a ck raw w = (case decodeTLSSniffEvent raw of None \<Rightarrow> stat (addDropped ''tls_decode'') w
     | Some (tgid, tid, commb, daddr, port, rawPay, daddr6, isIPv6) \<Rightarrow>
       (case tls_ip daddr daddr6 isIPv6 of None \<Rightarrow> w
        | Some ip \<Rightarrow>
          (case hello_name a ck tgid daddr daddr6 isIPv6 port rawPay w of
            (None, w1) \<Rightarrow> stat (addDropped ''tls_sni_parse'') w1
          | (Some (name, reassembled), w1) \<Rightarrow>
            let sni = SanitizeField name 253; cl = Classify (ae_ul a) (ae_pol a) sni ip;
              over = IsKTLS (ae_iterB a) (ck_now ck) tgid 0 (ck_recv ck) (o_ktls w1);
              conf = (if over then TLSConfidenceUnknown else ScoreTLSConfidence name) in
            emit a ''tls_jsonl'' (\<lambda>n. JTLSEvent
              \<lparr>tl_Type = ''tls'', tl_TS = ck_ts ck, tl_Seq = n, tl_PID = tgid, tl_TGID = tgid, tl_ThreadID = tid,
               tl_Comm = comm_text commb, tl_SNI = sni, tl_Confidence = conf,
               tl_ConfidenceReason = (if over then ''ktls'' else []), tl_ReassembledSNI = reassembled,
               tl_Dst = IP_String ip, tl_Dport = port, tl_IsIPv6 = isIPv6, tl_Policy = class_string cl,
               tl_Note = (if reassembled then note_reassembled else note_single), tl_Sig = []\<rparr>)
              (stat (incDomainCount sni) (stat (addTLS cl conf over) w1)))))"

definition readKTLSRing :: "'o agent_env \<Rightarrow> clock \<Rightarrow> bytes \<Rightarrow> 'o observer \<Rightarrow> 'o observer" where
  "readKTLSRing a ck raw w = (case decodeKTLSEvent raw of None \<Rightarrow> stat (addDropped ''ktls_decode'') w
     | Some (tgid, tid, fd, commb, dirByte) \<Rightarrow>
       let w1 = stat addKTLS w; w2 = w1\<lparr>o_ktls := Mark (ck_now ck) tgid fd (ck_recv ck) (o_ktls w1)\<rparr> in
       emit a ''ktls_jsonl'' (\<lambda>n. JKTLSEvent
         \<lparr>kt_Type = ''ktls_offload'', kt_TS = ck_ts ck, kt_Seq = n, kt_PID = tgid, kt_TGID = tgid, kt_ThreadID = tid,
          kt_Comm = comm_text commb, kt_FD = fd, kt_Direction = ktlsDirectionLabel dirByte, kt_Sig = []\<rparr>) w2)"

section \<open>Datagrams and requests\<close>

definition quic_note :: string where
  "quic_note = ''UDP/443 to non-loopback IPv4; payload encrypted (QUIC) '' @ [CHR 0xE2, CHR 0x80, CHR 0x94] @ '' not inspected''"

definition readUDPRing :: "'o agent_env \<Rightarrow> clock \<Rightarrow> bytes \<Rightarrow> 'o observer \<Rightarrow> 'o observer" where
  "readUDPRing a ck raw w = (case decodeUDPSendEvent raw of None \<Rightarrow> stat (addDropped ''udp_decode'') w
     | Some (tgid, tid, commb, daddr, port, dgramLen) \<Rightarrow>
       (case To4 daddr of None \<Rightarrow> w
        | Some ip \<Rightarrow>
          let (name, prov) = lookup_name ck ip w; fqdn = SanitizeField name 253;
            cl = Classify (ae_ul a) (ae_pol a) fqdn ip; ipStr = IP_String ip; possibleQUIC = IsQUICCandidate ipStr port;
            w1 = stat (incDomainCount fqdn) (stat (addUDP cl) w);
            w2 = (if possibleQUIC then stat addQUICObserved w1 else w1);
            w3 = emit a ''udp_jsonl'' (\<lambda>n. JUDPEvent
              \<lparr>ud_Type = ''udp'', ud_TS = ck_ts ck, ud_Seq = n, ud_PID = tgid, ud_TGID = tgid, ud_ThreadID = tid,
               ud_Comm = comm_text commb, ud_Dst = ipStr, ud_Dport = port, ud_DatagramLen = dgramLen, ud_FQDN = fqdn,
               ud_FQDNProvenance = prov, ud_Direction = ''egress'', ud_Policy = class_string cl,
               ud_PossibleQUIC = possibleQUIC, ud_Sig = []\<rparr>) w2 in
          if IsQUICCandidate ipStr port then
            emit a ''quic_candidate_jsonl'' (\<lambda>n. JQUICCandidateEvent
              \<lparr>qc_Type = ''quic_candidate'', qc_TS = ck_ts ck, qc_Seq = n, qc_PID = tgid, qc_TGID = tgid,
               qc_Comm = comm_text commb, qc_DstIP = ipStr, qc_DstPort = port, qc_Note = quic_note, qc_Sig = []\<rparr>)
              (stat addQUICCandidate w3)
          else w3))"

definition readHTTPRing :: "'o agent_env \<Rightarrow> clock \<Rightarrow> bytes \<Rightarrow> 'o observer \<Rightarrow> 'o observer" where
  "readHTTPRing a ck raw w = (case decodeHTTPSniffEvent raw of None \<Rightarrow> stat (addDropped ''http_decode'') w
     | Some (tgid, tid, commb, daddr, port, rawPay) \<Rightarrow>
       (case To4 daddr of None \<Rightarrow> w
        | Some ip \<Rightarrow>
          (case ParseHTTPRequestPrefix (ae_ul a) (bstr rawPay) of
            None \<Rightarrow> stat (addDropped ''http_prefix_parse'') w
          | Some (method0, host0, path0) \<Rightarrow>
            let method = SanitizeField method0 16; host = SanitizeField host0 253; path = SanitizeField path0 4096;
              cl = Classify (ae_ul a) (ae_pol a) host ip in
            emit a ''http_jsonl'' (\<lambda>n. JHTTPEvent
              \<lparr>ht_Type = ''http'', ht_TS = ck_ts ck, ht_Seq = n, ht_PID = tgid, ht_TGID = tgid, ht_ThreadID = tid,
               ht_Comm = comm_text commb, ht_Method = method, ht_Host = host, ht_Path = ae_redact a path,
               ht_Dst = IP_String ip, ht_Dport = port, ht_Policy = class_string cl, ht_Sig = []\<rparr>)
              (stat (incDomainCount host) (stat (addHTTP cl) w)))))"

definition readDNSRing :: "'o agent_env \<Rightarrow> clock \<Rightarrow> bytes \<Rightarrow> 'o observer \<Rightarrow> 'o observer" where
  "readDNSRing a ck raw w = (case decodeDNSSniffSample raw of None \<Rightarrow> stat (addDropped ''dns_decode'') w
     | Some (pkt, isTCP) \<Rightarrow>
       if length pkt < 12 then stat (addDropped ''dns_decode'') w
       else if isTCP \<and> length pkt < 14 then stat (addDropped ''dns_decode_tcp_short'') w
       else let pkt' = (if isTCP then drop 2 pkt else pkt) in
         if length pkt' < 12 then stat (addDropped ''dns_decode'') w
         else w\<lparr>o_dns := map_option (AddFromPacket (ae_ops a) (ae_ul a) (ae_iterE a) (ae_iterA a) (ck_now ck) pkt') (o_dns w)\<rparr>)"

section \<open>Handshakes, io_uring, audits\<close>

definition classifyTCPStateTransition :: "string \<Rightarrow> bool \<times> bool" where
  "classifyTCPStateTransition newStr = (if newStr = ''ESTABLISHED'' then (True, False)
     else if newStr \<in> {''CLOSE'', ''CLOSE_WAIT'', ''TIME_WAIT''} then (False, True) else (False, False))"

definition readTCPStateRing :: "'o agent_env \<Rightarrow> clock \<Rightarrow> bytes \<Rightarrow> 'o observer \<Rightarrow> 'o observer" where
  "readTCPStateRing a ck raw w = (case decodeTCPStateEvent raw of None \<Rightarrow> stat (addDropped ''tcp_state_decode'') w
     | Some (timestampNS, pid, saddr, daddr, sport, dport, oldState, newState, commb) \<Rightarrow>
       let oldStr = TCPStateName oldState; newStr = TCPStateName newState;
         (confirmed, refused) = classifyTCPStateTransition newStr; w1 = stat (addTCPState confirmed refused) w in
       (case To4 daddr of None \<Rightarrow> w1
        | Some dstIP \<Rightarrow>
          emit a ''tcp_state_jsonl'' (\<lambda>n. JTCPStateEvent
            \<lparr>st_Type = ''tcp_state'', st_TS = ck_ts ck, st_Seq = n, st_TimestampNS = timestampNS, st_PID = pid,
             st_Comm = comm_text commb, st_SrcIP = IP_String saddr, st_SrcPort = sport, st_DstIP = IP_String dstIP,
             st_DstPort = dport, st_OldState = oldStr, st_NewState = newStr, st_Sig = []\<rparr>) w1))"

definition readIoUringRing :: "'o agent_env \<Rightarrow> clock \<Rightarrow> bytes \<Rightarrow> 'o observer \<Rightarrow> 'o observer" where
  "readIoUringRing a ck raw w = (case decodeIOUringSendEvent raw of None \<Rightarrow> stat (addDropped ''io_uring_decode'') w
     | Some (ts, pid, fd, daddr, dport, p, hasTLSHello, commb) \<Rightarrow>
       let (dstIP, dstPort) = (case To4 daddr of None \<Rightarrow> ([], 0)
         | Some ip \<Rightarrow> if \<not> (daddr = [0, 0, 0, 0] \<and> dport = 0) then (IP_String ip, dport) else ([], 0)) in
       emit a ''io_uring_jsonl'' (\<lambda>n. JIOUringSendEvent
         \<lparr>io_Type = ''io_uring_send'', io_TS = ck_ts ck, io_Seq = n, io_PID = pid, io_Comm = comm_text commb, io_FD = fd,
          io_Op = ioUringOpName p, io_DstIP = dstIP, io_DstPort = dstPort, io_HasTLSHello = hasTLSHello, io_Sig = []\<rparr>)
         (stat addIoUringSend w))"

definition egressBackstopProtoName :: "byte \<Rightarrow> string" where
  "egressBackstopProtoName p = (if p = 6 then ''tcp'' else if p = 17 then ''udp'' else if p = 1 then ''icmp''
     else if p = 58 then ''icmpv6'' else if p = 255 then ''raw'' else ''other'')"

definition egressBackstopEventFromRaw :: "bytes \<Rightarrow> string \<Rightarrow> 64 word \<Rightarrow> EgressBackstopEvent option" where
  "egressBackstopEventFromRaw raw ts n = (case decodeEgressBackstopEvent raw of None \<Rightarrow> None
     | Some (t, pid, af, ipproto, daddr, dport, commb) \<Rightarrow>
       (case (if af = linuxAFInet then Some (''ipv4'', take 4 daddr)
          else if af = linuxAFInet6 then Some (''ipv6'', take 16 daddr) else None) of None \<Rightarrow> None
        | Some (afStr, ip) \<Rightarrow> Some
          \<lparr>eb_Type = ''egress_backstop'', eb_TS = ts, eb_Seq = n, eb_PID = pid, eb_Comm = comm_text commb, eb_AF = afStr,
           eb_Proto = egressBackstopProtoName ipproto, eb_Dst = IP_String ip, eb_Dport = dport,
           eb_Note = ''egress to non-allowlisted IP reached the egress qdisc without a connect4/sendmsg4 decision (raw-socket or post-connect bypass)'',
           eb_Sig = []\<rparr>))"

definition readEgressBackstopRing :: "'o agent_env \<Rightarrow> clock \<Rightarrow> bytes \<Rightarrow> 'o observer \<Rightarrow> 'o observer" where
  "readEgressBackstopRing a ck raw w = (case egressBackstopEventFromRaw raw (ck_ts ck) 0 of None \<Rightarrow> w
     | Some ev \<Rightarrow> emit a ''egress_backstop_jsonl'' (\<lambda>n. JEgressBackstopEvent (ev\<lparr>eb_Seq := n\<rparr>))
         (stat (addEgressBackstop (eb_Dst ev)) w))"

definition bpfSelfDefenseKindName :: "byte \<Rightarrow> string" where
  "bpfSelfDefenseKindName k = (if k = 1 then ''prog'' else if k = 2 then ''map'' else if k = 3 then ''pin''
     else if k = 4 then ''link'' else ''other'')"

definition bpfSelfDefenseEventFromRaw :: "bytes \<Rightarrow> string \<Rightarrow> 64 word \<Rightarrow> BpfSelfDefenseEvent option" where
  "bpfSelfDefenseEventFromRaw raw ts n = (case decodeBpfSelfDefenseEvent raw of None \<Rightarrow> None
     | Some (t, commb, tgid, targetID, cmd, kind) \<Rightarrow> Some
       \<lparr>sd_Type = ''bpf_self_defense'', sd_TS = ts, sd_Seq = n, sd_TGID = tgid, sd_Comm = comm_text commb, sd_Cmd = cmd,
        sd_TargetKind = bpfSelfDefenseKindName kind, sd_TargetID = targetID, sd_Action = ''denied'', sd_Sig = []\<rparr>)"

definition readBpfSelfDefenseRing :: "'o agent_env \<Rightarrow> clock \<Rightarrow> bytes \<Rightarrow> 'o observer \<Rightarrow> 'o observer" where
  "readBpfSelfDefenseRing a ck raw w = (case bpfSelfDefenseEventFromRaw raw (ck_ts ck) 0 of None \<Rightarrow> w
     | Some ev \<Rightarrow> emit a ''bpf_self_defense_jsonl'' (\<lambda>n. JBpfSelfDefenseEvent (ev\<lparr>sd_Seq := n\<rparr>)) (stat addBpfSelfDefense w))"

definition ioUringTLSEventFromRaw :: "(string \<Rightarrow> string) \<Rightarrow> bytes \<Rightarrow> string \<Rightarrow> 64 word \<Rightarrow> IOUringTLSEvent option" where
  "ioUringTLSEventFromRaw ul raw ts n = (case decodeIOUringTLSEvent raw of None \<Rightarrow> None
     | Some (t, pid, p, payload, commb, daddr, dport) \<Rightarrow>
       (case ParseClientHelloSNI ul payload of None \<Rightarrow> None
        | Some sni \<Rightarrow> if sni = [] then None else Some
          \<lparr>it_Type = ''io_uring_tls'', it_TS = ts, it_Seq = n, it_PID = pid, it_Comm = comm_text commb,
           it_Op = ioUringOpName p, it_SNI = SanitizeField sni 253,
           it_Dst = (if daddr \<noteq> [0, 0, 0, 0] then IP_String (v4InV6Prefix @ daddr) else ''unknown''),
           it_DstPort = dport, it_Sig = []\<rparr>))"

definition readIoUringTLSRing :: "'o agent_env \<Rightarrow> clock \<Rightarrow> bytes \<Rightarrow> 'o observer \<Rightarrow> 'o observer" where
  "readIoUringTLSRing a ck raw w = (case ioUringTLSEventFromRaw (ae_ul a) raw (ck_ts ck) 0 of None \<Rightarrow> w
     | Some ev \<Rightarrow> emit a ''io_uring_tls_jsonl'' (\<lambda>n. JIOUringTLSEvent (ev\<lparr>it_Seq := n\<rparr>))
         (stat (addIoUringTLSSNI (it_SNI ev)) w))"

definition readBPFAuditRing :: "'o agent_env \<Rightarrow> clock \<Rightarrow> bytes \<Rightarrow> 'o observer \<Rightarrow> 'o observer" where
  "readBPFAuditRing a ck raw w = (case decodeBPFAuditEvent raw of None \<Rightarrow> stat (addDropped ''bpf_audit_decode'') w
     | Some (tgid, tid, commb, cmd) \<Rightarrow>
       emit a ''bpf_audit_jsonl'' (\<lambda>n. JBPFAuditEvent
         \<lparr>au_Type = ''bpf_audit'', au_TS = ck_ts ck, au_Seq = n, au_PID = tgid, au_TGID = tgid, au_ThreadID = tid,
          au_Comm = comm_text commb, au_Cmd = cmd, au_Sig = []\<rparr>) (stat addBPFAudit w))"

definition ipv6ObsEventWireSize :: nat where "ipv6ObsEventWireSize = 44"

definition ipv6ObsHookName :: "byte \<Rightarrow> string" where
  "ipv6ObsHookName hook = (if hook = 1 then ''udp6'' else ''tcp6'')"

definition readIPv6ObsRing :: "'o agent_env \<Rightarrow> clock \<Rightarrow> bytes \<Rightarrow> 'o observer \<Rightarrow> 'o observer" where
  "readIPv6ObsRing a ck raw w = (if length raw < ipv6ObsEventWireSize then stat (addDropped ''ipv6_obs_decode'') w
     else emit a ''ipv6_obs_jsonl'' (\<lambda>n. JIPv6Event
       \<lparr>v6_Type = ipv6ObsHookName (raw ! 40), v6_TS = ck_ts ck, v6_Seq = n, v6_PID = le32_at raw 20,
        v6_Comm = comm_text (slice 24 40 raw), v6_Dst = IP_String (slice 0 16 raw), v6_Dport = port_at raw 16,
        v6_Note = ''ipv6-not-enforced'', v6_Sig = []\<rparr>) (stat addIPv6Event w))"

section \<open>A run\<close>

datatype ring = ExecRing | ForkRing | FSRing | ConnectRing | TLSRing | KTLSRing | UDPRing | HTTPRing | DNSRing
  | TCPStateRing | IoUringRing | EgressBackstopRing | SelfDefenseRing | IoUringTLSRing | AuditRing | IPv6Ring

fun on_record :: "'o agent_env \<Rightarrow> ring \<Rightarrow> clock \<Rightarrow> bytes \<Rightarrow> 'o observer \<Rightarrow> 'o observer" where
  "on_record a ExecRing = readExecRing a"
| "on_record a ForkRing = readForkRing a"
| "on_record a FSRing = readFSRing a"
| "on_record a ConnectRing = readConnectRing a"
| "on_record a TLSRing = readTLSRing a"
| "on_record a KTLSRing = readKTLSRing a"
| "on_record a UDPRing = readUDPRing a"
| "on_record a HTTPRing = readHTTPRing a"
| "on_record a DNSRing = readDNSRing a"
| "on_record a TCPStateRing = readTCPStateRing a"
| "on_record a IoUringRing = readIoUringRing a"
| "on_record a EgressBackstopRing = readEgressBackstopRing a"
| "on_record a SelfDefenseRing = readBpfSelfDefenseRing a"
| "on_record a IoUringTLSRing = readIoUringTLSRing a"
| "on_record a AuditRing = readBPFAuditRing a"
| "on_record a IPv6Ring = readIPv6ObsRing a"

definition observe :: "'o agent_env \<Rightarrow> (ring \<times> clock \<times> bytes) list \<Rightarrow> 'o observer \<Rightarrow> 'o observer" where
  "observe a rs w = fold (\<lambda>(r, ck, raw). on_record a r ck raw) rs w"

definition new_observer :: "'o dns_cache option \<Rightarrow> 'o observer" where
  "new_observer dns = \<lparr>o_stats = newRunStats, o_sink = \<lparr>next_seq = 0, lines = []\<rparr>, o_dns = dns,
     o_ktls = Some newKTLSTracker, o_reasm = newTLSReassembler, o_fsCount = 0, o_canary = Some newCanaryState\<rparr>"

named_theorems readers \<open>the definitions of the handlers\<close>

lemmas reader_defs [readers] = readExecRing_def readForkRing_def readFSRing_def readConnectRing_def on_canary_def
  on_connect_result_def on_connect_def readTLSRing_def readKTLSRing_def readUDPRing_def readHTTPRing_def readDNSRing_def
  readTCPStateRing_def readIoUringRing_def readEgressBackstopRing_def readBpfSelfDefenseRing_def readIoUringTLSRing_def
  readBPFAuditRing_def readIPv6ObsRing_def

lemma stat_sel [simp]:
  "o_stats (stat f w) = f (o_stats w)" "o_sink (stat f w) = o_sink w" "o_fsCount (stat f w) = o_fsCount w"
  "o_ktls (stat f w) = o_ktls w"
  by (simp_all add: stat_def)

lemma hello_name_sel:
  assumes "hello_name a ck tgid daddr daddr6 isIPv6 port rawPay w = (r, w1)"
  shows "o_stats w1 = o_stats w" "o_sink w1 = o_sink w"
  using assms by (auto simp: hello_name_def Let_def split: option.splits prod.splits if_splits)

lemma observe_invariant:
  assumes "\<And>r ck raw w. I w \<Longrightarrow> I (on_record a r ck raw w)" "I w"
  shows "I (observe a rs w)"
  using assms(2) unfolding observe_def by (induction rs arbitrary: w) (auto intro: assms(1))

section \<open>Counters\<close>

lemma emit_stats: "o_stats (emit a kind ev w) = o_stats w \<or> o_stats (emit a kind ev w) = addDropped kind (o_stats w)"
  by (simp add: emit_def split_beta Let_def)

lemma accounted_emit [simp]: "accounted (o_stats w) \<Longrightarrow> accounted (o_stats (emit a kind ev w))"
  using emit_stats [of a kind ev w] by auto

lemma classify_exclusive: "\<not> (fst (classifyTCPStateTransition s) \<and> snd (classifyTCPStateTransition s))"
  by (simp add: classifyTCPStateTransition_def)

lemma dropped_commutes: "addDropped k (addQUICObserved s) = addQUICObserved (addDropped k s)"
  by (simp add: stat_ops)

lemma accounted_QUIC_emit:
  assumes "accounted (o_stats w)"
  shows "accounted (addQUICCandidate (o_stats (emit a kind ev (stat addQUICObserved w))))"
  using emit_stats [of a kind ev "stat addQUICObserved w"] assms by (auto simp: dropped_commutes)

lemma accounted_TLSRing: "accounted (o_stats w) \<Longrightarrow> accounted (o_stats (readTLSRing a ck raw w))"
  by (auto simp: readTLSRing_def Let_def hello_name_sel split: option.split prod.split)

lemma accounted_UDPRing: "accounted (o_stats w) \<Longrightarrow> accounted (o_stats (readUDPRing a ck raw w))"
  by (auto simp: readUDPRing_def Let_def accounted_QUIC_emit split: option.split prod.split)

lemma accounted_TCPStateRing: "accounted (o_stats w) \<Longrightarrow> accounted (o_stats (readTCPStateRing a ck raw w))"
  using classify_exclusive
  by (auto simp: readTCPStateRing_def Let_def split_beta split: option.split)

lemma accounted_record: "accounted (o_stats w) \<Longrightarrow> accounted (o_stats (on_record a r ck raw w))"
  by (cases r) (simp_all add: accounted_TLSRing accounted_UDPRing accounted_TCPStateRing,
    auto simp: readers Let_def split: option.split prod.split connectRingRecordKind.split)

section \<open>Text taken from the wire\<close>

definition clean_text :: "string \<Rightarrow> bool" where
  "clean_text s \<longleftrightarrow> ValidString (codes s) \<and> list_all (\<lambda>b. 0x20 \<le> b \<and> b \<noteq> 0x7F) (codes s) \<and>
     list_all (\<lambda>r. \<not> stripped r) (runes (codes s))"

text \<open>The fields of a line whose text a traced process or a remote peer chooses. The path of a request is not
  among them: it is redacted after it is sanitised.\<close>

fun wire_texts :: "jsonl \<Rightarrow> string list" where
  "wire_texts (JExecEvent e) = [ex_Comm e, ex_Exe e]"
| "wire_texts (JProcForkEvent e) = [pf_ParentComm e, pf_ChildComm e]"
| "wire_texts (JTCPStateEvent e) = [st_Comm e]"
| "wire_texts (JTCPEvent e) = [tc_Comm e, tc_FQDN e]"
| "wire_texts (JTCPResultEvent e) = [tr_Comm e]"
| "wire_texts (JUDPEvent e) = [ud_Comm e, ud_FQDN e]"
| "wire_texts (JHTTPEvent e) = [ht_Comm e, ht_Method e, ht_Host e]"
| "wire_texts (JTLSEvent e) = [tl_Comm e, tl_SNI e]"
| "wire_texts (JQUICCandidateEvent e) = [qc_Comm e]"
| "wire_texts (JIPv6Event e) = [v6_Comm e]"
| "wire_texts (JFSEvent e) = [fe_Comm e, fe_Path e]"
| "wire_texts (JDenyEvent e) = [dn_Comm e]"
| "wire_texts (JKTLSEvent e) = [kt_Comm e]"
| "wire_texts (JIOUringSendEvent e) = [io_Comm e]"
| "wire_texts (JEgressBackstopEvent e) = [eb_Comm e]"
| "wire_texts (JIOUringTLSEvent e) = [it_Comm e, it_SNI e]"
| "wire_texts (JBPFAuditEvent e) = [au_Comm e]"
| "wire_texts (JBpfSelfDefenseEvent e) = [sd_Comm e]"

definition clean_log :: "sink \<Rightarrow> bool" where
  "clean_log k \<longleftrightarrow> list_all (\<lambda>e. list_all clean_text (wire_texts e)) (lines k)"

lemma clean_SanitizeField [simp]: "clean_text (SanitizeField s n)"
  using sanitized_safe [of s n] by (simp add: clean_text_def)

lemma clean_comm [simp]: "clean_text (comm_text b)"
  by (simp add: comm_text_def)

lemma clean_emit [simp]:
  "clean_log (o_sink w) \<Longrightarrow> (\<And>n. list_all clean_text (wire_texts (ev n))) \<Longrightarrow> clean_log (o_sink (emit a kind ev w))"
  by (simp add: emit_def AppendJSONL_def Next_def Let_def clean_log_def)

lemma clean_TLSRing: "clean_log (o_sink w) \<Longrightarrow> clean_log (o_sink (readTLSRing a ck raw w))"
  by (auto simp: readTLSRing_def Let_def hello_name_sel split: option.split prod.split)

lemma from_raw_clean:
  "egressBackstopEventFromRaw raw ts n = Some e \<Longrightarrow> clean_text (eb_Comm e)"
  "bpfSelfDefenseEventFromRaw raw ts n = Some e' \<Longrightarrow> clean_text (sd_Comm e')"
  "ioUringTLSEventFromRaw ul raw ts n = Some e'' \<Longrightarrow> clean_text (it_Comm e'') \<and> clean_text (it_SNI e'')"
  by (auto simp: egressBackstopEventFromRaw_def bpfSelfDefenseEventFromRaw_def ioUringTLSEventFromRaw_def
      split: option.splits prod.splits if_splits)

lemma clean_record: "clean_log (o_sink w) \<Longrightarrow> clean_log (o_sink (on_record a r ck raw w))"
  by (cases r) (simp_all add: clean_TLSRing,
    auto simp: readers Let_def from_raw_clean split: option.split prod.split connectRingRecordKind.split)

section \<open>Sequence numbers\<close>

lemma advances_emit:
  assumes "\<And>n. line_seq (ev n) = n" "o_sink w = k"
  shows "advances 1 k (o_sink (emit a kind ev w))"
  using advances_append [OF assms(1), of k "ae_append a"] assms(2)
  by (simp add: emit_def split_beta Let_def)

lemma advances_emit_le2:
  assumes "\<And>n. line_seq (ev n) = n" "o_sink w = k"
  shows "advances 2 k (o_sink (emit a kind ev w))"
  by (rule advances_mono [OF advances_emit [OF assms]]) simp_all

lemma advances_emit_twice:
  assumes "\<And>n. line_seq (ev n) = n" "\<And>n. line_seq (ev' n) = n" "o_sink w = k"
  shows "advances 2 k (o_sink (emit a kind' ev' (stat f (emit a kind ev w))))"
proof -
  have "advances 1 (o_sink (emit a kind ev w)) (o_sink (emit a kind' ev' (stat f (emit a kind ev w))))"
    by (rule advances_emit) (simp_all add: assms(2))
  then show ?thesis
    using advances_trans [OF advances_emit [OF assms(1,3)]] by (simp add: numeral_2_eq_2)
qed

lemma advances_UDPRing: "advances 2 (o_sink w) (o_sink (readUDPRing a ck raw w))"
  by (auto simp: readUDPRing_def Let_def split: option.split prod.split
      intro: advances_emit_twice advances_emit_le2)

lemma advances_TLSRing: "advances 2 (o_sink w) (o_sink (readTLSRing a ck raw w))"
  by (auto simp: readTLSRing_def Let_def hello_name_sel split: option.split prod.split intro!: advances_emit_le2)

lemma advances_record: "advances 2 (o_sink w) (o_sink (on_record a r ck raw w))"
  by (cases r) (simp_all add: advances_UDPRing advances_TLSRing,
    auto simp: readers Let_def split: option.split prod.split connectRingRecordKind.split intro!: advances_emit_le2)

lemma advances_observe: "advances (2 * length rs) (o_sink w) (o_sink (observe a rs w))"
proof (induction rs arbitrary: w)
  case (Cons x rs)
  obtain r ck raw where x: "x = (r, ck, raw)"
    by (cases x) auto
  have "advances (2 + 2 * length rs) (o_sink w) (o_sink (observe a rs (on_record a r ck raw w)))"
    by (rule advances_trans [OF advances_record Cons.IH])
  then show ?case
    by (simp add: observe_def x)
qed (simp add: observe_def)

section \<open>Every counted event is a line or a counted loss\<close>

text \<open>A counter, the kinds of loss that excuse it, and the types of the lines it counts.\<close>

definition ledger :: "((runStats \<Rightarrow> int) \<times> string list \<times> string list) list" where
  "ledger = [(execN, [''exec_jsonl''], [''exec'']), (procForkN, [''proc_fork_jsonl''], [''proc_fork'']),
     (fsN, [''fs_jsonl'', ''fs_cap''], [''fs_event'']), (tcpN, [''tcp_jsonl''], [''tcp'']),
     (udpN, [''udp_jsonl''], [''udp'']), (httpN, [''http_jsonl''], [''http'']), (tlsN, [''tls_jsonl''], [''tls'']),
     (ktlsN, [''ktls_jsonl''], [''ktls_offload'']), (tcpStateN, [''tcp_state_jsonl''], [''tcp_state'']),
     (quicCandidateN, [''quic_candidate_jsonl''], [''quic_candidate'']),
     (ioUringSendN, [''io_uring_jsonl''], [''io_uring_send'']),
     (egressBackstopN, [''egress_backstop_jsonl''], [''egress_backstop'']),
     (bpfSelfDefenseN, [''bpf_self_defense_jsonl''], [''bpf_self_defense'']),
     (bpfAuditN, [''bpf_audit_jsonl''], [''bpf_audit'']), (ipv6EventCountN, [''ipv6_obs_jsonl''], [''tcp6'', ''udp6''])]"

fun owed :: "(runStats \<Rightarrow> int) \<times> string list \<times> string list \<Rightarrow> 'o observer \<Rightarrow> int" where
  "owed (c, kinds, types) w = c (o_stats w) - int (length (filter (\<lambda>e. line_type e \<in> set types) (lines (o_sink w)))) -
     sum_list (map (\<lambda>k. count_of k (droppedCounts (o_stats w))) kinds)"

definition balanced :: "'o observer \<Rightarrow> bool" where
  "balanced w \<longleftrightarrow> list_all (\<lambda>l. owed l w = 0) ledger"

declare owed.simps [simp del]

definition indifferent :: "(runStats \<Rightarrow> int) \<Rightarrow> bool" where
  "indifferent c \<longleftrightarrow> (\<forall>k s. c (addDropped k s) = c s)"

lemma ledger_indifferent [simp]:
  "indifferent execN" "indifferent procForkN" "indifferent fsN" "indifferent tcpN" "indifferent udpN" "indifferent httpN"
  "indifferent tlsN" "indifferent ktlsN" "indifferent tcpStateN" "indifferent quicCandidateN" "indifferent ioUringSendN"
  "indifferent egressBackstopN" "indifferent bpfSelfDefenseN" "indifferent bpfAuditN" "indifferent ipv6EventCountN"
  by (simp_all add: indifferent_def addDropped_def)

lemma owed_cong: "o_stats w' = o_stats w \<Longrightarrow> o_sink w' = o_sink w \<Longrightarrow> owed l w' = owed l w"
  by (cases l) (simp add: owed.simps)

lemma owed_update [simp]:
  "owed l (w\<lparr>o_fsCount := n\<rparr>) = owed l w" "owed l (w\<lparr>o_ktls := t\<rparr>) = owed l w" "owed l (w\<lparr>o_dns := d\<rparr>) = owed l w"
  "owed l (w\<lparr>o_canary := x\<rparr>) = owed l w"
  by (rule owed_cong; simp)+

lemma sum_counts_bump:
  "distinct ks \<Longrightarrow> sum_list (map (\<lambda>k. count_of k (bump j m)) ks) =
     sum_list (map (\<lambda>k. count_of k m) ks) + (if j \<in> set ks then 1 else 0)"
  by (induction ks) auto

lemma owed_dropped:
  assumes "indifferent c" "distinct ks" "TrimSpace kind \<noteq> []"
  shows "owed (c, ks, p) (stat (addDropped kind) w) = owed (c, ks, p) w - (if kind \<in> set ks then 1 else 0)"
proof -
  have "droppedCounts (addDropped kind (o_stats w)) = bump kind (droppedCounts (o_stats w))"
    using assms(3) by (simp add: addDropped_def)
  then show ?thesis
    using assms(1) sum_counts_bump [OF assms(2), of kind "droppedCounts (o_stats w)"]
    by (simp add: owed.simps indifferent_def del: count_of_bump)
qed

lemma owed_counted:
  assumes "droppedCounts (f (o_stats w)) = droppedCounts (o_stats w)"
  shows "owed (c, ks, p) (stat f w) = owed (c, ks, p) w + (c (f (o_stats w)) - c (o_stats w))"
  using assms by (simp add: owed.simps)

lemma owed_emit:
  assumes "ae_EventsLogPath a \<noteq> []" "indifferent c" "distinct ks" "TrimSpace kind \<noteq> []" "\<And>n. line_type (ev n) \<in> set p \<longleftrightarrow> kind \<in> set ks"
  shows "owed (c, ks, p) (emit a kind ev w) = owed (c, ks, p) w - (if kind \<in> set ks then 1 else 0)"
proof (cases "ae_append a (ev (next_seq (o_sink w) + 1))")
  case True
  then show ?thesis
    using assms(1,5) by (simp add: emit_def AppendJSONL_def Next_def owed.simps)
next
  case False
  define w1 where "w1 = w\<lparr>o_sink := (o_sink w)\<lparr>next_seq := next_seq (o_sink w) + 1\<rparr>\<rparr>"
  have "emit a kind ev w = stat (addDropped kind) w1"
    using False assms(1) by (simp add: emit_def AppendJSONL_def Next_def w1_def)
  moreover have "owed (c, ks, p) w1 = owed (c, ks, p) w"
    by (simp add: owed.simps w1_def)
  ultimately show ?thesis
    using owed_dropped [OF assms(2-4), of p w1] by simp
qed

lemma kinds_visible [simp]:
  "TrimSpace ''exec_jsonl'' \<noteq> []" "TrimSpace ''proc_fork_jsonl'' \<noteq> []" "TrimSpace ''fs_jsonl'' \<noteq> []" "TrimSpace ''fs_cap'' \<noteq> []"
  "TrimSpace ''tcp_jsonl'' \<noteq> []" "TrimSpace ''udp_jsonl'' \<noteq> []" "TrimSpace ''http_jsonl'' \<noteq> []" "TrimSpace ''tls_jsonl'' \<noteq> []"
  "TrimSpace ''ktls_jsonl'' \<noteq> []" "TrimSpace ''tcp_state_jsonl'' \<noteq> []" "TrimSpace ''quic_candidate_jsonl'' \<noteq> []"
  "TrimSpace ''io_uring_jsonl'' \<noteq> []" "TrimSpace ''egress_backstop_jsonl'' \<noteq> []" "TrimSpace ''bpf_self_defense_jsonl'' \<noteq> []"
  "TrimSpace ''bpf_audit_jsonl'' \<noteq> []" "TrimSpace ''ipv6_obs_jsonl'' \<noteq> []" "TrimSpace ''tcp_result_jsonl'' \<noteq> []"
  "TrimSpace ''io_uring_tls_jsonl'' \<noteq> []"
  by code_simp+


lemma from_raw_type:
  "egressBackstopEventFromRaw raw ts n = Some e \<Longrightarrow> eb_Type e = ''egress_backstop''"
  "bpfSelfDefenseEventFromRaw raw ts n = Some e' \<Longrightarrow> sd_Type e' = ''bpf_self_defense''"
  "ioUringTLSEventFromRaw ul raw ts n = Some e'' \<Longrightarrow> it_Type e'' = ''io_uring_tls''"
  by (auto simp: egressBackstopEventFromRaw_def bpfSelfDefenseEventFromRaw_def ioUringTLSEventFromRaw_def
      split: option.splits prod.splits if_splits)

text \<open>An operation raises exactly the counter whose loss the kind excuses, and no line type is booked elsewhere.\<close>

definition raises :: "(runStats \<Rightarrow> runStats) \<Rightarrow> string \<Rightarrow> bool" where
  "raises f kind \<longleftrightarrow> (\<forall>s. droppedCounts (f s) = droppedCounts s) \<and>
     list_all (\<lambda>(c, ks, ts). \<forall>s. c (f s) = c s + (if kind \<in> set ks then 1 else 0)) ledger"

definition listed :: "string \<Rightarrow> string \<Rightarrow> bool" where
  "listed t kind \<longleftrightarrow> list_all (\<lambda>(c, ks, ts). t \<in> set ts \<longleftrightarrow> kind \<in> set ks) ledger"

definition excuses :: "string \<Rightarrow> bool" where
  "excuses kind \<longleftrightarrow> list_ex (\<lambda>(c, ks, ts). kind \<in> set ks) ledger"

lemma ledger_wf: "(c, ks, ts) \<in> set ledger \<Longrightarrow> indifferent c \<and> distinct ks"
  by (auto simp: ledger_def)

lemma balancedI: "(\<And>c ks ts. (c, ks, ts) \<in> set ledger \<Longrightarrow> owed (c, ks, ts) w = 0) \<Longrightarrow> balanced w"
  by (auto simp: balanced_def list_all_iff)

lemma balancedD: "balanced w \<Longrightarrow> (c, ks, ts) \<in> set ledger \<Longrightarrow> owed (c, ks, ts) w = 0"
  by (auto simp: balanced_def list_all_iff)

lemma balanced_cong:
  assumes "o_stats w' = o_stats w" "o_sink w' = o_sink w"
  shows "balanced w' = balanced w"
  using owed_cong [OF assms] by (simp add: balanced_def)

lemma raised:
  assumes "raises f kind" "(c, ks, ts) \<in> set ledger"
  shows "owed (c, ks, ts) (stat f w) = owed (c, ks, ts) w + (if kind \<in> set ks then 1 else 0)"
  using assms by (subst owed_counted) (auto simp: raises_def list_all_iff dest!: bspec)

lemma balanced_emit:
  assumes "ae_EventsLogPath a \<noteq> []" "balanced w" "raises f kind" "\<And>n. listed (line_type (ev n)) kind" "TrimSpace kind \<noteq> []"
  shows "balanced (emit a kind ev (stat f w))"
proof (rule balancedI)
  fix c ks ts
  assume l: "(c, ks, ts) \<in> set ledger"
  have "line_type (ev n) \<in> set ts \<longleftrightarrow> kind \<in> set ks" for n
    using assms(4) [of n] l by (auto simp: listed_def list_all_iff)
  then show "owed (c, ks, ts) (emit a kind ev (stat f w)) = 0"
    using owed_emit [OF assms(1) _ _ assms(5), of c ks ev ts "stat f w"] ledger_wf [OF l] raised [OF assms(3) l, of w]
      balancedD [OF assms(2) l] by simp
qed

lemma balanced_dropped:
  assumes "balanced w" "\<not> excuses kind"
  shows "balanced (stat (addDropped kind) w)"
proof (rule balancedI)
  fix c ks ts
  assume l: "(c, ks, ts) \<in> set ledger"
  have "kind \<notin> set ks"
    using assms(2) l by (auto simp: excuses_def list_ex_iff)
  moreover have "owed (c, ks, ts) (stat (addDropped kind) w) = owed (c, ks, ts) w" if "TrimSpace kind = []"
    using that by (intro owed_cong) (simp_all add: addDropped_def)
  ultimately show "owed (c, ks, ts) (stat (addDropped kind) w) = 0"
    using owed_dropped [of c ks kind ts w] ledger_wf [OF l] balancedD [OF assms(1) l] by auto
qed

lemma balanced_capped:
  assumes "balanced w" "raises f kind'" "TrimSpace kind \<noteq> []"
    and "list_all (\<lambda>(c, ks, ts). kind \<in> set ks \<longleftrightarrow> kind' \<in> set ks) ledger"
  shows "balanced (stat (addDropped kind) (stat f w))"
proof (rule balancedI)
  fix c ks ts
  assume l: "(c, ks, ts) \<in> set ledger"
  have "kind \<in> set ks \<longleftrightarrow> kind' \<in> set ks"
    using assms(4) l by (auto simp: list_all_iff)
  then show "owed (c, ks, ts) (stat (addDropped kind) (stat f w)) = 0"
    using owed_dropped [OF _ _ assms(3), of c ks ts "stat f w"] ledger_wf [OF l] raised [OF assms(2) l, of w]
      balancedD [OF assms(1) l] by simp
qed

lemma raises_op [simp]:
  "raises addExec ''exec_jsonl''" "raises addProcFork ''proc_fork_jsonl''" "raises addFS ''fs_jsonl''"
  "raises addKTLS ''ktls_jsonl''" "raises (addTCPState x y) ''tcp_state_jsonl''"
  "raises addQUICCandidate ''quic_candidate_jsonl''" "raises addIoUringSend ''io_uring_jsonl''"
  "raises (addEgressBackstop d) ''egress_backstop_jsonl''" "raises addBpfSelfDefense ''bpf_self_defense_jsonl''"
  "raises addBPFAudit ''bpf_audit_jsonl''" "raises addIPv6Event ''ipv6_obs_jsonl''"
  "raises (addTCPResult d) ''tcp_result_jsonl''" "raises (addIoUringTLSSNI d) ''io_uring_tls_jsonl''"
  by (simp_all add: raises_def ledger_def stat_ops Let_def)

lemma raises_classified [simp]:
  "raises (\<lambda>s. incDomainCount d (addTCP cl s)) ''tcp_jsonl''" "raises (\<lambda>s. incDomainCount d (addUDP cl s)) ''udp_jsonl''"
  "raises (\<lambda>s. addQUICObserved (incDomainCount d (addUDP cl s))) ''udp_jsonl''"
  "raises (\<lambda>s. incDomainCount d (addHTTP cl s)) ''http_jsonl''"
  by (simp_all add: raises_def ledger_def stat_ops)

lemma raises_TLS [simp]: "raises (\<lambda>s. incDomainCount d (addTLS cl conf over s)) ''tls_jsonl''"
  by (cases conf) (simp_all add: raises_def ledger_def stat_ops Let_def)

lemma listed_type [simp]:
  "listed ''exec'' ''exec_jsonl''" "listed ''proc_fork'' ''proc_fork_jsonl''" "listed ''fs_event'' ''fs_jsonl''"
  "listed ''tcp'' ''tcp_jsonl''" "listed ''udp'' ''udp_jsonl''" "listed ''http'' ''http_jsonl''" "listed ''tls'' ''tls_jsonl''"
  "listed ''ktls_offload'' ''ktls_jsonl''" "listed ''tcp_state'' ''tcp_state_jsonl''"
  "listed ''quic_candidate'' ''quic_candidate_jsonl''" "listed ''io_uring_send'' ''io_uring_jsonl''"
  "listed ''egress_backstop'' ''egress_backstop_jsonl''" "listed ''bpf_self_defense'' ''bpf_self_defense_jsonl''"
  "listed ''bpf_audit'' ''bpf_audit_jsonl''" "listed (ipv6ObsHookName h) ''ipv6_obs_jsonl''"
  "listed ''tcp_result'' ''tcp_result_jsonl''" "listed ''io_uring_tls'' ''io_uring_tls_jsonl''"
  by (simp_all add: listed_def ledger_def ipv6ObsHookName_def)

lemma no_excuse [simp]:
  "\<not> excuses ''exec_decode''" "\<not> excuses ''proc_fork_decode''" "\<not> excuses ''fs_decode''" "\<not> excuses ''tcp_result_decode''"
  "\<not> excuses ''tcp_decode''" "\<not> excuses ''tls_decode''" "\<not> excuses ''tls_sni_parse''" "\<not> excuses ''ktls_decode''"
  "\<not> excuses ''udp_decode''" "\<not> excuses ''http_decode''" "\<not> excuses ''http_prefix_parse''" "\<not> excuses ''dns_decode''"
  "\<not> excuses ''dns_decode_tcp_short''" "\<not> excuses ''tcp_state_decode''" "\<not> excuses ''io_uring_decode''"
  "\<not> excuses ''bpf_audit_decode''" "\<not> excuses ''ipv6_obs_decode''"
  by (simp_all add: excuses_def ledger_def)

lemma stat_stat: "stat g (stat f w) = stat (\<lambda>s. g (f s)) w"
  by (simp add: stat_def)

lemma balanced_update [simp]:
  "balanced (w\<lparr>o_fsCount := n\<rparr>) = balanced w" "balanced (w\<lparr>o_ktls := t\<rparr>) = balanced w" "balanced (w\<lparr>o_dns := d\<rparr>) = balanced w"
  "balanced (w\<lparr>o_canary := x\<rparr>) = balanced w"
  by (rule balanced_cong; simp)+

lemma balanced_TLSRing: "ae_EventsLogPath a \<noteq> [] \<Longrightarrow> balanced w \<Longrightarrow> balanced (readTLSRing a ck raw w)"
proof -
  assume log: "ae_EventsLogPath a \<noteq> []" and b: "balanced w"
  have "balanced w1" if "hello_name a ck tgid daddr daddr6 isIPv6 port rawPay w = (r, w1)"
    for tgid daddr daddr6 isIPv6 port rawPay r w1
    using b hello_name_sel [OF that] balanced_cong [of w1 w] by simp
  then show ?thesis
    using log b by (auto simp: readTLSRing_def Let_def stat_stat intro!: balanced_emit balanced_dropped split: option.split prod.split)
qed

lemma balanced_FSRing:
  assumes "ae_EventsLogPath a \<noteq> []" "balanced w"
  shows "balanced (readFSRing a ck raw w)"
proof (cases "decodeFS raw")
  case None
  then show ?thesis
    using assms(2) by (simp add: readFSRing_def balanced_dropped)
next
  case (Some e)
  have "balanced (stat (addDropped ''fs_cap'') (stat addFS (w\<lparr>o_fsCount := n\<rparr>)))" for n
    using assms(2) by (intro balanced_capped [where kind' = "''fs_jsonl''"]) (simp_all add: ledger_def)
  then show ?thesis
    using assms Some by (cases e) (auto simp: readFSRing_def Let_def intro!: balanced_emit)
qed

lemma balanced_UDPRing: "ae_EventsLogPath a \<noteq> [] \<Longrightarrow> balanced w \<Longrightarrow> balanced (readUDPRing a ck raw w)"
  by (auto simp: readUDPRing_def Let_def stat_stat intro!: balanced_emit balanced_dropped split: option.split prod.split)

lemma stat_ktls: "stat f w\<lparr>o_ktls := t\<rparr> = stat f (w\<lparr>o_ktls := t\<rparr>)"
  by (simp add: stat_def)

lemma tcp_state_dst:
  "decodeTCPStateEvent raw = Some (ts, pid, saddr, daddr, sport, dport, x, y, comm) \<Longrightarrow> To4 daddr \<noteq> None"
  by (auto simp: decodeTCPStateEvent_def To4_def split: if_splits)

lemma balanced_record: "ae_EventsLogPath a \<noteq> [] \<Longrightarrow> balanced w \<Longrightarrow> balanced (on_record a r ck raw w)"
  by (cases r) (simp_all add: balanced_TLSRing balanced_FSRing balanced_UDPRing,
    auto simp: readers Let_def stat_stat stat_ktls from_raw_type dest: tcp_state_dst intro!: balanced_emit balanced_dropped
      split: option.split prod.split connectRingRecordKind.split)

lemma balanced_new: "balanced (new_observer dns)"
  by (simp add: balanced_def ledger_def owed.simps new_observer_def newRunStats_def count_of_def)

section \<open>Properties\<close>

definition demo_agent_env :: "(bytes \<times> bytes) list agent_env" where
  "demo_agent_env = \<lparr>ae_EventsLogPath = ''log'', ae_append = (\<lambda>e. True), ae_pol = None, ae_ul = id, ae_ops = list_map id, ae_iterE = id,
     ae_iterA = id, ae_iterS = id, ae_iterB = id, ae_exeSHA = (\<lambda>s. []), ae_redact = id\<rparr>"

definition demo_clock :: clock where
  "demo_clock = \<lparr>ck_recv = 0, ck_now = 0, ck_ts = ''t'', ck_reasm = (0, 0, 0)\<rparr>"




text \<open>C14. With an event log, no counted event disappears: for every kind of event, the counter is the number of
  lines of its type plus the losses counted under its name (a failed append or the cap on file events).\<close>

theorem no_silent_loss:
  assumes "ae_EventsLogPath a \<noteq> []"
  shows "balanced (observe a rs (new_observer dns))"
  by (rule observe_invariant [where I = balanced]) (rule balanced_record [OF assms], assumption, rule balanced_new)

theorem no_silent_loss_witness:
  "balanced (observe demo_agent_env [(ForkRing, demo_clock, replicate 48 1), (ExecRing, demo_clock, [])] (new_observer None))"
  by (rule no_silent_loss) (simp add: demo_agent_env_def)

text \<open>C17. The counters of a run add up after any interleaving of records: the TLS events are the sum of their
  confidence tiers, the policy counts the sum of the classified events, the confirmed and refused handshakes at most
  all of them, and the two QUIC counters agree.\<close>

theorem counters_add_up: "accounted (o_stats (observe a rs (new_observer dns)))"
  by (rule observe_invariant [where I = "\<lambda>w. accounted (o_stats w)"])
    (simp_all add: accounted_record accounted_new new_observer_def)

end
