(* ===== verification/Digest.thy ===== *)
theory Digest
  imports DefendState
begin

text \<open>
  What the agent derives from its state at shutdown (\<^verbatim>\<open>internal/agent/agent_linux_digest.go\<close>): the map of lost events,
  the error a run ends with, the coverage report and the labels of the digest.
\<close>

section \<open>Lost events\<close>

definition add_loss :: "string \<Rightarrow> int \<Rightarrow> (string \<times> 64 word) list \<Rightarrow> (string \<times> 64 word) list" where
  "add_loss k v m = (if 0 < v then AList.update k (of_int v) m else m)"

definition buildDroppedEventsMap :: "runStats \<Rightarrow> defendState option \<Rightarrow> (string \<times> 64 word) list option" where
  "buildDroppedEventsMap stats ds =
     (let m = fold (\<lambda>(k, v). add_loss k v)
        [(''connect'', connectRingbufReserveFailures stats), (''udp'', udpRingbufReserveFailures stats),
         (''dns'', dnsRingbufReserveFailures stats), (''http'', httpRingbufReserveFailures stats),
         (''tls'', tlsRingbufReserveFailures stats), (''exec'', execRingbufReserveFailures stats),
         (''fork'', forkRingbufReserveFailures stats), (''fs'', fsRingbufReserveFailures stats),
         (''ktls'', ktlsRingbufReserveFailures stats), (''bpf_audit'', bpfAuditRingbufReserveFailures stats),
         (''tcp_state'', tcpStateRingbufReserveFailures stats), (''io_uring'', ioUringRingbufReserveFailures stats),
         (''io_uring_tls'', ioUringTLSRingbufReserveFailures stats),
         (''egress_backstop'', egressBackstopReserveFailures stats),
         (''bpf_self_defense'', bpfSelfDefenseReserveFailures stats)] [];
       m' = (case ds of None \<Rightarrow> m | Some s \<Rightarrow> add_loss ''deny'' (sn_denyReserveFailures (snapshot s)) m) in
     if m' = [] then None else Some m')"

section \<open>The error of a run\<close>

text \<open>An error as far as it is asked about: does it wrap the cancellation of the context, is it a deny.\<close>

record run_error =
  re_canceled :: bool
  re_deny :: bool
  re_text :: string

definition preferRunError :: "run_error option \<Rightarrow> run_error option \<Rightarrow> run_error option" where
  "preferRunError current candidate = (case candidate of None \<Rightarrow> current
     | Some e \<Rightarrow> if re_canceled e then current
       else (case current of None \<Rightarrow> candidate
         | Some c \<Rightarrow> if re_deny e \<and> \<not> re_deny c then candidate else current))"

section \<open>Details and capabilities\<close>

definition runeStart :: "char \<Rightarrow> bool" where
  "runeStart c \<longleftrightarrow> \<not> (0x80 \<le> (of_char c :: nat) \<and> (of_char c :: nat) < 0xC0)"

fun back_to_start :: "string \<Rightarrow> nat \<Rightarrow> nat" where
  "back_to_start s 0 = 0"
| "back_to_start s (Suc n) = (if runeStart (s ! Suc n) then Suc n else back_to_start s n)"

definition truncateUTF8ToMaxBytes :: "string \<Rightarrow> int \<Rightarrow> string" where
  "truncateUTF8ToMaxBytes s n = (if n \<le> 0 then [] else if int (length s) \<le> n then s
     else take (back_to_start s (nat n)) s)"

definition bpfDetail :: "string option \<Rightarrow> string" where
  "bpfDetail err = (case err of None \<Rightarrow> []
     | Some s \<Rightarrow> if length s \<le> 180 then s else truncateUTF8ToMaxBytes s 180 @ [CHR 0xE2, CHR 0x80, CHR 0xA6])"

fun hookDegraded :: "BPFStatus list \<Rightarrow> string \<Rightarrow> bool" where
  "hookDegraded [] hookName = True"
| "hookDegraded (row # rows) hookName = (if bs_Name row = hookName then \<not> bs_OK row else hookDegraded rows hookName)"

definition capabilityEnabled :: "bool \<Rightarrow> BPFStatus list \<Rightarrow> string \<Rightarrow> bool" where
  "capabilityEnabled gate bpf hookName \<longleftrightarrow> gate \<and> \<not> hookDegraded bpf hookName"

record CoverageReport =
  cr_IPv4TCP :: bool
  cr_IPv4UDPSendmsg :: bool
  cr_IPv6 :: string
  cr_QUICHTTP3 :: bool
  cr_QuicObserved :: "64 word"
  cr_TLSSNI :: string
  cr_IoUring :: bool

definition buildCoverageReport :: "BPFStatus list \<Rightarrow> bool \<Rightarrow> bool \<Rightarrow> bool \<Rightarrow> 64 word \<Rightarrow> CoverageReport" where
  "buildCoverageReport bpf tlsSNIGate ioUringAttached ipv6Enforced quicObserved =
     \<lparr>cr_IPv4TCP = True, cr_IPv4UDPSendmsg = True, cr_IPv6 = (if ipv6Enforced then ''enforce'' else ''off''),
      cr_QUICHTTP3 = False, cr_QuicObserved = quicObserved,
      cr_TLSSNI = (if capabilityEnabled tlsSNIGate bpf ''raw_tp/sys_enter (connect, sendto, http sniff, tls)'' then ''full'' else ''none''),
      cr_IoUring = ioUringAttached\<rparr>"

definition digestDefendLabel :: "bool \<Rightarrow> defendSnapshot \<Rightarrow> string" where
  "digestDefendLabel modeDefend snap = (if \<not> modeDefend then sn_mode snap
     else if TrimSpace (sn_mode snap) \<noteq> [] then sn_mode snap else ''defend'')"

section \<open>Facts\<close>

lemma map_of_add_loss:
  "map_of (add_loss k v m) j = (if j = k \<and> 0 < v then Some (of_int v) else map_of m j)"
  by (simp add: add_loss_def update_conv')

lemma add_loss_Nil: "add_loss k v m = [] \<longleftrightarrow> m = [] \<and> v \<le> 0"
  by (cases m) (auto simp: add_loss_def)

text \<open>Losses on the ring of the IPv6 observer are counted and appear in the summary, but not in the map.\<close>

lemma ipv6_losses_hidden:
  "buildDroppedEventsMap (setIPv6RingbufReserveFailures n newRunStats) (Some newDefendState) = None"
  by (simp add: buildDroppedEventsMap_def setIPv6RingbufReserveFailures_def newRunStats_def newDefendState_def snapshot_def
      add_loss_def connectRingbufReserveFailures_def udpRingbufReserveFailures_def dnsRingbufReserveFailures_def
      httpRingbufReserveFailures_def tlsRingbufReserveFailures_def execRingbufReserveFailures_def
      forkRingbufReserveFailures_def fsRingbufReserveFailures_def ktlsRingbufReserveFailures_def
      bpfAuditRingbufReserveFailures_def tcpStateRingbufReserveFailures_def ioUringRingbufReserveFailures_def
      ioUringTLSRingbufReserveFailures_def egressBackstopReserveFailures_def bpfSelfDefenseReserveFailures_def)

text \<open>The total of the summary leaves out the rings of kernel TLS, TCP states, io_uring and the IPv6 observer.\<close>

lemma total_leaves_out_rings:
  "S_RingbufReserveFailuresTotal (snapshotSummary r b
     (setKTLSRingbufReserveFailures n (setTCPStateRingbufReserveFailures n (setIoUringRingbufReserveFailures n
       (setIPv6RingbufReserveFailures n newRunStats))))) = 0"
  by (simp add: snapshotSummary_def SumRingbufReserveFailuresDetectPath_def newRunStats_def setKTLSRingbufReserveFailures_def
      setTCPStateRingbufReserveFailures_def setIoUringRingbufReserveFailures_def setIPv6RingbufReserveFailures_def)

text \<open>The errors that count, and the one a run should end with: the first deny, or else the first error.\<close>

fun failures :: "run_error option list \<Rightarrow> run_error list" where
  "failures [] = []"
| "failures (None # es) = failures es"
| "failures (Some e # es) = (if re_canceled e then failures es else e # failures es)"

definition decisive :: "run_error list \<Rightarrow> run_error option" where
  "decisive es = (case filter re_deny es of e # _ \<Rightarrow> Some e
     | [] \<Rightarrow> (case es of e # _ \<Rightarrow> Some e | [] \<Rightarrow> None))"

lemma prefer_step: "\<not> re_canceled e \<Longrightarrow> preferRunError (decisive xs) (Some e) = decisive (xs @ [e])"
proof (cases "filter re_deny xs")
  case Nil
  moreover assume "\<not> re_canceled e"
  moreover have "\<not> re_deny x" if "x \<in> set xs" for x
    using Nil that by (auto simp: filter_empty_conv)
  ultimately show ?thesis
    by (cases xs) (auto simp: preferRunError_def decisive_def)
next
  case (Cons d ds)
  moreover from Cons have "re_deny d"
    by (auto simp: filter_eq_Cons_iff)
  moreover assume "\<not> re_canceled e"
  ultimately show ?thesis
    by (simp add: preferRunError_def decisive_def)
qed

lemma prefer_fold: "foldl preferRunError (decisive xs) es = decisive (xs @ failures es)"
proof (induction es arbitrary: xs rule: failures.induct)
  case (2 es)
  then show ?case
    by (simp add: preferRunError_def)
next
  case (3 e es)
  show ?case
    using 3 prefer_step [of e xs] by (simp add: preferRunError_def)
qed simp

lemma back_to_start_le: "back_to_start s n \<le> n"
  by (induction s n rule: back_to_start.induct) auto

lemma back_to_start_at: "back_to_start s n = 0 \<or> runeStart (s ! back_to_start s n)"
  by (induction s n rule: back_to_start.induct) auto

section \<open>Properties\<close>

text \<open>A run that collects the results of its readers ends with the first deny among them, or else with their
  first error; cancellations never count.\<close>

theorem run_error_decisive: "foldl preferRunError None es = decisive (failures es)"
  using prefer_fold [of "[]" es] by (simp add: decisive_def)

end
