(* ===== verification/Loader.thy ===== *)
theory Loader
  imports GoText "HOL-Library.AList"
begin

text \<open>
  Loading of the defend collection (\<^verbatim>\<open>internal/bpf/defend/loader.go\<close>).

  A collection specification is the set of program and map names of the embedded object file; its
  contents do not matter here. The object file itself is generated and the kernel decides whether a
  specification loads, so both are arguments: \<open>embedded\<close> is what \<^verbatim>\<open>LoadDefend\<close> returns and
  \<open>newColl k\<close> the answer of the \<open>k\<close>-th call of \<^verbatim>\<open>ebpf.NewCollectionWithOptions\<close>. A loaded
  collection maps names to handles of an arbitrary type. The struct \<^verbatim>\<open>DefendObjects\<close> is modelled by
  the map from the names of its fields, as they are spelled in the object file, to the handles they hold.
\<close>

section \<open>Specifications, collections, errors\<close>

record load_error_info =
  le_text :: string
  le_notFound :: bool
  le_verifier :: bool

datatype loader_error = LoadError load_error_info | MissingProgram string | MissingMap string

record spec =
  sp_programs :: "string list"
  sp_maps :: "string list"

record 'h coll =
  c_programs :: "(string \<times> 'h) list"
  c_maps :: "(string \<times> 'h) list"

record 'h DefendObjects =
  do_programs :: "(string \<times> 'h) list"
  do_maps :: "(string \<times> 'h) list"

record LoadResult =
  LSMFellBack :: bool
  LSMFallbackErr :: "load_error_info option"

definition isSendpageLoadFailure :: "load_error_info \<Rightarrow> bool" where
  "isSendpageLoadFailure e \<longleftrightarrow>
     (ContainsStr (le_text e) ''lsm_socket_sendpage'' \<or> ContainsStr (le_text e) ''socket_sendpage'') \<and>
     (le_notFound e \<or> le_verifier e)"

section \<open>Stripping programs the kernel cannot host\<close>

definition strip :: "string list \<Rightarrow> string list \<Rightarrow> spec \<Rightarrow> spec" where
  "strip ps ms s = s\<lparr>sp_programs := filter (\<lambda>p. p \<notin> set ps) (sp_programs s),
     sp_maps := filter (\<lambda>m. m \<notin> set ms) (sp_maps s)\<rparr>"

definition lsm_programs :: "string list" where
  "lsm_programs = [''lsm_socket_connect'', ''lsm_socket_sendmsg'', ''lsm_socket_sendpage'',
     ''lsm_io_uring_cmd'', ''coldstep_bpf_self_defense'']"

definition lsm_maps :: "string list" where
  "lsm_maps = [''lsm_deny_events'', ''lsm_deny_reserve_failures'', ''lsm_defend_cfg'', ''lsm_allowed_ipv4'',
     ''lsm_ignored_ipv4_lpm'', ''sendpage_observed'', ''self_prog_ids'', ''self_map_ids'', ''self_link_ids'',
     ''self_pin_prefix'', ''self_defense_cfg'', ''bpf_self_defense_events'',
     ''bpf_self_defense_reserve_failures'', ''self_defense_seen'']"

definition stripAllLSM :: "spec \<Rightarrow> spec" where
  "stripAllLSM s = strip lsm_programs lsm_maps s"

definition strip_sendpage :: "spec \<Rightarrow> spec" where
  "strip_sendpage s = strip [''lsm_socket_sendpage''] [''sendpage_observed''] s"

definition first_spec :: "bool \<Rightarrow> bool \<Rightarrow> bool \<Rightarrow> spec \<Rightarrow> spec" where
  "first_spec wantLSM wantIOUringLSM sendpageHook s =
     (if \<not> wantLSM then stripAllLSM s
      else let s1 = (if \<not> sendpageHook then strip_sendpage s else s) in
        if \<not> wantIOUringLSM then strip [''lsm_io_uring_cmd''] [] s1 else s1)"

section \<open>Loading with the fallbacks\<close>

definition no_fallback :: LoadResult where
  "no_fallback = \<lparr>LSMFellBack = False, LSMFallbackErr = None\<rparr>"

text \<open>The first attempt and, when it fails with LSM programs in the specification, the one retry: without the
  sendpage hook when the error names it, without the whole LSM section otherwise.\<close>

definition load_collection :: "load_error_info + spec \<Rightarrow> (nat \<Rightarrow> spec \<Rightarrow> load_error_info + 'h coll) \<Rightarrow>
    bool \<Rightarrow> bool \<Rightarrow> bool \<Rightarrow> load_error_info + 'h coll \<times> LoadResult" where
  "load_collection embedded newColl wantLSM wantIOUringLSM sendpageHook = (case embedded of Inl e \<Rightarrow> Inl e
     | Inr s \<Rightarrow> (case newColl 0 (first_spec wantLSM wantIOUringLSM sendpageHook s) of
         Inr c \<Rightarrow> Inr (c, no_fallback)
       | Inl e \<Rightarrow>
           if wantLSM \<and> isSendpageLoadFailure e then
             (case newColl 1 (strip_sendpage s) of Inl e' \<Rightarrow> Inl e' | Inr c \<Rightarrow> Inr (c, no_fallback))
           else if wantLSM then
             (case newColl 1 (stripAllLSM s) of Inl e' \<Rightarrow> Inl e'
              | Inr c \<Rightarrow> Inr (c, \<lparr>LSMFellBack = True, LSMFallbackErr = Some e\<rparr>))
           else Inl e))"

section \<open>Moving handles out of the collection\<close>

definition detachProgram :: "string \<Rightarrow> 'h coll \<times> 'h DefendObjects \<Rightarrow>
    loader_error option \<times> 'h coll \<times> 'h DefendObjects" where
  "detachProgram name st = (case map_of (c_programs (fst st)) name of None \<Rightarrow> (Some (MissingProgram name), st)
     | Some p \<Rightarrow> (None, (fst st)\<lparr>c_programs := AList.delete name (c_programs (fst st))\<rparr>,
         (snd st)\<lparr>do_programs := AList.update name p (do_programs (snd st))\<rparr>))"

definition detachMap :: "string \<Rightarrow> 'h coll \<times> 'h DefendObjects \<Rightarrow>
    loader_error option \<times> 'h coll \<times> 'h DefendObjects" where
  "detachMap name st = (case map_of (c_maps (fst st)) name of None \<Rightarrow> (Some (MissingMap name), st)
     | Some m \<Rightarrow> (None, (fst st)\<lparr>c_maps := AList.delete name (c_maps (fst st))\<rparr>,
         (snd st)\<lparr>do_maps := AList.update name m (do_maps (snd st))\<rparr>))"

definition detachProgramIfPresent :: "string \<Rightarrow> 'h coll \<times> 'h DefendObjects \<Rightarrow> 'h coll \<times> 'h DefendObjects" where
  "detachProgramIfPresent name st = snd (detachProgram name st)"

definition detachMapIfPresent :: "string \<Rightarrow> 'h coll \<times> 'h DefendObjects \<Rightarrow> 'h coll \<times> 'h DefendObjects" where
  "detachMapIfPresent name st = snd (detachMap name st)"

text \<open>A loop over a table of required names: the first error ends it.\<close>

fun each_name :: "(string \<Rightarrow> 's \<Rightarrow> 'e option \<times> 's) \<Rightarrow> string list \<Rightarrow> 's \<Rightarrow> 'e option \<times> 's" where
  "each_name f [] st = (None, st)"
| "each_name f (n # ns) st = (case f n st of (Some e, st') \<Rightarrow> (Some e, st') | (None, st') \<Rightarrow> each_name f ns st')"

definition andThen :: "'e option \<times> 's \<Rightarrow> ('s \<Rightarrow> 'e option \<times> 's) \<Rightarrow> 'e option \<times> 's" where
  "andThen r k = (case r of (Some e, st) \<Rightarrow> (Some e, st) | (None, st) \<Rightarrow> k st)"

definition cgPrograms :: "string list" where
  "cgPrograms = [''defend_connect4'', ''defend_sendmsg4'']"

definition cgIPv6Programs :: "string list" where
  "cgIPv6Programs = [''defend_cgroup_connect6'', ''defend_cgroup_sendmsg6'']"

definition cgAndSharedMaps :: "string list" where
  "cgAndSharedMaps = [''deny_events'', ''deny_reserve_failures'', ''defend_cfg'', ''allowed_ipv4'',
     ''ignored_ipv4_lpm'', ''allowed_domains'', ''dns_cache'']"

definition cgIPv6Maps :: "string list" where
  "cgIPv6Maps = [''ipv6_connect_observed'', ''ipv6_sendmsg_observed'']"

definition lsmPrograms :: "string list" where
  "lsmPrograms = [''lsm_socket_connect'', ''lsm_socket_sendmsg'']"

definition lsmMaps :: "string list" where
  "lsmMaps = [''lsm_deny_events'', ''lsm_deny_reserve_failures'', ''lsm_defend_cfg'', ''lsm_allowed_ipv4'',
     ''lsm_ignored_ipv4_lpm'']"

definition selfDefenseMaps :: "string list" where
  "selfDefenseMaps = [''self_prog_ids'', ''self_map_ids'', ''self_link_ids'', ''self_pin_prefix'',
     ''self_defense_cfg'', ''bpf_self_defense_events'', ''bpf_self_defense_reserve_failures'', ''self_defense_seen'']"

definition detach_cgroup :: "'h coll \<times> 'h DefendObjects \<Rightarrow> loader_error option \<times> 'h coll \<times> 'h DefendObjects" where
  "detach_cgroup st = andThen (andThen (andThen (andThen (andThen (each_name detachProgram cgPrograms st)
       (each_name detachProgram cgIPv6Programs)) (each_name detachMap cgAndSharedMaps)) (each_name detachMap cgIPv6Maps))
       (detachMap ''allowed_ipv6''))
       (\<lambda>st. (None, fold detachMapIfPresent [''skb_backstop_events'', ''skb_backstop_reserve_failures'', ''skb_backstop_seen'']
          (detachProgramIfPresent ''defend_skb_egress'' st)))"

definition detach_lsm :: "bool \<Rightarrow> 'h coll \<times> 'h DefendObjects \<Rightarrow> loader_error option \<times> 'h coll \<times> 'h DefendObjects" where
  "detach_lsm wantIOUringLSM st = andThen (andThen (andThen (each_name detachProgram lsmPrograms st)
       (\<lambda>st. if wantIOUringLSM then detachProgram ''lsm_io_uring_cmd'' st else (None, st)))
       (each_name detachMap lsmMaps))
       (\<lambda>st. (None, fold detachMapIfPresent selfDefenseMaps (detachProgramIfPresent ''coldstep_bpf_self_defense''
          (detachMapIfPresent ''sendpage_observed'' (detachProgramIfPresent ''lsm_socket_sendpage'' st)))))"

text \<open>The handles the collection still holds, which \<^verbatim>\<open>coll.Close\<close> releases when the function fails.\<close>

definition coll_handles :: "'h coll \<Rightarrow> 'h list" where
  "coll_handles c = map snd (c_programs c) @ map snd (c_maps c)"

definition obj_handles :: "'h DefendObjects \<Rightarrow> 'h list" where
  "obj_handles ob = map snd (do_programs ob) @ map snd (do_maps ob)"

text \<open>The result, the object struct afterwards, and the handles closed on the way out.\<close>

definition LoadDefendObjectsForKernel :: "load_error_info + spec \<Rightarrow> (nat \<Rightarrow> spec \<Rightarrow> load_error_info + 'h coll) \<Rightarrow>
    bool \<Rightarrow> bool \<Rightarrow> bool \<Rightarrow> 'h DefendObjects \<Rightarrow> (loader_error + LoadResult) \<times> 'h DefendObjects \<times> 'h list" where
  "LoadDefendObjectsForKernel embedded newColl sendpageHook wantLSM wantIOUringLSM obj =
     (case load_collection embedded newColl wantLSM wantIOUringLSM sendpageHook of
        Inl e \<Rightarrow> (Inl (LoadError e), obj, [])
      | Inr (c, r) \<Rightarrow>
        (case andThen (detach_cgroup (c, obj))
            (\<lambda>st. if wantLSM \<and> \<not> LSMFellBack r then detach_lsm wantIOUringLSM st else (None, st)) of
           (Some e, c', obj') \<Rightarrow> (Inl e, obj', coll_handles c')
         | (None, c', obj') \<Rightarrow> (Inr r, obj', [])))"

section \<open>What a successful load provides\<close>

lemma andThen_None: "andThen r k = (None, st) \<longleftrightarrow> (\<exists>st'. r = (None, st') \<and> k st' = (None, st))"
  by (auto simp: andThen_def split: prod.splits option.splits)

lemma andThen_cases:
  "andThen r k = (e, st) \<Longrightarrow> (r = (e, st) \<and> e \<noteq> None) \<or> (\<exists>st'. r = (None, st') \<and> k st' = (e, st))"
  by (auto simp: andThen_def split: prod.splits option.splits)

text \<open>Every step only moves handles: the struct keeps what it has, nothing is lost, and the tables stay maps.\<close>

definition shifted :: "(string \<times> 'h) list \<Rightarrow> (string \<times> 'h) list \<Rightarrow> (string \<times> 'h) list \<Rightarrow> (string \<times> 'h) list \<Rightarrow> bool" where
  "shifted m d m' d' \<longleftrightarrow> fst ` set d \<subseteq> fst ` set d' \<and> set d' \<union> set m' = set d \<union> set m"

definition disjoint_tables :: "(string \<times> 'h) list \<Rightarrow> (string \<times> 'h) list \<Rightarrow> bool" where
  "disjoint_tables m d \<longleftrightarrow> wf_map m \<and> fst ` set m \<inter> fst ` set d = {}"

definition moves :: "'h coll \<times> 'h DefendObjects \<Rightarrow> 'h coll \<times> 'h DefendObjects \<Rightarrow> bool" where
  "moves st st' \<longleftrightarrow>
     shifted (c_programs (fst st)) (do_programs (snd st)) (c_programs (fst st')) (do_programs (snd st')) \<and>
     shifted (c_maps (fst st)) (do_maps (snd st)) (c_maps (fst st')) (do_maps (snd st'))"

definition apart :: "'h coll \<times> 'h DefendObjects \<Rightarrow> bool" where
  "apart st \<longleftrightarrow> disjoint_tables (c_programs (fst st)) (do_programs (snd st)) \<and>
     disjoint_tables (c_maps (fst st)) (do_maps (snd st))"

lemma shifted_refl [simp]: "shifted m d m d"
  by (simp add: shifted_def)

lemma moves_refl [simp]: "moves st st"
  by (simp add: moves_def)

lemma moves_trans: "moves a b \<Longrightarrow> moves b c \<Longrightarrow> moves a c"
  by (simp add: moves_def shifted_def) (meson subset_trans)

lemma update_new: "k \<notin> fst ` set m \<Longrightarrow> set (AList.update k v m) = insert (k, v) (set m)"
  by (induction m) auto

lemma delete_found: "wf_map m \<Longrightarrow> map_of m k = Some v \<Longrightarrow> insert (k, v) (set (AList.delete k m)) = set m"
  by (auto simp: set_alist_delete dest: map_of_SomeD) (metis map_of_is_SomeI option.inject)

lemma shift_entry:
  assumes "disjoint_tables m d" "map_of m n = Some p"
  shows "shifted m d (AList.delete n m) (AList.update n p d)"
    and "disjoint_tables (AList.delete n m) (AList.update n p d)"
proof -
  have wf: "wf_map m" and dis: "fst ` set m \<inter> fst ` set d = {}"
    using assms(1) by (auto simp: disjoint_tables_def)
  have "n \<in> fst ` set m"
    using assms(2) by (metis fst_conv image_eqI map_of_SomeD)
  then have n: "n \<notin> fst ` set d"
    using dis by auto
  show "shifted m d (AList.delete n m) (AList.update n p d)"
    using delete_found [OF wf assms(2)] by (auto simp: shifted_def update_new [OF n])
  have "(fst ` set m - {n}) \<inter> insert n (fst ` set d) = {}"
    using dis by auto
  then show "disjoint_tables (AList.delete n m) (AList.update n p d)"
    using wf_map_delete [OF wf] by (simp add: disjoint_tables_def)
qed

lemma detachProgram_moves:
  assumes "apart st"
  shows "moves st (snd (detachProgram n st)) \<and> apart (snd (detachProgram n st))"
  using assms shift_entry [of "c_programs (fst st)" "do_programs (snd st)" n]
  by (cases "map_of (c_programs (fst st)) n") (simp_all add: detachProgram_def moves_def apart_def)

lemma detachMap_moves:
  assumes "apart st"
  shows "moves st (snd (detachMap n st)) \<and> apart (snd (detachMap n st))"
  using assms shift_entry [of "c_maps (fst st)" "do_maps (snd st)" n]
  by (cases "map_of (c_maps (fst st)) n") (simp_all add: detachMap_def moves_def apart_def)

text \<open>The contract the two kinds of detaching share: a step only moves handles, and when it reports no error the
  struct holds the name. \<open>names\<close> are the names the struct holds, of programs or of maps.\<close>

locale detaching =
  fixes detach :: "string \<Rightarrow> 'h coll \<times> 'h DefendObjects \<Rightarrow> loader_error option \<times> 'h coll \<times> 'h DefendObjects"
    and names :: "'h DefendObjects \<Rightarrow> string set"
  assumes step_moves: "apart st \<Longrightarrow> moves st (snd (detach n st)) \<and> apart (snd (detach n st))"
    and step_found: "detach n st = (None, st') \<Longrightarrow> n \<in> names (snd st')"
    and names_grow: "moves st st' \<Longrightarrow> names (snd st) \<subseteq> names (snd st')"
begin

lemma each_moves: "apart st \<Longrightarrow> moves st (snd (each_name detach ns st)) \<and> apart (snd (each_name detach ns st))"
proof (induction ns arbitrary: st)
  case (Cons n ns)
  obtain e st' where d: "detach n st = (e, st')"
    by (cases "detach n st")
  then have "moves st st'" "apart st'"
    using step_moves [OF Cons.prems, of n] by simp_all
  then show ?case
    using Cons.IH [of st'] by (cases e) (simp_all add: d, blast intro: moves_trans)
qed simp

lemma each_found: "apart st \<Longrightarrow> each_name detach ns st = (None, st') \<Longrightarrow> set ns \<subseteq> names (snd st')"
proof (induction ns arbitrary: st)
  case (Cons n ns)
  obtain e st1 where d: "detach n st = (e, st1)"
    by (cases "detach n st")
  with Cons.prems have e: "e = None" "each_name detach ns st1 = (None, st')"
    by (auto split: option.splits)
  have a: "apart st1"
    using step_moves [OF Cons.prems(1), of n] d by simp
  have "n \<in> names (snd st1)"
    using step_found d e by simp
  moreover have "names (snd st1) \<subseteq> names (snd st')"
    using names_grow each_moves [OF a, of ns] e by simp
  ultimately show ?case
    using Cons.IH [OF a e(2)] by auto
qed simp

lemma optional_moves: "apart st \<Longrightarrow> moves st (fold (\<lambda>n st. snd (detach n st)) ns st) \<and> apart (fold (\<lambda>n st. snd (detach n st)) ns st)"
proof (induction ns arbitrary: st)
  case (Cons n ns)
  then show ?case
    using step_moves [OF Cons.prems, of n] Cons.IH [of "snd (detach n st)"] by simp (blast intro: moves_trans)
qed simp

end

definition program_names :: "'h DefendObjects \<Rightarrow> string set" where
  "program_names ob = fst ` set (do_programs ob)"

definition map_names :: "'h DefendObjects \<Rightarrow> string set" where
  "map_names ob = fst ` set (do_maps ob)"

interpretation dprog: detaching detachProgram program_names
proof
  show "detachProgram n st = (None, st') \<Longrightarrow> n \<in> program_names (snd st')" for n st st'
    by (auto simp: detachProgram_def program_names_def split: option.splits)
  show "moves st st' \<Longrightarrow> program_names (snd st) \<subseteq> program_names (snd st')" for st st'
    by (simp add: moves_def shifted_def program_names_def)
qed (rule detachProgram_moves)

interpretation dmap: detaching detachMap map_names
proof
  show "detachMap n st = (None, st') \<Longrightarrow> n \<in> map_names (snd st')" for n st st'
    by (auto simp: detachMap_def map_names_def split: option.splits)
  show "moves st st' \<Longrightarrow> map_names (snd st) \<subseteq> map_names (snd st')" for st st'
    by (simp add: moves_def shifted_def map_names_def)
qed (rule detachMap_moves)

lemma andThen_moves:
  assumes "apart st \<Longrightarrow> moves st (snd r) \<and> apart (snd r)"
    and "\<And>st'. apart st' \<Longrightarrow> moves st' (snd (k st')) \<and> apart (snd (k st'))" "apart st"
  shows "moves st (snd (andThen r k)) \<and> apart (snd (andThen r k))"
proof -
  obtain e st' where r: "r = (e, st')"
    by (cases r)
  then have "moves st st'" "apart st'"
    using assms(1,3) by simp_all
  then show ?thesis
    using assms(2) [of st'] by (cases e) (simp_all add: r andThen_def, blast intro: moves_trans)
qed

lemma optional_map_moves: "apart st \<Longrightarrow> moves st (detachMapIfPresent n st) \<and> apart (detachMapIfPresent n st)"
  by (simp add: detachMapIfPresent_def dmap.step_moves)

lemma optional_maps_moves: "apart st \<Longrightarrow> moves st (fold detachMapIfPresent ns st) \<and> apart (fold detachMapIfPresent ns st)"
  using dmap.optional_moves [of st ns] by (simp add: detachMapIfPresent_def [abs_def])

lemma optional_program_moves: "apart st \<Longrightarrow> moves st (detachProgramIfPresent n st) \<and> apart (detachProgramIfPresent n st)"
  by (simp add: detachProgramIfPresent_def dprog.step_moves)

lemma both_trans: "moves a b \<and> apart b \<Longrightarrow> (apart b \<Longrightarrow> moves b c \<and> apart c) \<Longrightarrow> moves a c \<and> apart c"
  using moves_trans by blast

lemma detach_cgroup_moves: "apart st \<Longrightarrow> moves st (snd (detach_cgroup st)) \<and> apart (snd (detach_cgroup st))"
  unfolding detach_cgroup_def
  by (intro andThen_moves dprog.each_moves dmap.each_moves dmap.step_moves; (assumption | simp only: snd_conv)?)
    (rule both_trans [OF optional_program_moves optional_maps_moves])

lemma lsm_optional_moves:
  assumes "apart st"
  shows "moves st (fold detachMapIfPresent ms (detachProgramIfPresent q (detachMapIfPresent m (detachProgramIfPresent p st)))) \<and>
    apart (fold detachMapIfPresent ms (detachProgramIfPresent q (detachMapIfPresent m (detachProgramIfPresent p st))))"
proof -
  note a = optional_program_moves [OF assms, of p]
  note b = both_trans [OF a optional_map_moves [of _ m]]
  note c = both_trans [OF b optional_program_moves [of _ q]]
  show ?thesis
    by (rule both_trans [OF c optional_maps_moves [of _ ms]])
qed

lemma detach_lsm_moves: "apart st \<Longrightarrow> moves st (snd (detach_lsm io st)) \<and> apart (snd (detach_lsm io st))"
  unfolding detach_lsm_def
  by (intro andThen_moves dprog.each_moves dmap.each_moves) (simp_all add: dprog.step_moves lsm_optional_moves del: fold_simps)

text \<open>The names a struct must hold after loading.\<close>

definition required_programs :: "bool \<Rightarrow> bool \<Rightarrow> string set" where
  "required_programs lsm io = set cgPrograms \<union> set cgIPv6Programs \<union>
     (if lsm then set lsmPrograms \<union> (if io then {''lsm_io_uring_cmd''} else {}) else {})"

definition required_maps :: "bool \<Rightarrow> string set" where
  "required_maps lsm = set cgAndSharedMaps \<union> set cgIPv6Maps \<union> {''allowed_ipv6''} \<union> (if lsm then set lsmMaps else {})"

lemma names_mono: "moves st st' \<Longrightarrow> program_names (snd st) \<subseteq> program_names (snd st') \<and> map_names (snd st) \<subseteq> map_names (snd st')"
  using dprog.names_grow dmap.names_grow by blast

lemma detach_cgroup_found:
  assumes "apart st" "detach_cgroup st = (None, st')"
  shows "required_programs False io \<subseteq> program_names (snd st')" "required_maps False \<subseteq> map_names (snd st')"
proof -
  obtain a b c d e where s: "each_name detachProgram cgPrograms st = (None, a)" "each_name detachProgram cgIPv6Programs a = (None, b)"
      "each_name detachMap cgAndSharedMaps b = (None, c)" "each_name detachMap cgIPv6Maps c = (None, d)"
      "detachMap ''allowed_ipv6'' d = (None, e)"
    and t: "st' = fold detachMapIfPresent [''skb_backstop_events'', ''skb_backstop_reserve_failures'', ''skb_backstop_seen'']
          (detachProgramIfPresent ''defend_skb_egress'' e)"
    using assms(2) unfolding detach_cgroup_def andThen_None by blast
  have a: "apart a" and b: "moves a b" "apart b" and c: "moves b c" "apart c" and d: "moves c d" "apart d"
    and e: "moves d e" "apart e"
    using dprog.each_moves [OF assms(1)] s dprog.each_moves dmap.each_moves dmap.step_moves by (metis snd_conv)+
  have f: "moves e st'"
    unfolding t using both_trans [OF optional_program_moves [OF e(2)] optional_maps_moves] by blast
  note fe = moves_trans [OF e(1) f]
  note fd = moves_trans [OF d(1) fe]
  note fc = moves_trans [OF c(1) fd]
  note m = names_mono [OF moves_trans [OF b(1) fc]] names_mono [OF fc] names_mono [OF fd] names_mono [OF fe] names_mono [OF f]
  show "required_programs False io \<subseteq> program_names (snd st')"
    using dprog.each_found [OF assms(1) s(1)] dprog.each_found [OF a s(2)] m by (simp add: required_programs_def) blast
  show "required_maps False \<subseteq> map_names (snd st')"
    using dmap.each_found [OF b(2) s(3)] dmap.each_found [OF c(2) s(4)] dmap.step_found [OF s(5)] m
    by (simp add: required_maps_def) blast
qed

lemma detach_lsm_found:
  assumes "apart st" "detach_lsm io st = (None, st')"
  shows "set lsmPrograms \<union> (if io then {''lsm_io_uring_cmd''} else {}) \<subseteq> program_names (snd st')"
    "set lsmMaps \<subseteq> map_names (snd st')"
proof -
  obtain a b c where s: "each_name detachProgram lsmPrograms st = (None, a)"
      "(if io then detachProgram ''lsm_io_uring_cmd'' a else (None, a)) = (None, b)" "each_name detachMap lsmMaps b = (None, c)"
    and t: "st' = fold detachMapIfPresent selfDefenseMaps (detachProgramIfPresent ''coldstep_bpf_self_defense''
          (detachMapIfPresent ''sendpage_observed'' (detachProgramIfPresent ''lsm_socket_sendpage'' c)))"
    using assms(2) unfolding detach_lsm_def andThen_None by blast
  have a: "apart a"
    using dprog.each_moves [OF assms(1)] s(1) by (metis snd_conv)
  have b: "moves a b" "apart b"
    using dprog.step_moves [OF a, of "''lsm_io_uring_cmd''"] s(2) a by (auto split: if_splits)
  have c: "moves b c" "apart c"
    using dmap.each_moves [OF b(2)] s(3) by (metis snd_conv)+
  have f: "moves c st'"
    unfolding t using lsm_optional_moves [OF c(2)] by blast
  note fb = moves_trans [OF c(1) f]
  note m = names_mono [OF moves_trans [OF b(1) fb]] names_mono [OF fb] names_mono [OF f]
  show "set lsmPrograms \<union> (if io then {''lsm_io_uring_cmd''} else {}) \<subseteq> program_names (snd st')"
    using dprog.each_found [OF assms(1) s(1)] dprog.step_found [of "''lsm_io_uring_cmd''" a b] s(2) m
    by (simp split: if_splits) blast+
  show "set lsmMaps \<subseteq> map_names (snd st')"
    using dmap.each_found [OF b(2) s(3)] m by blast
qed

lemma loaded_complete:
  assumes "LoadDefendObjectsForKernel embedded newColl hook lsm io obj = (Inr r, obj', closed)"
    and coll: "\<And>k s c. newColl k s = Inr c \<Longrightarrow> apart (c, obj)"
  shows "required_programs (lsm \<and> \<not> LSMFellBack r) io \<subseteq> program_names obj'"
    "required_maps (lsm \<and> \<not> LSMFellBack r) \<subseteq> map_names obj'"
proof -
  obtain c c' where l: "load_collection embedded newColl lsm io hook = Inr (c, r)"
    and d: "andThen (detach_cgroup (c, obj))
      (\<lambda>st. if lsm \<and> \<not> LSMFellBack r then detach_lsm io st else (None, st)) = (None, c', obj')"
    using assms(1) by (auto simp: LoadDefendObjectsForKernel_def split: sum.splits prod.splits option.splits)
  have a: "apart (c, obj)"
    using l coll by (auto simp: load_collection_def split: sum.splits if_splits)
  obtain st where s: "detach_cgroup (c, obj) = (None, st)"
    "(if lsm \<and> \<not> LSMFellBack r then detach_lsm io st else (None, st)) = (None, c', obj')"
    using d unfolding andThen_None by blast
  have st: "apart st"
    using detach_cgroup_moves [OF a] s(1) by simp
  have m: "moves st (c', obj')"
    using detach_lsm_moves [OF st, of io] s(2) by (auto split: if_splits)
  note f = detach_cgroup_found(1) [OF a s(1), of io] detach_cgroup_found(2) [OF a s(1)] names_mono [OF m, unfolded snd_conv]
  show "required_programs (lsm \<and> \<not> LSMFellBack r) io \<subseteq> program_names obj'"
    using f detach_lsm_found(1) [OF st, of io "(c', obj')"] s(2) by (auto simp: required_programs_def)
  show "required_maps (lsm \<and> \<not> LSMFellBack r) \<subseteq> map_names obj'"
    using f detach_lsm_found(2) [OF st, of io "(c', obj')"] s(2) by (auto simp: required_maps_def)
qed

lemma shifted_handles:
  "shifted m d m' d' \<Longrightarrow> snd ` set d' \<union> snd ` set m' = snd ` set d \<union> snd ` set m"
  unfolding shifted_def by (metis image_Un)

lemma moves_handles:
  assumes "moves (c, ob) (c', ob')"
  shows "set (coll_handles c') \<union> set (obj_handles ob') = set (coll_handles c) \<union> set (obj_handles ob)"
proof -
  have p: "snd ` set (do_programs ob') \<union> snd ` set (c_programs c') = snd ` set (do_programs ob) \<union> snd ` set (c_programs c)"
    and m: "snd ` set (do_maps ob') \<union> snd ` set (c_maps c') = snd ` set (do_maps ob) \<union> snd ` set (c_maps c)"
    using assms unfolding moves_def fst_conv snd_conv by (blast dest: shifted_handles)+
  have h: "set (coll_handles c) \<union> set (obj_handles ob) =
      (snd ` set (do_programs ob) \<union> snd ` set (c_programs c)) \<union> (snd ` set (do_maps ob) \<union> snd ` set (c_maps c))" for c ob
    by (simp add: coll_handles_def obj_handles_def Un_ac)
  show ?thesis
    unfolding h p m ..
qed

text \<open>The cgroup section stays in every specification the loader tries.\<close>

lemma cgroup_never_stripped:
  assumes "s' \<in> {first_spec lsm io hook s, strip_sendpage s, stripAllLSM s}"
  shows "p \<in> set (sp_programs s) \<Longrightarrow> p \<notin> set lsm_programs \<Longrightarrow> p \<in> set (sp_programs s')"
    and "m \<in> set (sp_maps s) \<Longrightarrow> m \<notin> set lsm_maps \<Longrightarrow> m \<in> set (sp_maps s')"
  using assms
  by (auto simp: first_spec_def strip_sendpage_def stripAllLSM_def strip_def lsm_programs_def lsm_maps_def Let_def)

text \<open>A retry after a sendpage failure starts from the whole specification again, without the io_uring program taken
  out: on a kernel that cannot host that program the agent does not start, and the cgroup-only specification is not
  tried.\<close>

lemma sendpage_retry_keeps_io_uring:
  assumes "embedded = Inr s" "''lsm_io_uring_cmd'' \<in> set (sp_programs s)"
    and "newColl 0 (first_spec True False True s) = Inl e" "isSendpageLoadFailure e"
    and rejected: "\<And>s'. ''lsm_io_uring_cmd'' \<in> set (sp_programs s') \<Longrightarrow> newColl 1 s' = Inl e'"
  shows "fst (LoadDefendObjectsForKernel embedded newColl True True False obj) = Inl (LoadError e')"
proof -
  have "''lsm_io_uring_cmd'' \<in> set (sp_programs (strip_sendpage s))"
    using assms(2) by (simp add: strip_sendpage_def strip_def)
  then show ?thesis
    using assms by (simp add: LoadDefendObjectsForKernel_def load_collection_def)
qed

text \<open>C12. A defend collection that loads is complete: the struct holds both IPv4 and both IPv6 cgroup programs, every
  map the cgroup section needs, and, unless the loader reports that it fell back, the LSM programs and maps that were
  asked for. Falling back is reported only when the LSM section was asked for.\<close>

theorem defend_load_complete:
  assumes "LoadDefendObjectsForKernel embedded newColl hook lsm io obj = (Inr r, obj', closed)"
    and "\<And>k s c. newColl k s = Inr c \<Longrightarrow> apart (c, obj)"
  shows "required_programs (lsm \<and> \<not> LSMFellBack r) io \<subseteq> program_names obj' \<and>
    required_maps (lsm \<and> \<not> LSMFellBack r) \<subseteq> map_names obj' \<and> (LSMFellBack r \<longrightarrow> lsm) \<and> closed = []"
  using loaded_complete [OF assms] assms(1)
  by (auto simp: LoadDefendObjectsForKernel_def load_collection_def no_fallback_def
      split: sum.splits if_splits option.splits prod.splits)

definition no_objects :: "'h DefendObjects" where
  "no_objects = \<lparr>do_programs = [], do_maps = []\<rparr>"

text \<open>A kernel that loads whatever it is given, with the names as handles.\<close>

definition load_all :: "nat \<Rightarrow> spec \<Rightarrow> load_error_info + string coll" where
  "load_all k s = Inr \<lparr>c_programs = map (\<lambda>n. (n, n)) (remdups (sp_programs s)), c_maps = map (\<lambda>n. (n, n)) (remdups (sp_maps s))\<rparr>"

definition demo_spec :: spec where
  "demo_spec = \<lparr>sp_programs = cgPrograms @ cgIPv6Programs, sp_maps = cgAndSharedMaps @ cgIPv6Maps @ [''allowed_ipv6'']\<rparr>"

lemma load_all_apart: "load_all k s = Inr c \<Longrightarrow> apart (c, no_objects)"
  by (auto simp: load_all_def apart_def disjoint_tables_def no_objects_def comp_def)

theorem defend_load_complete_witness:
  "''defend_cgroup_connect6'' \<in> program_names (fst (snd (LoadDefendObjectsForKernel (Inr demo_spec) load_all False False False no_objects)))"
proof -
  have "\<not> isl (fst (LoadDefendObjectsForKernel (Inr demo_spec) load_all False False False no_objects))"
    by code_simp
  then obtain r obj' closed where l: "LoadDefendObjectsForKernel (Inr demo_spec) load_all False False False no_objects = (Inr r, obj', closed)"
    by (metis isl_def prod.collapse sum.collapse(2))
  show ?thesis
    using defend_load_complete [OF l load_all_apart] by (auto simp: l required_programs_def cgIPv6Programs_def)
qed

text \<open>C13. When the load fails after the collection was created, because a required entry is missing, no handle is
  forgotten: each is closed or is in the struct. A failure to create the collection leaves the struct as it was.\<close>

theorem defend_load_error:
  assumes "LoadDefendObjectsForKernel embedded newColl hook lsm io obj = (Inl e, obj', closed)"
    and "\<And>k s c. newColl k s = Inr c \<Longrightarrow> apart (c, obj)"
  shows "(\<exists>i. e = LoadError i \<and> obj' = obj \<and> closed = []) \<or>
    (\<exists>k s c. newColl k s = Inr c \<and> set closed \<union> set (obj_handles obj') = set (coll_handles c) \<union> set (obj_handles obj))"
proof (cases "load_collection embedded newColl lsm io hook")
  case (Inl i)
  then show ?thesis
    using assms(1) by (auto simp: LoadDefendObjectsForKernel_def)
next
  case (Inr cr)
  obtain c r where cr: "cr = (c, r)"
    by (cases cr)
  obtain k s where n: "newColl k s = Inr c"
    using Inr cr by (auto simp: load_collection_def split: sum.splits if_splits)
  note a = assms(2) [OF n]
  have "moves (c, obj) (snd (andThen (detach_cgroup (c, obj))
      (\<lambda>st. if lsm \<and> \<not> LSMFellBack r then detach_lsm io st else (None, st))))"
    by (rule andThen_moves [OF detach_cgroup_moves _ a, THEN conjunct1]) (simp_all add: detach_lsm_moves)
  then obtain c' where "moves (c, obj) (c', obj')" "closed = coll_handles c'"
    using assms(1) by (auto simp: LoadDefendObjectsForKernel_def Inr cr split: prod.splits option.splits)
  then show ?thesis
    using moves_handles n by blast
qed

text \<open>The struct is not left untouched by a failed load: the programs moved before the missing map stay in it.\<close>

lemma failed_load_touches_objects:
  "fst (LoadDefendObjectsForKernel (Inr (demo_spec\<lparr>sp_maps := cgAndSharedMaps @ cgIPv6Maps\<rparr>)) load_all False False False no_objects) =
     Inl (MissingMap ''allowed_ipv6'')"
  "do_programs (fst (snd (LoadDefendObjectsForKernel (Inr (demo_spec\<lparr>sp_maps := cgAndSharedMaps @ cgIPv6Maps\<rparr>)) load_all False False False no_objects))) \<noteq> []"
  by code_simp+

theorem defend_load_error_witness:
  "\<exists>k s c. load_all k s = Inr c \<and>
     set (snd (snd (LoadDefendObjectsForKernel (Inr (demo_spec\<lparr>sp_maps := []\<rparr>)) load_all False False False no_objects))) \<union>
     set (obj_handles (fst (snd (LoadDefendObjectsForKernel (Inr (demo_spec\<lparr>sp_maps := []\<rparr>)) load_all False False False no_objects)))) =
     set (coll_handles c)"
proof -
  let ?l = "LoadDefendObjectsForKernel (Inr (demo_spec\<lparr>sp_maps := []\<rparr>)) load_all False False False no_objects"
  have m: "fst ?l = Inl (MissingMap ''deny_events'')"
    by code_simp
  then have l: "?l = (Inl (MissingMap ''deny_events''), fst (snd ?l), snd (snd ?l))"
    by (metis prod.collapse)
  show ?thesis
    using defend_load_error [OF l load_all_apart] by (simp add: obj_handles_def no_objects_def)
qed

end
