(* ===== verification/Paths.thy ===== *)
theory Paths
  imports GoText
begin

text \<open>
  Path containment (\<^verbatim>\<open>internal/safepath\<close>, \<^verbatim>\<open>resolvePathUnderWorkspace\<close> and
  \<^verbatim>\<open>digestArtifactPath\<close> of \<^verbatim>\<open>internal/actioncli\<close>, \<^verbatim>\<open>internal/cgroup\<close>).

  The lexical functions of Go's \<^verbatim>\<open>path/filepath\<close> on Unix are written over path elements. What only the
  file system knows is an argument: \<open>eval\<close> is \<^verbatim>\<open>filepath.EvalSymlinks\<close> (\<open>None\<close> when it fails),
  \<open>cwd\<close> the working directory.
\<close>

named_theorems path_simps \<open>facts on cleaned paths\<close>

section \<open>Lexical path operations\<close>

definition Join_sep :: "string \<Rightarrow> string list \<Rightarrow> string" where
  "Join_sep sep ss = (case ss of [] \<Rightarrow> [] | s # ss' \<Rightarrow> s @ concat (map (\<lambda>t. sep @ t) ss'))"

abbreviation join_path :: "string list \<Rightarrow> string" where
  "join_path \<equiv> Join_sep ''/''"

definition IsAbs :: "string \<Rightarrow> bool" where
  "IsAbs p \<longleftrightarrow> HasPrefix p ''/''"

definition elems :: "string \<Rightarrow> string list" where
  "elems p = filter (\<lambda>e. e \<noteq> []) (splitOn CHR ''/'' p)"

text \<open>One element of \<^verbatim>\<open>filepath.Clean\<close>; \<open>out\<close> is the cleaned path so far, last element first.\<close>

fun clean_step :: "bool \<Rightarrow> string \<Rightarrow> string list \<Rightarrow> string list" where
  "clean_step rooted e out =
     (if e = ''.'' then out
      else if e = ''..'' then (case out of [] \<Rightarrow> if rooted then [] else [''..'']
        | o1 # rest \<Rightarrow> if o1 = ''..'' then ''..'' # out else rest)
      else e # out)"

definition clean_elems :: "bool \<Rightarrow> string list \<Rightarrow> string list" where
  "clean_elems rooted es = rev (fold (clean_step rooted) es [])"

definition Clean :: "string \<Rightarrow> string" where
  "Clean p = (let es = clean_elems (IsAbs p) (elems p) in
     if IsAbs p then CHR ''/'' # join_path es
     else if es = [] then ''.'' else join_path es)"

definition Join :: "string list \<Rightarrow> string" where
  "Join ps = (case dropWhile (\<lambda>p. p = []) ps of [] \<Rightarrow> [] | qs \<Rightarrow> Clean (join_path qs))"

definition Dir :: "string \<Rightarrow> string" where
  "Dir p = Clean (rev (dropWhile (\<lambda>c. c \<noteq> CHR ''/'') (rev p)))"

definition Base :: "string \<Rightarrow> string" where
  "Base p = (if p = [] then ''.'' else
     let q = dropWhile (\<lambda>c. c = CHR ''/'') (rev p) in
     if q = [] then ''/'' else rev (takeWhile (\<lambda>c. c \<noteq> CHR ''/'') q))"

definition Abs :: "string option \<Rightarrow> string \<Rightarrow> string option" where
  "Abs cwd p = (if IsAbs p then Some (Clean p) else map_option (\<lambda>w. Join [w, p]) cwd)"

fun strip_common :: "'a list \<Rightarrow> 'a list \<Rightarrow> 'a list \<times> 'a list" where
  "strip_common (x # xs) (y # ys) = (if x = y then strip_common xs ys else (x # xs, y # ys))"
| "strip_common xs ys = (xs, ys)"

text \<open>\<^verbatim>\<open>filepath.Rel\<close>: after the common elements, one \<^verbatim>\<open>..\<close> for each element left of the base.\<close>

definition Rel :: "string \<Rightarrow> string \<Rightarrow> string option" where
  "Rel basepath targpath = (let base = Clean basepath; targ = Clean targpath in
     if targ = base then Some ''.''
     else let base = (if base = ''.'' then [] else base) in
       if IsAbs base \<noteq> IsAbs targ then None
       else (case strip_common (elems base) (elems targ) of (b, t) \<Rightarrow>
         if b \<noteq> [] \<and> t \<noteq> [] \<and> hd b = ''..'' then None
         else Some (join_path (map (\<lambda>_. ''..'') b @ t))))"

section \<open>Containment under trusted roots\<close>

definition hasPrefix :: "string \<Rightarrow> string \<Rightarrow> bool" where
  "hasPrefix path root = (case Rel root path of None \<Rightarrow> False
     | Some rel \<Rightarrow> if rel = ''.'' then True
         else if rel = ''..'' \<or> HasPrefix rel ''../'' then False
         else \<not> IsAbs rel)"

definition safePathChar :: "char \<Rightarrow> bool" where
  "safePathChar c \<longleftrightarrow> is_upper c \<or> is_lower c \<or> is_digit c \<or> c \<in> set ''_./:-'' \<or> c = CHR 0x5C"

definition safePathRE :: "string \<Rightarrow> bool" where
  "safePathRE s \<longleftrightarrow> s \<noteq> [] \<and> list_all safePathChar s"

text \<open>The loop of \<^verbatim>\<open>resolveWithExistingAncestor\<close> upwards from \<open>cur\<close>; the names passed are in \<open>names\<close>, nearest
  ancestor first. The parent of a path is shorter until the root, so the length of the path bounds the steps.\<close>

fun existing_ancestor :: "(string \<Rightarrow> string option) \<Rightarrow> nat \<Rightarrow> string \<Rightarrow> string \<Rightarrow> string list \<Rightarrow> string" where
  "existing_ancestor eval 0 path cur names = path"
| "existing_ancestor eval (Suc k) path cur names = (let parent = Dir cur in
     if parent = cur then path
     else let names' = Base cur # names in
       (case eval parent of Some real \<Rightarrow> fold (\<lambda>s r. Join [r, s]) names' real
        | None \<Rightarrow> existing_ancestor eval k path parent names'))"

definition resolveWithExistingAncestor :: "(string \<Rightarrow> string option) \<Rightarrow> string \<Rightarrow> string" where
  "resolveWithExistingAncestor eval path = (case eval path of Some real \<Rightarrow> real
     | None \<Rightarrow> existing_ancestor eval (length path) path path [])"

definition real_or_self :: "(string \<Rightarrow> string option) \<Rightarrow> string \<Rightarrow> string" where
  "real_or_self eval p = (case eval p of Some r \<Rightarrow> r | None \<Rightarrow> p)"

definition trustedRoots :: "(string \<Rightarrow> string) \<Rightarrow> (string \<Rightarrow> string option) \<Rightarrow> string \<Rightarrow> string option \<Rightarrow> string list" where
  "trustedRoots getenv eval tempDir cwd =
     (if getenv ''GITHUB_WORKSPACE'' \<noteq> [] then [real_or_self eval (getenv ''GITHUB_WORKSPACE'')] else []) @
     (if getenv ''RUNNER_TEMP'' \<noteq> [] then [real_or_self eval (getenv ''RUNNER_TEMP'')] else []) @
     [real_or_self eval tempDir] @ (case cwd of None \<Rightarrow> [] | Some w \<Rightarrow> [real_or_self eval w])"

datatype path_error = DisallowedCharacters | NoWorkingDirectory | OutsideTrustedRoots | EmptyPath | NotResolved | OutsideWorkspace

definition Workspace :: "(string \<Rightarrow> string) \<Rightarrow> (string \<Rightarrow> string option) \<Rightarrow> string \<Rightarrow> string option \<Rightarrow> string \<Rightarrow> path_error + string" where
  "Workspace getenv eval tempDir cwd raw =
     (if \<not> safePathRE raw then Inl DisallowedCharacters
      else (case Abs cwd raw of None \<Rightarrow> Inl NoWorkingDirectory
        | Some p \<Rightarrow> let resolved = resolveWithExistingAncestor eval p in
            if list_ex (hasPrefix resolved) (trustedRoots getenv eval tempDir cwd) then Inr resolved
            else Inl OutsideTrustedRoots))"

text \<open>The allow-file paths of the action; \<open>eval\<close> is the state of the links when the function runs.\<close>

definition resolvePathUnderWorkspace :: "(string \<Rightarrow> string option) \<Rightarrow> string \<Rightarrow> string \<Rightarrow> path_error + string" where
  "resolvePathUnderWorkspace eval workspaceAbs userPath = (let ws0 = Clean workspaceAbs; p = TrimSpace userPath in
     if p = [] then Inl EmptyPath
     else let joined = (if IsAbs p then Clean p else Join [ws0, Clean p]) in
       (case eval joined of None \<Rightarrow> Inl NotResolved
        | Some rp \<Rightarrow> (case eval ws0 of None \<Rightarrow> Inl NotResolved
          | Some ws \<Rightarrow> (case Rel ws rp of None \<Rightarrow> Inl OutsideWorkspace
            | Some rel \<Rightarrow> if rel = ''..'' \<or> HasPrefix rel ''../'' then Inl OutsideWorkspace else Inr rp))))"

definition digestArtifactPath :: "string \<Rightarrow> string \<Rightarrow> string \<Rightarrow> string" where
  "digestArtifactPath baseDir digestOutput mode = (let override = TrimSpace digestOutput in
     if override = [] then Join [baseDir, ''.coldstep-'' @ mode @ ''.md'']
     else if IsAbs override then Clean override else Join [baseDir, override])"

text \<open>\<^verbatim>\<open>cgroup.AttachPath\<close>; \<open>isDir\<close> is what \<^verbatim>\<open>os.Stat\<close> says of the path, \<open>None\<close> when it fails.\<close>

datatype cgroup_error = CgroupStat string | CgroupNotDir string | CgroupNoCwd

definition AttachPath :: "(string \<Rightarrow> bool option) \<Rightarrow> string option \<Rightarrow> string \<Rightarrow> cgroup_error + string" where
  "AttachPath isDir cwd override = (let p = TrimSpace override in
     if p \<noteq> [] then (case isDir p of None \<Rightarrow> Inl (CgroupStat p)
       | Some d \<Rightarrow> if \<not> d then Inl (CgroupNotDir p)
           else (case Abs cwd p of None \<Rightarrow> Inl CgroupNoCwd | Some q \<Rightarrow> Inr q))
     else Inr ''/sys/fs/cgroup'')"

section \<open>Cleaned paths\<close>

definition plain :: "string \<Rightarrow> bool" where
  "plain e \<longleftrightarrow> e \<noteq> [] \<and> CHR ''/'' \<notin> set e"

lemma splitOn_append_sep: "splitOn c (xs @ c # ys) = splitOn c xs @ splitOn c ys"
proof (induction xs)
  case (Cons x xs)
  then show ?case
    by (cases "splitOn c xs") (auto split: list.splits)
qed simp

lemma splitOn_single: "c \<notin> set xs \<Longrightarrow> splitOn c xs = [xs]"
  by (induction xs) auto

lemma elems_Nil [simp, path_simps]: "elems [] = []"
  by (simp add: elems_def)

lemma elems_plain: "e \<in> set (elems p) \<Longrightarrow> plain e"
  by (auto simp: elems_def plain_def dest: splitOn_no_sep)

lemma elems_append [simp, path_simps]: "elems (xs @ CHR ''/'' # ys) = elems xs @ elems ys"
  by (simp add: elems_def splitOn_append_sep)

lemma elems_slash [simp, path_simps]: "elems (CHR ''/'' # ys) = elems ys"
  using elems_append [of "[]" ys] by simp

lemma elems_single: "plain e \<Longrightarrow> elems e = [e]"
  by (simp add: plain_def elems_def splitOn_single)

lemma join_path_Cons: "join_path (e # es) = (if es = [] then e else e @ CHR ''/'' # join_path es)"
  by (cases es) (simp_all add: Join_sep_def)

lemma elems_join [simp, path_simps]: "(\<And>e. e \<in> set es \<Longrightarrow> plain e) \<Longrightarrow> elems (join_path es) = es"
proof (induction es)
  case (Cons e es)
  then show ?case
    using elems_single [of e] by (simp add: join_path_Cons)
qed (simp add: Join_sep_def)

lemma plain_dots [simp]: "plain ''.''" "plain ''..''"
  by (simp_all add: plain_def)

text \<open>A cleaned element list: no element is empty, a dot or, in a rooted path, a pair of dots; in a relative one the
  pairs of dots come first.\<close>

definition clean_list :: "bool \<Rightarrow> string list \<Rightarrow> bool" where
  "clean_list rooted es \<longleftrightarrow> (\<exists>ups rest. es = ups @ rest \<and> set ups \<subseteq> {''..''} \<and> (rooted \<longrightarrow> ups = []) \<and>
     (\<forall>e \<in> set rest. plain e \<and> e \<noteq> ''.'' \<and> e \<noteq> ''..''))"

lemma clean_listI:
  "set ups \<subseteq> {''..''} \<Longrightarrow> (rooted \<longrightarrow> ups = []) \<Longrightarrow> (\<And>e. e \<in> set rest \<Longrightarrow> plain e \<and> e \<noteq> ''.'' \<and> e \<noteq> ''..'') \<Longrightarrow>
     clean_list rooted (ups @ rest)"
  unfolding clean_list_def by blast

lemma clean_step_ok:
  assumes "clean_list rooted (rev out)" "plain e"
  shows "clean_list rooted (rev (clean_step rooted e out))"
proof -
  obtain ups rest where r: "rev out = ups @ rest" "set ups \<subseteq> {''..''}" "rooted \<longrightarrow> ups = []"
    "\<forall>e \<in> set rest. plain e \<and> e \<noteq> ''.'' \<and> e \<noteq> ''..''"
    using assms(1) by (auto simp: clean_list_def)
  show ?thesis
  proof (cases "e = ''..''")
    case up: True
    show ?thesis
    proof (cases rest rule: rev_cases)
      case Nil
      then have o: "out = rev ups"
        using r(1) by (metis append_Nil2 rev_swap)
      have "clean_step rooted e out = (if rooted then [] else ''..'' # out)"
        using r(2,3) up by (cases out) (auto simp: o)
      then show ?thesis
        using clean_listI [of "if rooted then [] else ups @ [''..'']" rooted "[]"] r(2) o by (auto simp del: clean_step.simps)
    next
      case (snoc rest' x)
      then have "out = x # rev rest' @ rev ups" "x \<noteq> ''..''"
        using r(1,4) by (auto simp: rev_swap)
      then show ?thesis
        using clean_listI [of ups rooted rest'] r snoc up by auto
    qed
  next
    case False
    then show ?thesis
      using clean_listI [of ups rooted "rest @ [e]"] assms r by (cases "e = ''.''") auto
  qed
qed

lemma clean_elems_ok: "(\<And>e. e \<in> set es \<Longrightarrow> plain e) \<Longrightarrow> clean_list rooted (clean_elems rooted es)"
proof -
  have "clean_list rooted (rev (fold (clean_step rooted) es out))"
    if "clean_list rooted (rev out)" "\<And>e. e \<in> set es \<Longrightarrow> plain e" for out
    using that by (induction es arbitrary: out) (auto simp: clean_step_ok simp del: clean_step.simps)
  from this [of "[]"] show "(\<And>e. e \<in> set es \<Longrightarrow> plain e) \<Longrightarrow> clean_list rooted (clean_elems rooted es)"
    by (simp add: clean_elems_def clean_list_def)
qed

lemma clean_list_plain: "clean_list rooted es \<Longrightarrow> e \<in> set es \<Longrightarrow> plain e \<and> e \<noteq> ''.'' \<and> (rooted \<longrightarrow> e \<noteq> ''..'')"
  unfolding clean_list_def by (fastforce simp: subset_iff)

lemma clean_fold_ups: "set ups \<subseteq> {''..''} \<Longrightarrow> set out \<subseteq> {''..''} \<Longrightarrow> fold (clean_step False) ups out = rev ups @ out"
  by (induction ups arbitrary: out) (auto split: list.splits)

lemma clean_fold_rest:
  "(\<And>e. e \<in> set rest \<Longrightarrow> e \<noteq> ''.'' \<and> e \<noteq> ''..'') \<Longrightarrow> fold (clean_step rooted) rest out = rev rest @ out"
  by (induction rest arbitrary: out) auto

lemma clean_elems_id: "clean_list rooted es \<Longrightarrow> clean_elems rooted es = es"
  unfolding clean_list_def clean_elems_def
  by (cases rooted) (auto simp: clean_fold_rest clean_fold_ups simp del: clean_step.simps)

lemma elems_of_plain: "(\<And>e. e \<in> set (elems p) \<Longrightarrow> plain e)"
  by (rule elems_plain)

lemma clean_elems_elems: "clean_list rooted (clean_elems rooted (elems p))"
  by (rule clean_elems_ok) (rule elems_plain)

lemma join_path_not_abs: "es \<noteq> [] \<Longrightarrow> plain (hd es) \<Longrightarrow> \<not> IsAbs (join_path es)"
  by (cases es; cases "hd es") (auto simp: join_path_Cons plain_def IsAbs_def HasPrefix_def)

lemma join_path_plain_nonempty: "es \<noteq> [] \<Longrightarrow> plain (hd es) \<Longrightarrow> join_path es \<noteq> []"
  by (cases es) (auto simp: join_path_Cons plain_def)

lemma IsAbs_Cons [simp]: "IsAbs (c # cs) \<longleftrightarrow> c = CHR ''/''"
  by (simp add: IsAbs_def HasPrefix_def)

lemma IsAbs_Nil [simp]: "\<not> IsAbs []"
  by (simp add: IsAbs_def HasPrefix_def)

lemma IsAbs_Clean [simp, path_simps]: "IsAbs (Clean p) \<longleftrightarrow> IsAbs p"
proof (cases "clean_elems False (elems p)")
  case (Cons e es)
  then show ?thesis
    using join_path_not_abs [of "e # es"] clean_list_plain [OF clean_elems_elems [of False p], of e]
    by (simp add: Clean_def Let_def)
qed (cases "IsAbs p"; simp add: Clean_def)

lemma Clean_nonempty [simp]: "Clean p \<noteq> []"
proof (cases "clean_elems False (elems p)")
  case (Cons e es)
  then show ?thesis
    using join_path_plain_nonempty [of "e # es"] clean_list_plain [OF clean_elems_elems [of False p], of e]
    by (simp add: Clean_def Let_def)
qed (cases "IsAbs p"; simp add: Clean_def)

lemma Join_nonempty: "r \<noteq> [] \<Longrightarrow> Join (r # rs) \<noteq> []"
  by (simp add: Join_def)

lemma elems_Clean_abs: "IsAbs p \<Longrightarrow> elems (Clean p) = clean_elems True (elems p)"
  using clean_list_plain [OF clean_elems_elems [of True p]] by (simp add: Clean_def Let_def)

lemma Clean_of_elems: "IsAbs p \<Longrightarrow> Clean p = CHR ''/'' # join_path (elems (Clean p))"
  by (simp add: elems_Clean_abs) (simp add: Clean_def)

lemma Clean_idem: "Clean (Clean p) = Clean p"
proof (cases "IsAbs p")
  case True
  then show ?thesis
    using clean_elems_id [OF clean_elems_elems [of True p]]
    by (simp add: Clean_def [of "Clean p"] elems_Clean_abs Let_def) (simp add: Clean_def)
next
  case False
  show ?thesis
  proof (cases "clean_elems False (elems p)")
    case Nil
    then show ?thesis
      using False by (simp add: Clean_def elems_single clean_elems_def)
  next
    case (Cons e es)
    then have c: "Clean p = join_path (e # es)" "elems (Clean p) = e # es"
      using False clean_list_plain [OF clean_elems_elems [of False p]] elems_join [of "e # es"]
      by (simp_all add: Clean_def Let_def del: elems_join)
    have "clean_elems False (e # es) = e # es"
      using clean_elems_id [OF clean_elems_elems [of False p]] Cons by simp
    moreover have "\<not> IsAbs (join_path (e # es))"
      using IsAbs_Clean [of p] False c(1) by simp
    ultimately show ?thesis
      using c(2) unfolding c(1) by (simp add: Clean_def)
  qed
qed

lemma strip_common_split:
  "strip_common xs ys = (b, t) \<Longrightarrow> \<exists>p. xs = p @ b \<and> ys = p @ t \<and> (b = [] \<or> t = [] \<or> hd b \<noteq> hd t)"
proof (induction xs ys rule: strip_common.induct)
  case (1 x xs y ys)
  then show ?case
    by (cases "x = y") (auto intro: exI [of _ "x # _"])
qed auto

lemma not_dotdot: "(\<And>e. e \<in> set es \<Longrightarrow> plain e) \<Longrightarrow>
    (join_path es = ''..'' \<or> HasPrefix (join_path es) ''../'') \<longleftrightarrow> es \<noteq> [] \<and> hd es = ''..''"
proof (cases es)
  case (Cons e es')
  assume p: "\<And>e. e \<in> set es \<Longrightarrow> plain e"
  show ?thesis
  proof
    assume "join_path es = ''..'' \<or> HasPrefix (join_path es) ''../''"
    then obtain x where "elems (join_path es) = ''..'' # x"
      using elems_single [of "''..''"] elems_append [of "''..''"] by (fastforce simp: HasPrefix_iff)
    then show "es \<noteq> [] \<and> hd es = ''..''"
      using elems_join [OF p] by simp
  next
    assume "es \<noteq> [] \<and> hd es = ''..''"
    then show "join_path es = ''..'' \<or> HasPrefix (join_path es) ''../''"
      by (auto simp: Cons join_path_Cons HasPrefix_def)
  qed
qed (simp add: Join_sep_def HasPrefix_def)

section \<open>Containment\<close>

text \<open>On absolute paths the test is what it is meant to be: the elements of the root start the elements of the path.\<close>

lemma Clean_eq_iff: "IsAbs p \<Longrightarrow> IsAbs q \<Longrightarrow> Clean p = Clean q \<longleftrightarrow> elems (Clean p) = elems (Clean q)"
  using Clean_of_elems by metis

lemma hasPrefix_elems:
  assumes "IsAbs root" "IsAbs path"
  shows "hasPrefix path root \<longleftrightarrow> prefix (elems (Clean root)) (elems (Clean path))"
proof (cases "Clean path = Clean root")
  case True
  then show ?thesis
    by (simp add: hasPrefix_def Rel_def)
next
  case ne: False
  obtain b t where st: "strip_common (elems (Clean root)) (elems (Clean path)) = (b, t)"
    by (cases "strip_common (elems (Clean root)) (elems (Clean path))")
  then obtain p where p: "elems (Clean root) = p @ b" "elems (Clean path) = p @ t" "b = [] \<or> t = [] \<or> hd b \<noteq> hd t"
    using strip_common_split by blast
  have ok: "plain e \<and> e \<noteq> ''.'' \<and> e \<noteq> ''..''" if "e \<in> set b \<union> set t" for e
    using that p assms clean_list_plain [OF clean_elems_elems, of e True]
    by (metis Un_iff elems_Clean_abs set_append)
  have up: "\<not> (b \<noteq> [] \<and> t \<noteq> [] \<and> hd b = ''..'')"
    using ok by auto
  have "Clean root \<noteq> ''.''"
    using IsAbs_Clean [of root] assms(1) by (auto simp del: IsAbs_Clean)
  then have rel: "Rel root path = Some (join_path (map (\<lambda>_. ''..'') b @ t))"
    using assms ne up by (auto simp: Rel_def Let_def st)
  have pl: "plain e" if "e \<in> set (map (\<lambda>_. ''..'') b @ t)" for e
    using that ok by auto
  show ?thesis
  proof (cases b)
    case Nil
    then have t: "t \<noteq> []"
      using ne p Clean_eq_iff [OF assms(2,1)] by auto
    have "join_path t \<noteq> ''.''"
      using elems_join [of t] ok elems_single [of "''.''"] by force
    moreover have "\<not> IsAbs (join_path t)"
      using join_path_not_abs [OF t] ok t by simp
    moreover have "\<not> (join_path t = ''..'' \<or> HasPrefix (join_path t) ''../'')"
      using not_dotdot [of t] ok t by auto
    ultimately show ?thesis
      using rel Nil p(1,2) by (simp add: hasPrefix_def)
  next
    case (Cons x xs)
    have "join_path (map (\<lambda>_. ''..'') b @ t) = ''..'' \<or> HasPrefix (join_path (map (\<lambda>_. ''..'') b @ t)) ''../''"
      using not_dotdot [of "map (\<lambda>_. ''..'') b @ t"] pl Cons by simp
    moreover have "join_path (map (\<lambda>_. ''..'') b @ t) \<noteq> ''.''"
      using elems_join [of "map (\<lambda>_. ''..'') b @ t"] pl elems_single [of "''.''"] Cons by force
    moreover have "\<not> prefix (elems (Clean root)) (elems (Clean path))"
      using p Cons by (auto simp: prefix_def)
    ultimately show ?thesis
      using rel by (auto simp: hasPrefix_def)
  qed
qed

lemma hasPrefix_abs_root: "hasPrefix path root \<Longrightarrow> IsAbs path \<Longrightarrow> IsAbs root"
  using IsAbs_Clean [of root] IsAbs_Clean [of path]
  by (auto simp: hasPrefix_def Rel_def Let_def simp del: IsAbs_Clean split: if_splits)

lemma Rel_not_abs:
  assumes "IsAbs root" "IsAbs path" "Rel root path = Some rel"
  shows "\<not> IsAbs rel"
proof (cases "Clean path = Clean root")
  case True
  then show ?thesis
    using assms(3) by (auto simp: Rel_def)
next
  case False
  obtain b t where st: "strip_common (elems (Clean root)) (elems (Clean path)) = (b, t)"
    by (cases "strip_common (elems (Clean root)) (elems (Clean path))")
  then obtain p where p: "elems (Clean path) = p @ t"
    using strip_common_split by blast
  have "Clean root \<noteq> ''.''"
    using IsAbs_Clean [of root] assms(1) by (auto simp del: IsAbs_Clean)
  then have rel: "rel = join_path (map (\<lambda>_. ''..'') b @ t)"
    using assms False by (auto simp: Rel_def Let_def st split: if_splits)
  have "plain (hd (map (\<lambda>_. ''..'') b @ t))" if "map (\<lambda>_. ''..'') b @ t \<noteq> []"
    using elems_plain [of "hd t" "Clean path"] that p by (cases b; cases t) simp_all
  then show ?thesis
    using rel join_path_not_abs by (cases "map (\<lambda>_. ''..'') b @ t = []") (auto simp: Join_sep_def)
qed

lemma IsAbs_Join [simp]: "IsAbs r \<Longrightarrow> IsAbs (Join [r, s])"
  by (cases r) (auto simp: Join_def Join_sep_def)

lemma dropWhile_last:
  "xs \<noteq> [] \<Longrightarrow> \<not> P (last xs) \<Longrightarrow> dropWhile P xs \<noteq> [] \<and> last (dropWhile P xs) = last xs"
  by (induction xs) auto

lemma IsAbs_Dir [simp]: "IsAbs p \<Longrightarrow> IsAbs (Dir p)"
proof -
  assume "IsAbs p"
  then have "rev p \<noteq> []" "last (rev p) = CHR ''/''"
    by (cases p; simp)+
  then have "hd (rev (dropWhile (\<lambda>c. c \<noteq> CHR ''/'') (rev p))) = CHR ''/''" "rev (dropWhile (\<lambda>c. c \<noteq> CHR ''/'') (rev p)) \<noteq> []"
    using dropWhile_last [of "rev p" "\<lambda>c. c \<noteq> CHR ''/''"] by (simp_all add: hd_rev)
  then show ?thesis
    unfolding Dir_def IsAbs_Clean by (cases "rev (dropWhile (\<lambda>c. c \<noteq> CHR ''/'') (rev p))") simp_all
qed

lemma IsAbs_fold_Join: "IsAbs r \<Longrightarrow> IsAbs (fold (\<lambda>s r. Join [r, s]) ns r)"
  by (induction ns arbitrary: r) simp_all

text \<open>What \<^verbatim>\<open>EvalSymlinks\<close> documents: an absolute path resolves to an absolute path.\<close>

definition absolute_eval :: "(string \<Rightarrow> string option) \<Rightarrow> bool" where
  "absolute_eval eval \<longleftrightarrow> (\<forall>p q. IsAbs p \<longrightarrow> eval p = Some q \<longrightarrow> IsAbs q)"

lemma existing_ancestor_abs:
  "absolute_eval eval \<Longrightarrow> IsAbs path \<Longrightarrow> IsAbs cur \<Longrightarrow> IsAbs (existing_ancestor eval k path cur ns)"
proof (induction k arbitrary: cur ns)
  case (Suc k)
  have "IsAbs real" if "eval (Dir cur) = Some real" for real
    using that Suc.prems IsAbs_Dir unfolding absolute_eval_def by blast
  then show ?case
    using Suc by (auto simp: Let_def split: option.splits intro: IsAbs_fold_Join)
qed simp

lemma resolve_abs: "absolute_eval eval \<Longrightarrow> IsAbs path \<Longrightarrow> IsAbs (resolveWithExistingAncestor eval path)"
  by (auto simp: resolveWithExistingAncestor_def existing_ancestor_abs split: option.splits) (auto simp: absolute_eval_def)

text \<open>The walk upwards ends: from a cleaned absolute path every parent is shorter until the root, so more steps than
  the path has characters change nothing.\<close>

lemma join_path_snoc: "es \<noteq> [] \<Longrightarrow> join_path (es @ [e]) = join_path es @ CHR ''/'' # e"
  by (induction es) (auto simp: join_path_Cons)

lemma dir_part: "CHR ''/'' \<notin> set e \<Longrightarrow> rev (dropWhile (\<lambda>c. c \<noteq> CHR ''/'') (rev (pre @ CHR ''/'' # e))) = pre @ ''/''"
  by (subst rev_append, simp) (subst dropWhile_append2, auto)

lemma Dir_snoc:
  assumes "clean_list True (es @ [e])"
  shows "Dir (CHR ''/'' # join_path (es @ [e])) = CHR ''/'' # join_path es"
proof -
  have pl: "plain x \<and> x \<noteq> ''.'' \<and> x \<noteq> ''..''" if "x \<in> set es \<union> {e}" for x
    using clean_list_plain [OF assms, of x] that by auto
  have c: "clean_list True es"
    using clean_listI [of "[]" True es] pl by simp
  let ?pre = "if es = [] then [] else CHR ''/'' # join_path es"
  have "CHR ''/'' # join_path (es @ [e]) = ?pre @ CHR ''/'' # e"
    using join_path_snoc [of es e] by (simp add: join_path_Cons)
  then have "Dir (CHR ''/'' # join_path (es @ [e])) = Clean (?pre @ ''/'')"
    unfolding Dir_def using dir_part [of e ?pre] pl [of e] by (simp only: plain_def) simp
  moreover have "elems (?pre @ ''/'') = es" "IsAbs (?pre @ ''/'')"
    using elems_append [of ?pre "[]"] pl by (auto simp: elems_join)
  ultimately show ?thesis
    using clean_elems_id [OF c] by (simp add: Clean_def)
qed

lemma abs_clean_form: "IsAbs p \<Longrightarrow> Clean p = p \<Longrightarrow> \<exists>es. p = CHR ''/'' # join_path es \<and> clean_list True es"
  using Clean_of_elems [of p] elems_Clean_abs [of p] clean_elems_elems [of True p] by auto

lemma Dir_shorter:
  assumes "IsAbs p" "Clean p = p" "Dir p \<noteq> p"
  shows "length (Dir p) < length p" "Clean (Dir p) = Dir p"
proof -
  obtain es where es: "p = CHR ''/'' # join_path es" "clean_list True es"
    using abs_clean_form [OF assms(1,2)] by blast
  have "es \<noteq> []"
    using assms(3) es by (auto simp: Join_sep_def Dir_def Clean_def clean_elems_def)
  then obtain es' e where s: "es = es' @ [e]"
    by (metis rev_exhaust)
  have "e \<noteq> []"
    using clean_list_plain [OF es(2), of e] s by (simp add: plain_def)
  then show "length (Dir p) < length p"
    using Dir_snoc [of es' e] es s join_path_snoc [of es' e] by (cases "es' = []") (auto simp: Join_sep_def)
  show "Clean (Dir p) = Dir p"
    by (simp add: Dir_def Clean_idem)
qed

lemma existing_ancestor_enough:
  assumes "IsAbs cur" "Clean cur = cur" "length cur \<le> k" "length cur \<le> k'"
  shows "existing_ancestor eval k path cur ns = existing_ancestor eval k' path cur ns"
  using assms
proof (induction k arbitrary: cur k' ns)
  case (Suc k)
  have "length cur \<noteq> 0"
    using Suc.prems(1) by auto
  then obtain j where j: "k' = Suc j"
    using Suc.prems(4) by (cases k') auto
  show ?case
  proof (cases "Dir cur = cur")
    case True
    then show ?thesis
      by (simp add: j)
  next
    case False
    note d = Dir_shorter [OF Suc.prems(1,2) False]
    have "existing_ancestor eval k path (Dir cur) ns' = existing_ancestor eval j path (Dir cur) ns'" for ns'
      by (rule Suc.IH) (use d Suc.prems j in \<open>simp_all add: IsAbs_Dir\<close>)
    then show ?thesis
      using False by (simp add: j Let_def split: option.split)
  qed
qed (simp add: IsAbs_def HasPrefix_def)

text \<open>C31. A path the workspace check accepts lies under one of the trusted roots, element by element: no spelling with
  dots, doubled slashes or a common name prefix gets outside.\<close>

theorem workspace_contained:
  assumes "absolute_eval eval" "\<And>w. cwd = Some w \<Longrightarrow> IsAbs w"
    and "Workspace getenv eval tempDir cwd raw = Inr r"
  shows "\<exists>root \<in> set (trustedRoots getenv eval tempDir cwd). IsAbs root \<and> prefix (elems (Clean root)) (elems (Clean r))"
proof -
  obtain p where p: "Abs cwd raw = Some p" "r = resolveWithExistingAncestor eval p"
    and in_root: "list_ex (hasPrefix r) (trustedRoots getenv eval tempDir cwd)"
    using assms(3) by (auto simp: Workspace_def Let_def split: if_splits option.splits)
  have "IsAbs p"
    using p(1) assms(2) by (auto simp: Abs_def split: if_splits)
  then have r: "IsAbs r"
    using resolve_abs [OF assms(1)] p(2) by simp
  obtain root where "root \<in> set (trustedRoots getenv eval tempDir cwd)" "hasPrefix r root"
    using in_root by (auto simp: list_ex_iff)
  then show ?thesis
    using hasPrefix_elems [OF hasPrefix_abs_root [of r root] r] hasPrefix_abs_root [of r root] r by blast
qed

text \<open>An allow-file the action reads lies under the workspace after symbolic links are resolved in both.\<close>

theorem allow_file_contained:
  assumes "absolute_eval eval" "IsAbs ws" "resolvePathUnderWorkspace eval ws p = Inr r"
  shows "\<exists>w. eval (Clean ws) = Some w \<and> prefix (elems (Clean w)) (elems (Clean r))"
proof -
  let ?j = "if IsAbs (TrimSpace p) then Clean (TrimSpace p) else Join [Clean ws, Clean (TrimSpace p)]"
  obtain w rel where w: "eval ?j = Some r" "eval (Clean ws) = Some w" "Rel w r = Some rel"
    "\<not> (rel = ''..'' \<or> HasPrefix rel ''../'')"
    using assms(3) by (auto simp: resolvePathUnderWorkspace_def Let_def split: if_splits option.splits)
  have "IsAbs ?j" "IsAbs (Clean ws)"
    using assms(2) by simp_all
  then have "IsAbs r" "IsAbs w"
    using assms(1) w(1,2) unfolding absolute_eval_def by blast+
  moreover from this have "hasPrefix r w"
    using Rel_not_abs [of w r rel] w(3,4) by (simp add: hasPrefix_def split: if_splits)
  ultimately show ?thesis
    using hasPrefix_elems [of w r] w(2) by blast
qed

text \<open>A file system without links in which everything but \<^verbatim>\<open>/ws/new\<close> exists.\<close>

definition demo_eval :: "string \<Rightarrow> string option" where
  "demo_eval p = (if p = ''/ws/new'' then None else Some p)"

lemma demo_eval_absolute: "absolute_eval demo_eval"
  by (simp add: absolute_eval_def demo_eval_def)

theorem workspace_contained_witness:
  "Workspace (\<lambda>k. if k = ''GITHUB_WORKSPACE'' then ''/ws'' else []) demo_eval ''/tmp'' (Some ''/home/runner'') ''/ws/a/../new'' = Inr ''/ws/new'' \<and>
   (\<exists>root. IsAbs root \<and> prefix (elems (Clean root)) (elems (Clean ''/ws/new'')))"
proof -
  have w: "Workspace (\<lambda>k. if k = ''GITHUB_WORKSPACE'' then ''/ws'' else []) demo_eval ''/tmp'' (Some ''/home/runner'') ''/ws/a/../new'' = Inr ''/ws/new''"
    by code_simp
  show ?thesis
    using workspace_contained [OF demo_eval_absolute _ w] w by auto
qed

theorem allow_file_contained_witness:
  "resolvePathUnderWorkspace demo_eval ''/ws'' '' ..allow.txt'' = Inr ''/ws/..allow.txt'' \<and>
   prefix (elems (Clean ''/ws'')) (elems (Clean ''/ws/..allow.txt''))"
proof -
  have r: "resolvePathUnderWorkspace demo_eval ''/ws'' '' ..allow.txt'' = Inr ''/ws/..allow.txt''" "Clean ''/ws'' = ''/ws''"
    by code_simp+
  have "\<exists>w. demo_eval (Clean ''/ws'') = Some w \<and> prefix (elems (Clean w)) (elems (Clean ''/ws/..allow.txt''))"
    by (rule allow_file_contained [OF demo_eval_absolute _ r(1)]) simp
  then show ?thesis
    using r by (simp add: demo_eval_def)
qed

text \<open>A link whose target does not exist yet does not resolve, so its own name is judged: a link under the workspace
  that points elsewhere is accepted, and creating the file follows it.\<close>

lemma dangling_link_accepted:
  "Workspace (\<lambda>k. if k = ''GITHUB_WORKSPACE'' then ''/ws'' else [])
     (\<lambda>p. if p = ''/ws/link'' then None else Some p) ''/tmp'' None ''/ws/link'' = Inr ''/ws/link''"
  by code_simp

text \<open>The digest is written beside the report under a name made of the mode, which the event stream supplies: a mode
  with slashes names a file outside the directory.\<close>

lemma digest_path_escapes:
  "digestArtifactPath ''/ws'' [] ''x/../../etc/evil'' = ''/etc/evil.md''"
  "\<not> hasPrefix (digestArtifactPath ''/ws'' [] ''x/../../etc/evil'') ''/ws''"
  by code_simp+

end
