(* ===== verification/Config.thy ===== *)
theory Config
  imports Allowlist Paths
begin

text \<open>
  Configuration of the agent (\<^verbatim>\<open>internal/config\<close>): the environment is the function \<open>getenv\<close>, which
  returns the empty string for an unset variable as \<^verbatim>\<open>os.Getenv\<close> does; \<open>isDir\<close> and \<open>cwd\<close> are what the file
  system says of the cgroup override (see \<open>AttachPath\<close>).
\<close>

datatype Mode = ModeDetect | ModeDefend

fun mode_string :: "Mode \<Rightarrow> string" where
  "mode_string ModeDetect = ''detect''"
| "mode_string ModeDefend = ''defend''"

record config =
  cf_Mode :: Mode
  cf_StepSummaryPath :: string
  cf_AllowedHosts :: string
  cf_AllowedIPs :: string
  cf_IgnoredIPNets :: string
  cf_NoDefaultIgnoredNets :: bool
  cf_AllowedDomains :: "string list"
  cf_LogLevel :: string
  cf_EventsLogPath :: string
  cf_TelemetrySummaryPath :: string
  cf_AgentStatusPath :: string
  cf_FeatureGates :: "(string \<times> string) list"
  cf_DetectProfile :: string
  cf_CgroupAttachPath :: string
  cf_SigningKey :: string
  cf_RunnerHasIPv6 :: bool
  cf_NoResolverAutoAllow :: bool

datatype config_error =
    InvalidMode string
  | EmptyAllowlist
  | PolicyInvalid policy_error
  | InvalidProfile string
  | CgroupInvalid cgroup_error

section \<open>Feature gates\<close>

definition parse_gate :: "(string \<Rightarrow> string) \<Rightarrow> string \<Rightarrow> (string \<times> string) list \<Rightarrow> (string \<times> string) list" where
  "parse_gate ul part0 out = (let part = TrimSpace part0 in if part = [] then out
     else (case Cut part (CHR ''='') of None \<Rightarrow> out
       | Some (k0, v0) \<Rightarrow> let k = TrimSpace k0; v = TrimSpace v0 in
           if k = [] \<or> v = [] then out else AList.update (toLower ul k) v out))"

definition ParseFeatureGates :: "(string \<Rightarrow> string) \<Rightarrow> string \<Rightarrow> (string \<times> string) list" where
  "ParseFeatureGates ul raw0 = (let raw = TrimSpace raw0 in
     if raw = [] then [] else fold (parse_gate ul) (splitOn CHR '','' raw) [])"

definition FeatureGateEnabled :: "(string \<Rightarrow> string) \<Rightarrow> (string \<times> string) list \<Rightarrow> string \<Rightarrow> bool" where
  "FeatureGateEnabled ul m key = (if m = [] then False
     else (case map_of m (toLower ul (TrimSpace key)) of None \<Rightarrow> False
       | Some v \<Rightarrow> toLower ul (TrimSpace v) \<in> {''1'', ''true'', ''yes'', ''on''}))"

definition enhanced_gates :: "string list" where
  "enhanced_gates = [''proc_tree'', ''tls_sni'', ''fs_events'']"

text \<open>The gates an enhanced profile adds; \<open>None\<close> is Go's nil map.\<close>

definition mergeEnhancedFeatureGates :: "(string \<Rightarrow> string) \<Rightarrow> string \<Rightarrow> (string \<times> string) list option \<Rightarrow> (string \<times> string) list" where
  "mergeEnhancedFeatureGates ul profile gates0 = (let gates = (case gates0 of None \<Rightarrow> [] | Some g \<Rightarrow> g) in
     if toLower ul (TrimSpace profile) \<noteq> ''enhanced'' then gates
     else fold (\<lambda>key g. if map_of g key = None then AList.update key ''1'' g else g) enhanced_gates gates)"

section \<open>Reading the environment\<close>

definition envBoolTrue :: "(string \<Rightarrow> string) \<Rightarrow> string \<Rightarrow> bool" where
  "envBoolTrue getenv key = (let v = TrimSpace (getenv key) in
     EqualFold v ''true'' \<or> v = ''1'' \<or> EqualFold v ''yes'' \<or> EqualFold v ''on'')"

definition defaultUnderWorkspace :: "(string \<Rightarrow> string) \<Rightarrow> string \<Rightarrow> string" where
  "defaultUnderWorkspace getenv rel = (let ws = TrimSpace (getenv ''GITHUB_WORKSPACE'') in
     if ws = [] then rel else Join [ws, rel])"

definition path_or_default :: "(string \<Rightarrow> string) \<Rightarrow> string \<Rightarrow> string \<Rightarrow> string" where
  "path_or_default getenv key rel = (let p = TrimSpace (getenv key) in
     if p = [] then defaultUnderWorkspace getenv rel else p)"

definition ResolveDetectProfile :: "(string \<Rightarrow> string) \<Rightarrow> string \<Rightarrow> string \<Rightarrow> config_error + string" where
  "ResolveDetectProfile ul flagValue envValue =
     (let pick = (if TrimSpace flagValue = [] then TrimSpace envValue else TrimSpace flagValue);
        normalized = (if toLower ul pick = [] then ''standard'' else toLower ul pick) in
      if normalized \<noteq> ''standard'' \<and> normalized \<noteq> ''enhanced'' then Inl (InvalidProfile pick) else Inr normalized)"

definition LoadFromEnv :: "(string \<Rightarrow> string) \<Rightarrow> (string \<Rightarrow> string) \<Rightarrow> (string \<Rightarrow> bool option) \<Rightarrow> string option \<Rightarrow>
    config_error + config" where
  "LoadFromEnv ul getenv isDir cwd = (let raw = TrimSpace (getenv ''CI_GUARD_MODE'');
     rawLower = (if toLower ul raw = [] then ''detect'' else toLower ul raw) in
     if rawLower \<noteq> ''detect'' \<and> rawLower \<noteq> ''defend'' then Inl (InvalidMode raw)
     else let mode = (if rawLower = ''defend'' then ModeDefend else ModeDetect);
       domains = NormalizeDomainsFromRaw ul (getenv ''COLDSTEP_ALLOWED_DOMAINS'') in
     if mode = ModeDefend \<and> domains = [] then Inl EmptyAllowlist
     else let hosts = getenv ''COLDSTEP_ALLOWED_HOSTS''; ipText = getenv ''COLDSTEP_ALLOWED_IPS'';
       ignoredText = TrimSpace (getenv ''COLDSTEP_IGNORED_IP_NETS'');
       noDefault = envBoolTrue getenv ''COLDSTEP_NO_DEFAULT_IGNORED_NETS'' in
     (case BuildPolicyEx ul hosts ipText ignoredText (\<not> noDefault) of Inl e \<Rightarrow> Inl (PolicyInvalid e)
      | Inr _ \<Rightarrow>
     let logLevel = (if TrimSpace (getenv ''COLDSTEP_LOG_LEVEL'') = [] then ''info'' else TrimSpace (getenv ''COLDSTEP_LOG_LEVEL'')) in
     (case ResolveDetectProfile ul [] (getenv ''COLDSTEP_DETECT_PROFILE'') of Inl e \<Rightarrow> Inl e
      | Inr profile \<Rightarrow>
     let gates = mergeEnhancedFeatureGates ul profile (Some (ParseFeatureGates ul (getenv ''COLDSTEP_FEATURE_GATES''))) in
     (case AttachPath isDir cwd (getenv ''COLDSTEP_CGROUP_PATH'') of Inl e \<Rightarrow> Inl (CgroupInvalid e)
      | Inr cgPath \<Rightarrow> Inr \<lparr>cf_Mode = mode, cf_StepSummaryPath = getenv ''GITHUB_STEP_SUMMARY'', cf_AllowedHosts = hosts,
          cf_AllowedIPs = ipText, cf_IgnoredIPNets = ignoredText, cf_NoDefaultIgnoredNets = noDefault,
          cf_AllowedDomains = domains, cf_LogLevel = logLevel,
          cf_EventsLogPath = path_or_default getenv ''COLDSTEP_EVENTS_LOG'' ''.coldstep-events.jsonl'',
          cf_TelemetrySummaryPath = path_or_default getenv ''COLDSTEP_TELEMETRY_JSON'' ''.coldstep-telemetry.json'',
          cf_AgentStatusPath = path_or_default getenv ''COLDSTEP_AGENT_STATUS'' ''.coldstep-ready.json'',
          cf_FeatureGates = gates, cf_DetectProfile = profile, cf_CgroupAttachPath = cgPath,
          cf_SigningKey = TrimSpace (getenv ''COLDSTEP_SIGNING_KEY''),
          cf_RunnerHasIPv6 = envBoolTrue getenv ''COLDSTEP_RUNNER_HAS_IPV6'',
          cf_NoResolverAutoAllow = envBoolTrue getenv ''COLDSTEP_NO_RESOLVER_AUTOALLOW''\<rparr>))))"

section \<open>Derived settings\<close>

definition config_policy :: "(string \<Rightarrow> string) \<Rightarrow> config \<Rightarrow> policy_error + policy" where
  "config_policy ul c = BuildPolicyEx ul (cf_AllowedHosts c) (cf_AllowedIPs c) (cf_IgnoredIPNets c) (\<not> cf_NoDefaultIgnoredNets c)"

definition PublicMode :: "config \<Rightarrow> string" where
  "PublicMode c = mode_string (cf_Mode c)"

record ModeConfig =
  mc_Defend :: bool
  mc_Detect :: bool
  mc_AllowlistEnforced :: bool
  mc_DenyEmitted :: bool
  mc_DeferReadiness :: bool
  mc_ResolverAutoAllow :: bool

definition modeConfig :: "config \<Rightarrow> ModeConfig" where
  "modeConfig c = (let defend = cf_Mode c = ModeDefend in
     \<lparr>mc_Defend = defend, mc_Detect = \<not> defend, mc_AllowlistEnforced = defend, mc_DenyEmitted = defend,
      mc_DeferReadiness = defend, mc_ResolverAutoAllow = defend \<and> \<not> cf_NoResolverAutoAllow c\<rparr>)"

section \<open>Facts\<close>

lemma ResolveDetectProfile_ok: "ResolveDetectProfile ul f e = Inr p \<Longrightarrow> p = ''standard'' \<or> p = ''enhanced''"
  by (auto simp: ResolveDetectProfile_def Let_def split: if_splits)

lemma profile_flag_wins: "TrimSpace f \<noteq> [] \<Longrightarrow> ResolveDetectProfile ul f e = ResolveDetectProfile ul f e'"
  by (simp add: ResolveDetectProfile_def)

lemma fold_defaults:
  "map_of (fold (\<lambda>key g. if map_of g key = None then AList.update key v g else g) ks g) k =
     (case map_of g k of Some x \<Rightarrow> Some x | None \<Rightarrow> if k \<in> set ks then Some v else None)"
  by (induction ks arbitrary: g) (auto simp: update_conv' split: option.splits)

lemma toLower_enhanced: "toLower ul (TrimSpace ''enhanced'') = ''enhanced''" "toLower ul (TrimSpace ''standard'') = ''standard''"
  by code_simp+

lemma merged_gates:
  "map_of (mergeEnhancedFeatureGates ul ''enhanced'' (Some g)) k =
     (case map_of g k of Some x \<Rightarrow> Some x | None \<Rightarrow> if k \<in> set enhanced_gates then Some ''1'' else None)"
  by (simp add: mergeEnhancedFeatureGates_def toLower_enhanced fold_defaults)

lemma path_or_default_nonempty: "rel \<noteq> [] \<Longrightarrow> path_or_default getenv key rel \<noteq> []"
  by (simp add: path_or_default_def defaultUnderWorkspace_def Let_def Join_nonempty)

lemma LoadFromEnv_fields:
  assumes "LoadFromEnv ul getenv isDir cwd = Inr c"
  shows "config_policy ul c = BuildPolicyEx ul (getenv ''COLDSTEP_ALLOWED_HOSTS'') (getenv ''COLDSTEP_ALLOWED_IPS'')
      (TrimSpace (getenv ''COLDSTEP_IGNORED_IP_NETS'')) (\<not> envBoolTrue getenv ''COLDSTEP_NO_DEFAULT_IGNORED_NETS'')"
    and "\<exists>p. config_policy ul c = Inr p"
    and "cf_AllowedDomains c = NormalizeDomainsFromRaw ul (getenv ''COLDSTEP_ALLOWED_DOMAINS'')"
    and "cf_Mode c = ModeDefend \<Longrightarrow> cf_AllowedDomains c \<noteq> []"
    and "ResolveDetectProfile ul [] (getenv ''COLDSTEP_DETECT_PROFILE'') = Inr (cf_DetectProfile c)"
    and "cf_FeatureGates c = mergeEnhancedFeatureGates ul (cf_DetectProfile c)
      (Some (ParseFeatureGates ul (getenv ''COLDSTEP_FEATURE_GATES'')))"
    and "cf_EventsLogPath c = path_or_default getenv ''COLDSTEP_EVENTS_LOG'' ''.coldstep-events.jsonl''"
    and "cf_AgentStatusPath c = path_or_default getenv ''COLDSTEP_AGENT_STATUS'' ''.coldstep-ready.json''"
  using assms by (auto simp: LoadFromEnv_def config_policy_def Let_def split: if_splits sum.splits)

text \<open>C29. A configuration that loads can be used without further checks: its mode, its profile and its policy are valid,
  defend mode has at least one domain, and an enhanced profile has its three gates unless the operator set them.\<close>

theorem loaded_config_usable:
  assumes "LoadFromEnv ul getenv isDir cwd = Inr c"
  shows "(\<exists>p. config_policy ul c = Inr p) \<and> (mc_Defend (modeConfig c) \<longrightarrow> cf_AllowedDomains c \<noteq> []) \<and>
    cf_DetectProfile c \<in> {''standard'', ''enhanced''} \<and>
    (cf_DetectProfile c = ''enhanced'' \<longrightarrow> (\<forall>k \<in> set enhanced_gates. map_of (cf_FeatureGates c) k \<noteq> None)) \<and>
    cf_EventsLogPath c \<noteq> [] \<and> cf_AgentStatusPath c \<noteq> []"
  using LoadFromEnv_fields [OF assms] ResolveDetectProfile_ok [OF LoadFromEnv_fields(5) [OF assms]]
  by (auto simp: modeConfig_def Let_def path_or_default_nonempty merged_gates split: option.splits)

definition demo_getenv :: "string \<Rightarrow> string" where
  "demo_getenv k = (if k = ''CI_GUARD_MODE'' then '' Defend'' else if k = ''COLDSTEP_ALLOWED_DOMAINS'' then ''github.com''
     else if k = ''COLDSTEP_DETECT_PROFILE'' then ''enhanced'' else if k = ''COLDSTEP_FEATURE_GATES'' then ''tls_sni=0'' else [])"

theorem loaded_config_usable_witness:
  "\<exists>c. LoadFromEnv (\<lambda>s. s) demo_getenv (\<lambda>_. None) None = Inr c \<and> cf_AllowedDomains c \<noteq> [] \<and>
     map_of (cf_FeatureGates c) ''proc_tree'' \<noteq> None"
proof -
  have "case LoadFromEnv (\<lambda>s. s) demo_getenv (\<lambda>_. None) None of Inl e \<Rightarrow> False
      | Inr c \<Rightarrow> cf_Mode c = ModeDefend \<and> cf_DetectProfile c = ''enhanced''"
    by code_simp
  then obtain c where c: "LoadFromEnv (\<lambda>s. s) demo_getenv (\<lambda>_. None) None = Inr c" "cf_Mode c = ModeDefend" "cf_DetectProfile c = ''enhanced''"
    by (auto split: sum.splits)
  then show ?thesis
    using loaded_config_usable [OF c(1)] by (auto simp: modeConfig_def Let_def enhanced_gates_def)
qed

end
