(* ===== verification/Flags.thy ===== *)
theory Flags
  imports Config
begin

text \<open>
  Command lines as the \<^verbatim>\<open>flag\<close> package reads them, the conversions of \<^verbatim>\<open>strconv\<close> it uses, and the flag sets of the
  subcommands \<^verbatim>\<open>start\<close>, \<^verbatim>\<open>stop\<close>, \<^verbatim>\<open>diff\<close> and \<^verbatim>\<open>assert-integrity\<close>
  (\<^verbatim>\<open>internal/actioncli/main.go\<close>, \<^verbatim>\<open>report_markdown.go\<close>).
\<close>

section \<open>Conversions\<close>

definition ParseBool :: "string \<Rightarrow> bool option" where
  "ParseBool s = (if s \<in> set [''1'', ''t'', ''T'', ''true'', ''TRUE'', ''True''] then Some True
     else if s \<in> set [''0'', ''f'', ''F'', ''false'', ''FALSE'', ''False''] then Some False else None)"

text \<open>The digit of a character in bases up to 36.\<close>

definition any_digit :: "char \<Rightarrow> nat option" where
  "any_digit c = (if is_digit c then Some (digit_val c)
     else let l = lower_ascii c in if is_lower l then Some ((of_char l :: nat) - 97 + 10) else None)"

fun digits_value :: "nat \<Rightarrow> string \<Rightarrow> nat \<Rightarrow> nat option" where
  "digits_value base [] acc = Some acc"
| "digits_value base (c # cs) acc = (if c = CHR ''_'' then digits_value base cs acc
     else (case any_digit c of None \<Rightarrow> None
       | Some d \<Rightarrow> if d < base then digits_value base cs (acc * base + d) else None))"

text \<open>Underscores must stand between digits or after a base prefix; \<open>prev\<close> is the last thing seen: a digit or prefix,
  an underscore, or something else.\<close>

datatype seen_char = AtStart | SawDigit | SawUnderscore | SawOther

fun underscores_ok :: "bool \<Rightarrow> seen_char \<Rightarrow> string \<Rightarrow> bool" where
  "underscores_ok hex prev [] = (prev \<noteq> SawUnderscore)"
| "underscores_ok hex prev (c # cs) =
     (if is_digit c \<or> hex \<and> CHR ''a'' \<le> lower_ascii c \<and> lower_ascii c \<le> CHR ''f'' then underscores_ok hex SawDigit cs
      else if c = CHR ''_'' then prev = SawDigit \<and> underscores_ok hex SawUnderscore cs
      else prev \<noteq> SawUnderscore \<and> underscores_ok hex SawOther cs)"

definition underscoreOK :: "string \<Rightarrow> bool" where
  "underscoreOK s0 = (let s = (if s0 \<noteq> [] \<and> hd s0 \<in> {CHR ''-'', CHR ''+''} then tl s0 else s0) in
     if 2 \<le> length s \<and> hd s = CHR ''0'' \<and> lower_ascii (s ! 1) \<in> {CHR ''b'', CHR ''o'', CHR ''x''}
     then underscores_ok (lower_ascii (s ! 1) = CHR ''x'') SawDigit (drop 2 s)
     else underscores_ok False AtStart s)"

text \<open>The base a literal announces, and its digits.\<close>

definition literal_base :: "string \<Rightarrow> nat \<times> string" where
  "literal_base s = (if hd s \<noteq> CHR ''0'' then (10, s)
     else if 3 \<le> length s \<and> lower_ascii (s ! 1) = CHR ''b'' then (2, drop 2 s)
     else if 3 \<le> length s \<and> lower_ascii (s ! 1) = CHR ''o'' then (8, drop 2 s)
     else if 3 \<le> length s \<and> lower_ascii (s ! 1) = CHR ''x'' then (16, drop 2 s)
     else (8, tl s))"

text \<open>\<^verbatim>\<open>strconv.ParseInt\<close> with base 0 and 64 bits.\<close>

definition ParseInt0 :: "string \<Rightarrow> int option" where
  "ParseInt0 s0 = (if s0 = [] then None
     else let neg = hd s0 = CHR ''-''; s = (if hd s0 \<in> {CHR ''-'', CHR ''+''} then tl s0 else s0) in
       if s = [] then None
       else (case literal_base s of (base, ds) \<Rightarrow> (case digits_value base ds 0 of None \<Rightarrow> None
         | Some n \<Rightarrow>
           if CHR ''_'' \<in> set s \<and> \<not> underscoreOK s then None
           else if neg then (if n \<le> 2 ^ 63 then Some (- int n) else None)
           else (if n < 2 ^ 63 then Some (int n) else None))))"

section \<open>Flag sets\<close>

datatype flag_kind = StringFlag | BoolFlag | IntFlag

datatype flag_error = BadSyntax string | NotDefined string | HelpRequested | BadValue string | MissingValue string

definition value_ok :: "flag_kind \<Rightarrow> string \<Rightarrow> bool" where
  "value_ok k v = (case k of StringFlag \<Rightarrow> True | BoolFlag \<Rightarrow> ParseBool v \<noteq> None | IntFlag \<Rightarrow> ParseInt0 v \<noteq> None)"

text \<open>The name of a flag argument after its one or two dashes, with the value after an equals sign.\<close>

definition flag_name :: "string \<Rightarrow> string \<times> string option" where
  "flag_name body = (case Cut (tl body) (CHR ''='') of None \<Rightarrow> (body, None) | Some (n, v) \<Rightarrow> (hd body # n, Some v))"

definition dashes :: "string \<Rightarrow> nat" where
  "dashes s = (if 2 \<le> length s \<and> hd s = CHR ''-'' then (if s ! 1 = CHR ''-'' then 2 else 1) else 0)"

text \<open>\<^verbatim>\<open>FlagSet.Parse\<close>: the settings in order. Parsing ends at the first argument that is no flag, or after \<^verbatim>\<open>--\<close>.\<close>

definition with_setting :: "string \<Rightarrow> flag_kind \<Rightarrow> string \<Rightarrow> flag_error + (string \<times> string) list \<Rightarrow> flag_error + (string \<times> string) list" where
  "with_setting name k v r = (if value_ok k v then (case r of Inl e \<Rightarrow> Inl e | Inr fs \<Rightarrow> Inr ((name, v) # fs)) else Inl (BadValue name))"

fun flag_parse :: "(string \<times> flag_kind) list \<Rightarrow> string list \<Rightarrow> flag_error + (string \<times> string) list" where
  "flag_parse defs [] = Inr []"
| "flag_parse defs (s # args) = (let n = dashes s; body = drop n s in
     if n = 0 \<or> n = 2 \<and> body = [] then Inr []
     else if body = [] \<or> hd body \<in> {CHR ''-'', CHR ''=''} then Inl (BadSyntax s)
     else let name = fst (flag_name body) in
       (case map_of defs name of
         None \<Rightarrow> Inl (if name = ''help'' \<or> name = ''h'' then HelpRequested else NotDefined name)
       | Some k \<Rightarrow> (case snd (flag_name body) of
           Some v \<Rightarrow> with_setting name k v (flag_parse defs args)
         | None \<Rightarrow> if k = BoolFlag then with_setting name k ''true'' (flag_parse defs args)
             else (case args of [] \<Rightarrow> Inl (MissingValue name) | v # rest \<Rightarrow> with_setting name k v (flag_parse defs rest)))))"

text \<open>The last setting of a flag wins.\<close>

definition setting :: "(string \<times> string) list \<Rightarrow> string \<Rightarrow> string \<Rightarrow> string" where
  "setting fs name def = (case map_of (rev fs) name of None \<Rightarrow> def | Some v \<Rightarrow> v)"

definition bool_setting :: "(string \<times> string) list \<Rightarrow> string \<Rightarrow> bool \<Rightarrow> bool" where
  "bool_setting fs name def = (case map_of (rev fs) name of None \<Rightarrow> def | Some v \<Rightarrow> ParseBool v = Some True)"

definition int_setting :: "(string \<times> string) list \<Rightarrow> string \<Rightarrow> int \<Rightarrow> int" where
  "int_setting fs name def = (case map_of (rev fs) name of None \<Rightarrow> def
     | Some v \<Rightarrow> (case ParseInt0 v of None \<Rightarrow> def | Some i \<Rightarrow> i))"

section \<open>The subcommands\<close>

record startConfig =
  sc_Mode :: string
  sc_Allow :: string
  sc_AllowFile :: string
  sc_NoDefaultIgnoredNets :: bool
  sc_LogLevel :: string
  sc_DetectProfile :: string
  sc_ReleasePath :: string
  sc_FailOnError :: bool
  sc_ReadyTimeoutSeconds :: int
  sc_SmokeTestEgress :: bool
  sc_IoUringDisable :: bool
  sc_SigningKey :: string
  sc_Report :: string

definition start_flags :: "(string \<times> flag_kind) list" where
  "start_flags = [(''mode'', StringFlag), (''allow'', StringFlag), (''allow-file'', StringFlag),
     (''no-default-ignored-nets'', BoolFlag), (''log-level'', StringFlag), (''detect-profile'', StringFlag),
     (''release-path'', StringFlag), (''fail-on-error'', BoolFlag), (''ready-timeout-seconds'', IntFlag),
     (''smoke-test-egress'', BoolFlag), (''io-uring-disable'', BoolFlag), (''signing-key'', StringFlag), (''report'', StringFlag)]"

definition parseStartFlags :: "string list \<Rightarrow> flag_error + startConfig" where
  "parseStartFlags args = (case flag_parse start_flags args of Inl e \<Rightarrow> Inl e
     | Inr fs \<Rightarrow> Inr \<lparr>sc_Mode = setting fs ''mode'' ''detect'', sc_Allow = setting fs ''allow'' [],
         sc_AllowFile = setting fs ''allow-file'' [], sc_NoDefaultIgnoredNets = bool_setting fs ''no-default-ignored-nets'' False,
         sc_LogLevel = setting fs ''log-level'' ''info'', sc_DetectProfile = setting fs ''detect-profile'' [],
         sc_ReleasePath = setting fs ''release-path'' [], sc_FailOnError = bool_setting fs ''fail-on-error'' False,
         sc_ReadyTimeoutSeconds = int_setting fs ''ready-timeout-seconds'' 1500,
         sc_SmokeTestEgress = bool_setting fs ''smoke-test-egress'' False,
         sc_IoUringDisable = bool_setting fs ''io-uring-disable'' True, sc_SigningKey = setting fs ''signing-key'' [],
         sc_Report = setting fs ''report'' ''job-summary''\<rparr>)"

record stopConfig =
  tc_FailOnError :: bool
  tc_Report :: string
  tc_GithubToken :: string
  tc_Strict :: bool
  tc_DetectProfile :: string
  tc_DigestOutput :: string

definition stop_flags :: "(string \<times> flag_kind) list" where
  "stop_flags = [(''fail-on-error'', BoolFlag), (''report'', StringFlag), (''github-token'', StringFlag), (''strict'', BoolFlag),
     (''detect-profile'', StringFlag), (''digest-output'', StringFlag)]"

definition getenvDefault :: "(string \<Rightarrow> string) \<Rightarrow> string \<Rightarrow> string \<Rightarrow> string" where
  "getenvDefault getenv k def = (let v = TrimSpace (getenv k) in if v = [] then def else v)"

definition parseStopFlags :: "(string \<Rightarrow> string) \<Rightarrow> string list \<Rightarrow> flag_error + stopConfig" where
  "parseStopFlags getenv args = (case flag_parse stop_flags args of Inl e \<Rightarrow> Inl e
     | Inr fs \<Rightarrow> Inr \<lparr>tc_FailOnError = bool_setting fs ''fail-on-error'' False, tc_Report = setting fs ''report'' ''job-summary'',
         tc_GithubToken = setting fs ''github-token'' [], tc_Strict = bool_setting fs ''strict'' False,
         tc_DetectProfile = setting fs ''detect-profile'' [],
         tc_DigestOutput = setting fs ''digest-output'' (getenvDefault getenv ''COLDSTEP_DIGEST_OUTPUT'' [])\<rparr>)"

section \<open>Facts\<close>

text \<open>What a flag set accepts is defined in it and has a value of its kind.\<close>

lemma with_setting_ok:
  "with_setting name k v r = Inr fs \<longleftrightarrow> value_ok k v \<and> (\<exists>fs'. r = Inr fs' \<and> fs = (name, v) # fs')"
  by (auto simp: with_setting_def split: sum.splits)

definition settings_ok :: "(string \<times> flag_kind) list \<Rightarrow> (string \<times> string) list \<Rightarrow> bool" where
  "settings_ok defs fs \<longleftrightarrow> list_all (\<lambda>(name, v). case map_of defs name of None \<Rightarrow> False | Some k \<Rightarrow> value_ok k v) fs"

lemma flag_parse_ok: "flag_parse defs args = Inr fs \<Longrightarrow> settings_ok defs fs"
proof (induction defs args arbitrary: fs rule: flag_parse.induct)
  case (2 defs s args)
  let ?body = "drop (dashes s) s"
  let ?name = "fst (flag_name ?body)"
  show ?case
  proof (cases "dashes s = 0 \<or> dashes s = 2 \<and> ?body = []")
    case True
    then show ?thesis
      using "2.prems" by (simp add: settings_ok_def Let_def)
  next
    case False
    note nd = this
    have ok: "\<not> (?body = [] \<or> hd ?body \<in> {CHR ''-'', CHR ''=''})"
    proof
      assume "?body = [] \<or> hd ?body \<in> {CHR ''-'', CHR ''=''}"
      then show False
        using "2.prems" nd by (simp only: flag_parse.simps Let_def if_True if_False) simp
    qed
    obtain k where k: "map_of defs ?name = Some k"
      using "2.prems" nd ok by (cases "map_of defs ?name") (simp_all only: flag_parse.simps Let_def if_False option.case, simp)
    note IH = "2.IH" [OF refl refl nd ok refl k]
    have r: "(case snd (flag_name ?body) of Some v \<Rightarrow> with_setting ?name k v (flag_parse defs args)
         | None \<Rightarrow> if k = BoolFlag then with_setting ?name k ''true'' (flag_parse defs args)
             else (case args of [] \<Rightarrow> Inl (MissingValue ?name) | v # rest \<Rightarrow> with_setting ?name k v (flag_parse defs rest))) = Inr fs"
      using "2.prems" nd ok k by (simp only: flag_parse.simps Let_def if_False option.case)
    have one: "settings_ok defs ((?name, v) # fs')" if "value_ok k v" "settings_ok defs fs'" for v fs'
      using that k by (simp add: settings_ok_def)
    show ?thesis
      using r IH one by (cases "snd (flag_name ?body)"; cases args) (auto simp: with_setting_ok split: if_splits)
  qed
qed (simp add: settings_ok_def)

end
