(* ===== verification/Json.thy ===== *)
theory Json
  imports Sanitize GoNet "HOL-Library.List_Lexorder" "HOL-Library.Char_ord"
begin

text \<open>
  The part of \<^verbatim>\<open>encoding/json\<close> the agent and its front end use: reading one value from a text
  (\<^verbatim>\<open>json.Unmarshal\<close> and a decoder with \<^verbatim>\<open>UseNumber\<close>, which keeps a number as its literal), and
  writing one compactly (\<^verbatim>\<open>json.Marshal\<close>, with its HTML escaping). A value is a tree; an object keeps its members
  in order, repeated names included, because the consumers decide what a repetition means.
\<close>

named_theorems json_simps \<open>computation rules of the JSON functions\<close>

datatype json = JNull | JBool bool | JNum string | JStr string | JArr "json list" | JObj "(string \<times> json) list"

section \<open>Reading\<close>

definition json_space :: "char \<Rightarrow> bool" where
  "json_space c \<longleftrightarrow> c = CHR '' '' \<or> c = CHR 0x09 \<or> c = CHR 0x0A \<or> c = CHR 0x0D"

definition skip_ws :: "string \<Rightarrow> string" where
  "skip_ws = dropWhile json_space"

definition getu4 :: "string \<Rightarrow> nat option" where
  "getu4 s = (case s of a # b # c # d # _ \<Rightarrow>
     (case (hex_val a, hex_val b, hex_val c, hex_val d) of
        (Some a, Some b, Some c, Some d) \<Rightarrow> Some (a * 4096 + b * 256 + c * 16 + d) | _ \<Rightarrow> None)
   | _ \<Rightarrow> None)"

definition surrogate :: "nat \<Rightarrow> bool" where
  "surrogate r \<longleftrightarrow> 0xD800 \<le> r \<and> r < 0xE000"

text \<open>The rune after an escape, and how many bytes after its four digits belong to it: a high surrogate takes the low one
  that follows, any other surrogate is U+FFFD.\<close>

definition escaped_rune :: "nat \<Rightarrow> string \<Rightarrow> nat \<times> nat" where
  "escaped_rune r rest = (if \<not> surrogate r then (r, 0)
     else (case rest of b # u # more1 \<Rightarrow>
        (case getu4 more1 of Some r2 \<Rightarrow>
           if b = CHR 0x5C \<and> u = CHR ''u'' \<and> r < 0xDC00 \<and> 0xDC00 \<le> r2 \<and> r2 < 0xE000
           then ((r - 0xD800) * 1024 + (r2 - 0xDC00) + 0x10000, 6) else (runeError, 0)
         | None \<Rightarrow> (runeError, 0))
      | _ \<Rightarrow> (runeError, 0)))"

definition simple_escape :: "char \<Rightarrow> char option" where
  "simple_escape e = map_of [(CHR 0x22, CHR 0x22), (CHR 0x5C, CHR 0x5C), (CHR ''/'', CHR ''/''), (CHR ''b'', CHR 0x08),
     (CHR ''f'', CHR 0x0C), (CHR ''n'', CHR 0x0A), (CHR ''r'', CHR 0x0D), (CHR ''t'', CHR 0x09)] e"

definition then_text :: "string \<Rightarrow> (string \<times> string) option \<Rightarrow> (string \<times> string) option" where
  "then_text p res = (case res of None \<Rightarrow> None | Some (t, rest) \<Rightarrow> Some (p @ t, rest))"

text \<open>The text of a string after its opening quote, and what follows the closing one.\<close>

function json_string :: "string \<Rightarrow> (string \<times> string) option" where
  "json_string [] = None"
| "json_string (c # cs) =
     (if c = CHR 0x22 then Some ([], cs)
      else if c = CHR 0x5C then (case cs of [] \<Rightarrow> None
        | e # es \<Rightarrow>
          if e = CHR ''u'' then (case getu4 es of None \<Rightarrow> None
            | Some r \<Rightarrow> (case escaped_rune r (drop 4 es) of (r', n) \<Rightarrow>
                then_text (of_codes (encode_rune r')) (json_string (drop (4 + n) es))))
          else (case simple_escape e of None \<Rightarrow> None | Some x \<Rightarrow> then_text [x] (json_string es)))
      else if (of_char c :: nat) < 0x20 then None
      else (case decode_rune (codes (take 4 (c # cs))) of (r, n) \<Rightarrow>
        then_text (of_codes (encode_rune r)) (json_string (drop (n - 1) cs))))"
  by pat_completeness auto
termination
  by (relation "measure length") auto

declare json_string.simps [simp del]

definition digits_end :: "string \<Rightarrow> string" where
  "digits_end = dropWhile is_digit"

text \<open>A number literal and what follows it.\<close>

definition json_fraction :: "string \<Rightarrow> string option" where
  "json_fraction r = (case r of c # r' \<Rightarrow>
     if c = CHR ''.'' then (if digits_end r' = r' then None else Some (digits_end r')) else Some r
   | [] \<Rightarrow> Some [])"

definition json_exponent :: "string \<Rightarrow> string option" where
  "json_exponent r = (case r of c # r' \<Rightarrow>
     if c = CHR ''e'' \<or> c = CHR ''E'' then
       (let r2 = (case r' of s # more1 \<Rightarrow> if s = CHR ''+'' \<or> s = CHR ''-'' then more1 else r' | [] \<Rightarrow> r') in
        if digits_end r2 = r2 then None else Some (digits_end r2))
     else Some r
   | [] \<Rightarrow> Some [])"

definition strip_minus :: "string \<Rightarrow> string" where
  "strip_minus s = (case s of c # r \<Rightarrow> if c = CHR ''-'' then r else s | [] \<Rightarrow> [])"

definition json_number :: "string \<Rightarrow> (string \<times> string) option" where
  "json_number s = (let r = strip_minus s; ds = takeWhile is_digit r in
     if ds = [] \<or> hd ds = CHR ''0'' \<and> length ds \<noteq> 1 then None
     else (case Option.bind (json_fraction (digits_end r)) json_exponent of None \<Rightarrow> None
       | Some rest \<Rightarrow> Some (take (length s - length rest) s, rest)))"

fun json_literal :: "string \<Rightarrow> (json \<times> string) option" where
  "json_literal s = (if HasPrefix s ''null'' then Some (JNull, drop 4 s)
     else if HasPrefix s ''true'' then Some (JBool True, drop 4 s)
     else if HasPrefix s ''false'' then Some (JBool False, drop 5 s)
     else map_option (apfst JNum) (json_number s))"

declare json_literal.simps [simp del]

lemma length_skip_ws [simp]: "length (skip_ws s) \<le> length s"
  by (simp add: skip_ws_def length_dropWhile_le)

lemma json_string_shorter: "json_string s = Some (t, r) \<Longrightarrow> length r < length s"
proof (induction s arbitrary: t rule: json_string.induct)
  case (2 c cs)
  show ?case
  proof (cases "c = CHR 0x22 \<or> c = CHR 0x5C")
    case True
    then show ?thesis
      using 2 by (fastforce simp: json_string.simps then_text_def split: if_splits list.splits option.splits prod.splits)
  next
    case False
    then show ?thesis
      using 2 by (fastforce simp: json_string.simps then_text_def split: if_splits option.splits prod.splits)
  qed
qed (simp add: json_string.simps)

definition is_char :: "char \<Rightarrow> string \<Rightarrow> string option" where
  "is_char c s = (case s of [] \<Rightarrow> None | x # xs \<Rightarrow> if x = c then Some xs else None)"

lemma is_char_Some [simp]: "is_char c s = Some r \<longleftrightarrow> s = c # r"
  by (cases s) (auto simp: is_char_def)

lemma is_char_Cons [simp]: "is_char c (x # xs) = (if x = c then Some xs else None)"
  by (simp add: is_char_def)

lemma skip_ws_Cons: "skip_ws s = c # r \<Longrightarrow> length r < length s"
  using length_skip_ws [of s] by simp

text \<open>One value, the elements after an opening bracket and the members after an opening brace, each with what follows;
  \<open>d\<close> is how much deeper arrays and objects may still nest. The comparisons of lengths always hold
  (\<open>json_shorter\<close>); they make the recursion visibly terminating.\<close>

function (sequential) json_value :: "nat \<Rightarrow> string \<Rightarrow> (json \<times> string) option"
  and json_elems :: "nat \<Rightarrow> string \<Rightarrow> (json list \<times> string) option"
  and json_members :: "nat \<Rightarrow> string \<Rightarrow> ((string \<times> json) list \<times> string) option" where
  "json_value d s = (case skip_ws s of [] \<Rightarrow> None
   | c # r \<Rightarrow>
     if c = CHR 0x22 then map_option (apfst JStr) (json_string r)
     else if c = CHR ''['' then
       (if d = 0 then None
        else (case is_char (CHR '']'') (skip_ws r) of Some r' \<Rightarrow> Some (JArr [], r')
          | None \<Rightarrow> map_option (apfst JArr) (json_elems (d - 1) r)))
     else if c = CHR ''{'' then
       (if d = 0 then None
        else (case is_char (CHR ''}'') (skip_ws r) of Some r' \<Rightarrow> Some (JObj [], r')
          | None \<Rightarrow> map_option (apfst JObj) (json_members (d - 1) r)))
     else json_literal (c # r))"
| "json_elems d s = (case json_value d s of None \<Rightarrow> None
   | Some (v, r) \<Rightarrow>
     if \<not> length r < length s then None
     else (case skip_ws r of [] \<Rightarrow> None
       | c # r' \<Rightarrow> if c = CHR '']'' then Some ([v], r')
         else if c = CHR '','' then map_option (apfst ((#) v)) (json_elems d r') else None))"
| "json_members d s = (case is_char (CHR 0x22) (skip_ws s) of None \<Rightarrow> None
   | Some q \<Rightarrow> (case json_string q of None \<Rightarrow> None
     | Some (k, r1) \<Rightarrow> (case is_char (CHR '':'') (skip_ws r1) of None \<Rightarrow> None
       | Some r2 \<Rightarrow>
         if \<not> length r2 < length s then None
         else (case json_value d r2 of None \<Rightarrow> None
           | Some (v, r) \<Rightarrow>
             if \<not> length r < length s then None
             else (case skip_ws r of [] \<Rightarrow> None
               | c # r' \<Rightarrow> if c = CHR ''}'' then Some ([(k, v)], r')
                 else if c = CHR '','' then map_option (apfst ((#) (k, v))) (json_members d r') else None)))))"
  by pat_completeness auto

termination
  by (relation "measure (\<lambda>x. case x of Inl (d, s) \<Rightarrow> 2 * length s
      | Inr (Inl (d, s)) \<Rightarrow> 2 * length s + 1 | Inr (Inr (d, s)) \<Rightarrow> 2 * length s + 1)")
    (auto dest: skip_ws_Cons)

declare json_value.simps [simp del] json_elems.simps [simp del] json_members.simps [simp del]

lemma digits_end_shorter: "length (digits_end r) \<le> length r"
  by (simp add: digits_end_def length_dropWhile_le)

lemma json_fraction_shorter: "json_fraction r = Some r' \<Longrightarrow> length r' \<le> length r"
  using digits_end_shorter [of "tl r"] by (auto simp: json_fraction_def split: list.splits if_splits)

lemma json_exponent_shorter: "json_exponent r = Some r' \<Longrightarrow> length r' \<le> length r"
  using digits_end_shorter [of "tl r"] digits_end_shorter [of "tl (tl r)"]
  by (auto simp: json_exponent_def Let_def split: list.splits if_splits)

lemma json_number_shorter:
  assumes "json_number s = Some (t, r)"
  shows "length r < length s"
proof -
  let ?u = "strip_minus s"
  obtain f where u: "takeWhile is_digit ?u \<noteq> []" "json_fraction (digits_end ?u) = Some f" "json_exponent f = Some r"
    using assms unfolding json_number_def Let_def by (auto simp: bind_eq_Some_conv split: if_splits option.splits)
  have "length ?u = length (takeWhile is_digit ?u) + length (digits_end ?u)"
    unfolding digits_end_def by (metis length_append takeWhile_dropWhile_id)
  moreover have "length ?u \<le> length s" "0 < length (takeWhile is_digit ?u)"
    using u(1) by (auto simp: strip_minus_def split: list.splits)
  ultimately show ?thesis
    using json_fraction_shorter [OF u(2)] json_exponent_shorter [OF u(3)] by linarith
qed

lemma json_literal_shorter: "json_literal s = Some (v, r) \<Longrightarrow> length r < length s"
  by (auto simp: json_literal.simps HasPrefix_iff dest: json_number_shorter split: if_splits)

lemma json_shorter:
  "json_value d s = Some (v, r) \<Longrightarrow> length r < length s"
  "json_elems d s = Some (vs, r) \<Longrightarrow> length r < length s"
  "json_members d s = Some (ms, r) \<Longrightarrow> length r < length s"
proof (induction d s and d s and d s arbitrary: v r and vs r and ms r rule: json_value_json_elems_json_members.induct)
  case (1 d s)
  then show ?case
    by (subst (asm) json_value.simps)
      (fastforce dest!: skip_ws_Cons json_string_shorter json_literal_shorter split: list.splits if_splits option.splits)
next
  case (2 d s)
  obtain v r1 c r2 where *: "json_value d s = Some (v, r1)" "length r1 < length s" "skip_ws r1 = c # r2"
      "c = CHR '']'' \<and> r = r2 \<or> c = CHR '','' \<and> (\<exists>ws. json_elems d r2 = Some (ws, r))"
    using "2.prems" by (subst (asm) json_elems.simps) (auto split: list.splits if_splits option.splits)
  have "length r2 < length r1"
    by (rule skip_ws_Cons [OF *(3)])
  then show ?case
    using "2.IH"(2) [OF *(1) refl _ *(3)] *(2,4) by fastforce
next
  case (3 d s)
  obtain q k r1 r2 v r3 c r4 where *: "is_char CHR 0x22 (skip_ws s) = Some q" "json_string q = Some (k, r1)"
      "is_char CHR '':'' (skip_ws r1) = Some r2" "length r2 < length s" "json_value d r2 = Some (v, r3)" "length r3 < length s"
      "skip_ws r3 = c # r4" "c = CHR ''}'' \<and> r = r4 \<or> c = CHR '','' \<and> (\<exists>ws. json_members d r4 = Some (ws, r))"
    using "3.prems" by (subst (asm) json_members.simps) (auto simp del: is_char_Some split: list.splits if_splits option.splits)
  have "length r4 < length r3"
    by (rule skip_ws_Cons [OF *(7)])
  then show ?case
    using "3.IH"(2) [OF *(1,2) refl *(3) _ *(5) refl _ *(7)] *(4,6,8) by fastforce
qed

definition maxNestingDepth :: nat where "maxNestingDepth = 10000"

definition json_parse :: "string \<Rightarrow> json option" where
  "json_parse s = (case json_value maxNestingDepth s of None \<Rightarrow> None
     | Some (v, r) \<Rightarrow> if skip_ws r = [] then Some v else None)"

section \<open>Writing\<close>

text \<open>The bytes \<^verbatim>\<open>json.Marshal\<close> writes unchanged: printable ASCII but for the quote, the backslash and the three HTML
  characters.\<close>

definition htmlSafe :: "nat \<Rightarrow> bool" where
  "htmlSafe b \<longleftrightarrow> 0x20 \<le> b \<and> b \<notin> {0x22, 0x5C, 0x3C, 0x3E, 0x26}"

definition escape_ascii :: "nat \<Rightarrow> string" where
  "escape_ascii b = (if htmlSafe b then [char_of b]
     else if b = 0x22 \<or> b = 0x5C then [CHR 0x5C, char_of b]
     else if b = 0x08 then [CHR 0x5C, CHR ''b''] else if b = 0x0C then [CHR 0x5C, CHR ''f'']
     else if b = 0x0A then [CHR 0x5C, CHR ''n''] else if b = 0x0D then [CHR 0x5C, CHR ''r'']
     else if b = 0x09 then [CHR 0x5C, CHR ''t'']
     else CHR 0x5C # ''u00'' @ [hex_digit (b div 16), hex_digit (b mod 16)])"

definition escape_rune :: "nat \<Rightarrow> bool \<Rightarrow> string" where
  "escape_rune r bad = (if bad then CHR 0x5C # ''ufffd''
     else if r < 0x80 then escape_ascii r
     else if r = 0x2028 \<or> r = 0x2029 then CHR 0x5C # ''u202'' @ [hex_digit (r mod 16)]
     else of_codes (encode_rune r))"

function json_escape :: "nat list \<Rightarrow> string" where
  "json_escape s = (if s = [] then []
     else escape_rune (fst (decode_rune s)) (invalid_head s) @ json_escape (drop (snd (decode_rune s)) s))"
  by pat_completeness auto
termination
  by (relation "measure length") (use decode_width in auto)

declare json_escape.simps [simp del]

definition json_quote :: "string \<Rightarrow> string" where
  "json_quote s = CHR 0x22 # json_escape (codes s) @ [CHR 0x22]"

fun commas :: "string list \<Rightarrow> string" where
  "commas [] = []"
| "commas [x] = x"
| "commas (x # y # xs) = x @ CHR '','' # commas (y # xs)"

fun json_print :: "json \<Rightarrow> string" where
  "json_print JNull = ''null''"
| "json_print (JBool b) = (if b then ''true'' else ''false'')"
| "json_print (JNum n) = n"
| "json_print (JStr s) = json_quote s"
| "json_print (JArr vs) = CHR ''['' # commas (map json_print vs) @ '']''"
| "json_print (JObj ms) = CHR ''{'' # commas (map (\<lambda>(k, v). json_quote k @ CHR '':'' # json_print v) ms) @ ''}''"

section \<open>What was written is read back\<close>

lemma decode_ascii: "b < 0x80 \<Longrightarrow> decode_rune (b # t) = (b, 1)" "b < 0x80 \<Longrightarrow> encode_rune b = [b]"
  by (simp_all add: decode_rune_def encode_rune_def scalar_def)

lemma json_string_ascii:
  "htmlSafe b \<Longrightarrow> b < 0x80 \<Longrightarrow> json_string (char_of b # rest) = then_text [char_of b] (json_string rest)"
proof -
  assume b: "htmlSafe b" "b < 0x80"
  then have c: "(of_char (char_of b :: char) :: nat) = b"
    by simp
  moreover have "(of_char (CHR 0x22) :: nat) = 0x22" "(of_char (CHR 0x5C) :: nat) = 0x5C" "b \<noteq> 0x22" "b \<noteq> 0x5C"
    using b by (simp_all add: htmlSafe_def)
  ultimately have "char_of b \<noteq> CHR 0x22" "char_of b \<noteq> CHR 0x5C"
    by metis+
  moreover have "codes (take 4 (char_of b # rest)) = b # codes (take 3 rest)"
    using c by (simp add: codes_def)
  ultimately show ?thesis
    using b c by (simp add: json_string.simps decode_ascii htmlSafe_def of_codes_def)
qed

lemma json_string_u:
  "getu4 (u @ rest) = Some r \<Longrightarrow> length u = 4 \<Longrightarrow> \<not> surrogate r \<Longrightarrow>
   json_string (CHR 0x5C # CHR ''u'' # u @ rest) = then_text (of_codes (encode_rune r)) (json_string rest)"
  by (simp add: json_string.simps escaped_rune_def)

lemma hex_val_0 [simp]: "hex_val CHR ''0'' = Some 0" "hex_val CHR ''2'' = Some 2" "hex_val CHR ''f'' = Some 15" "hex_val CHR ''d'' = Some 13"
  by code_simp+

lemma json_string_simple:
  "simple_escape e = Some x \<Longrightarrow> json_string (CHR 0x5C # e # rest) = then_text [x] (json_string rest)"
proof -
  assume e: "simple_escape e = Some x"
  then have "e \<noteq> CHR ''u''"
    by (auto simp: simple_escape_def)
  then show ?thesis
    using e by (simp add: json_string.simps)
qed

lemma escape_chars: "char_of (0x22 :: nat) = CHR 0x22" "char_of (0x5C :: nat) = CHR 0x5C" "char_of (0x08 :: nat) = CHR 0x08"
  "char_of (0x0C :: nat) = CHR 0x0C" "char_of (0x0A :: nat) = CHR 0x0A" "char_of (0x0D :: nat) = CHR 0x0D" "char_of (0x09 :: nat) = CHR 0x09"
  by code_simp+

lemma escape_ascii_read:
  assumes "b < 0x80"
  shows "json_string (escape_ascii b @ rest) = then_text (of_codes (encode_rune b)) (json_string rest)"
proof -
  have e: "of_codes (encode_rune b) = [char_of b]"
    using assms by (simp add: decode_ascii of_codes_def)
  consider "htmlSafe b" | "b \<in> {0x22, 0x5C, 0x08, 0x0C, 0x0A, 0x0D, 0x09}"
    | "\<not> htmlSafe b" "b \<notin> {0x22, 0x5C, 0x08, 0x0C, 0x0A, 0x0D, 0x09}"
    by auto
  then show ?thesis
  proof cases
    case 1
    then show ?thesis
      using assms e by (simp add: escape_ascii_def json_string_ascii)
  next
    case 2
    then show ?thesis
      using e by (auto simp: escape_ascii_def htmlSafe_def escape_chars json_string_simple simple_escape_def)
  next
    case 3
    have "getu4 ([CHR ''0'', CHR ''0'', hex_digit (b div 16), hex_digit (b mod 16)] @ rest) = Some b"
      using assms by (simp add: getu4_def)
    then have "json_string (CHR 0x5C # CHR ''u'' # [CHR ''0'', CHR ''0'', hex_digit (b div 16), hex_digit (b mod 16)] @ rest) =
        then_text (of_codes (encode_rune b)) (json_string rest)"
      using assms by (intro json_string_u) (simp_all add: surrogate_def)
    moreover have "escape_ascii b = CHR 0x5C # CHR ''u'' # [CHR ''0'', CHR ''0'', hex_digit (b div 16), hex_digit (b mod 16)]"
      using 3 by (simp add: escape_ascii_def)
    ultimately show ?thesis
      by simp
  qed
qed

lemma codes_append [simp]: "codes (s @ t) = codes s @ codes t" "codes (c # t) = of_char c # codes t" "codes [] = []"
  by (simp_all add: codes_def)

lemma of_codes_append [simp]: "of_codes (s @ t) = of_codes s @ of_codes t" "of_codes [] = []"
  by (simp_all add: of_codes_def)

lemma take_codes: "codes (take n s) = take n (codes s)"
  by (simp add: codes_def take_map)

lemma encode_wide:
  assumes "scalar r" "0x80 \<le> r"
  shows "\<exists>b t. encode_rune r = b # t \<and> 0x80 \<le> b \<and> b < 256 \<and> length t \<le> 3 \<and> (\<forall>x \<in> set t. x < 256)"
  using assms encode_shape [of r] by (auto simp: encode_rune_def Let_def split: if_splits)

lemma json_string_wide:
  assumes "scalar r" "0x80 \<le> r"
  shows "json_string (of_codes (encode_rune r) @ rest) = then_text (of_codes (encode_rune r)) (json_string rest)"
proof -
  obtain b t where e: "encode_rune r = b # t" "0x80 \<le> b" "b < 256" "length t \<le> 3" "\<forall>x \<in> set t. x < 256"
    using encode_wide [OF assms] by blast
  have b: "(of_char (char_of b :: char) :: nat) = b"
    using e(3) by simp
  moreover have "(of_char (CHR 0x22) :: nat) = 0x22" "(of_char (CHR 0x5C) :: nat) = 0x5C" "b \<noteq> 0x22" "b \<noteq> 0x5C"
    using e(2) by simp_all
  ultimately have c: "char_of b \<noteq> CHR 0x22" "char_of b \<noteq> CHR 0x5C"
    by metis+
  have "codes (of_codes (encode_rune r)) = encode_rune r"
    using e by (simp add: codes_of_codes)
  then have "codes (take 4 (of_codes (encode_rune r) @ rest)) = encode_rune r @ codes (take (3 - length t) rest)"
    using e by (simp add: take_codes)
  then have d: "decode_rune (codes (take 4 (of_codes (encode_rune r) @ rest))) = (r, Suc (length t))"
    using decode_encode [OF assms(1)] e(1) by simp
  have "of_codes (encode_rune r) = char_of b # of_codes t"
    using e(1) by (simp add: of_codes_def)
  then show ?thesis
    using d b c e(2) by (simp add: json_string.simps)
qed

lemma escape_rune_read:
  assumes "bad \<longrightarrow> r = runeError" "\<not> bad \<longrightarrow> scalar r"
  shows "json_string (escape_rune r bad @ rest) = then_text (of_codes (encode_rune r)) (json_string rest)"
proof -
  have u: "json_string (CHR 0x5C # CHR ''u'' # [CHR ''2'', CHR ''0'', CHR ''2'', hex_digit (r mod 16)] @ rest) =
      then_text (of_codes (encode_rune r)) (json_string rest)" if "r = 0x2028 \<or> r = 0x2029"
    using that by (intro json_string_u) (auto simp: getu4_def surrogate_def)
  have bad: "json_string (CHR 0x5C # CHR ''u'' # ''fffd'' @ rest) = then_text (of_codes (encode_rune runeError)) (json_string rest)"
    by (intro json_string_u) (auto simp: getu4_def surrogate_def runeError_def)
  show ?thesis
    using assms u bad json_string_wide [of r rest] escape_ascii_read [of r rest] by (auto simp: escape_rune_def)
qed

lemma decode_bad_rune: "\<not> b < 0x80 \<Longrightarrow> (case decode_rune (b # t) of (r, n) \<Rightarrow> n = 1 \<longrightarrow> r = runeError)"
  unfolding decode_rune_def by (simp split: list.split)

lemma decode_bad: "s \<noteq> [] \<Longrightarrow> invalid_head s \<Longrightarrow> fst (decode_rune s) = runeError"
  using decode_bad_rune [of "hd s" "tl s"] by (auto simp: invalid_head_def split: prod.splits)

lemma json_escape_read:
  "json_string (json_escape s @ CHR 0x22 # rest) = Some (of_codes (concat (map encode_rune (runes s))), rest)"
proof (induction s rule: json_escape.induct)
  case (1 s)
  show ?case
  proof (cases "s = []")
    case True
    then show ?thesis
      by (simp add: json_escape.simps runes.simps json_string.simps)
  next
    case False
    then have "json_string (escape_rune (fst (decode_rune s)) (invalid_head s) @ r) =
        then_text (of_codes (encode_rune (fst (decode_rune s)))) (json_string r)" for r
      using decode_bad decode_valid by (intro escape_rune_read) auto
    then show ?thesis
      using 1 [OF False] False by (simp add: json_escape.simps [of s] runes.simps [of s] then_text_def)
  qed
qed

text \<open>A text as it comes back: every invalid byte has become U+FFFD.\<close>

definition repair :: "string \<Rightarrow> string" where
  "repair s = of_codes (concat (map encode_rune (runes (codes s))))"

definition wf_text :: "string \<Rightarrow> bool" where
  "wf_text s \<longleftrightarrow> ValidString (codes s)"

lemma repair_wf [simp]: "wf_text s \<Longrightarrow> repair s = s"
  using valid_runes [of "codes s"] by (simp add: repair_def wf_text_def)

lemma json_quote_read: "json_string (json_escape (codes s) @ CHR 0x22 # rest) = Some (repair s, rest)"
  by (simp add: json_escape_read repair_def)

text \<open>An integer as the writer prints it.\<close>

definition int_literal :: "string \<Rightarrow> bool" where
  "int_literal n \<longleftrightarrow> (let ds = strip_minus n in ds \<noteq> [] \<and> list_all is_digit ds \<and> (hd ds = CHR ''0'' \<longrightarrow> length ds = 1))"

text \<open>The values the writer produces: integer numbers, nesting within the limit.\<close>

fun wf_json :: "nat \<Rightarrow> json \<Rightarrow> bool" where
  "wf_json d (JNum n) = int_literal n"
| "wf_json d (JArr vs) = (d \<noteq> 0 \<and> list_all (wf_json (d - 1)) vs)"
| "wf_json d (JObj ms) = (d \<noteq> 0 \<and> list_all (\<lambda>(k, v). wf_json (d - 1) v) ms)"
| "wf_json d _ = True"

fun repair_json :: "json \<Rightarrow> json" where
  "repair_json (JStr s) = JStr (repair s)"
| "repair_json (JArr vs) = JArr (map repair_json vs)"
| "repair_json (JObj ms) = JObj (map (\<lambda>(k, v). (repair k, repair_json v)) ms)"
| "repair_json v = v"

text \<open>What may follow a value: nothing that would extend a number, and no blank.\<close>

definition stops :: "string \<Rightarrow> bool" where
  "stops r \<longleftrightarrow> r = [] \<or> hd r \<in> {CHR '','', CHR '']'', CHR ''}''}"

lemma digits_stop: "list_all is_digit ds \<Longrightarrow> stops r \<Longrightarrow> takeWhile is_digit (ds @ r) = ds \<and> digits_end (ds @ r) = r"
  by (cases r) (auto simp: stops_def digits_end_def list_all_iff is_digit_def dropWhile_append)

lemma json_number_literal: "int_literal n \<Longrightarrow> stops r \<Longrightarrow> json_number (n @ r) = Some (n, r)"
proof -
  assume n: "int_literal n" and r: "stops r"
  have m: "strip_minus (n @ r) = strip_minus n @ r"
    using n by (cases n) (auto simp: int_literal_def strip_minus_def Let_def)
  have "json_fraction r = Some r" "json_exponent r = Some r"
    using r by (cases r; auto simp: stops_def json_fraction_def json_exponent_def)+
  then show ?thesis
    using n digits_stop [of "strip_minus n" r] r m by (simp add: json_number_def int_literal_def Let_def)
qed

lemma int_literal_head: "int_literal n \<Longrightarrow> \<exists>c cs. n = c # cs \<and> (is_digit c \<or> c = CHR ''-'')"
  by (cases n) (auto simp: int_literal_def strip_minus_def Let_def split: if_splits)

lemma json_literal_number: "int_literal n \<Longrightarrow> stops r \<Longrightarrow> json_literal (n @ r) = Some (JNum n, r)"
  using int_literal_head [of n] json_number_literal [of n r]
  by (auto simp: json_literal.simps HasPrefix_iff is_digit_def)

lemma skip_ws_id [simp]: "\<not> json_space c \<Longrightarrow> skip_ws (c # r) = c # r" "skip_ws [] = []"
  by (simp_all add: skip_ws_def)

lemma not_space [simp]: "\<not> json_space CHR 0x22" "\<not> json_space CHR ''[''" "\<not> json_space CHR ''{''" "\<not> json_space CHR '']''"
  "\<not> json_space CHR ''}''" "\<not> json_space CHR '',''" "\<not> json_space CHR '':''" "\<not> json_space CHR ''n''" "\<not> json_space CHR ''t''" "\<not> json_space CHR ''f''"
  by (simp_all add: json_space_def)

lemma digit_not_space: "is_digit c \<Longrightarrow> \<not> json_space c"
  by (auto simp: is_digit_def json_space_def)

text \<open>Elements and members are read back when each of them is.\<close>

definition reads :: "nat \<Rightarrow> json \<Rightarrow> bool" where
  "reads d v \<longleftrightarrow> (\<forall>r. stops r \<longrightarrow> json_value d (json_print v @ r) = Some (repair_json v, r)) \<and> \<not> json_space (hd (json_print v)) \<and>
     json_print v \<noteq> [] \<and> hd (json_print v) \<noteq> CHR '']''"

lemma json_elems_read:
  "list_all (reads d) vs \<Longrightarrow> vs \<noteq> [] \<Longrightarrow> json_elems d (commas (map json_print vs) @ CHR '']'' # r) = Some (map repair_json vs, r)"
proof (induction vs rule: induct_list012)
  case (2 v)
  then show ?case
    by (simp add: json_elems.simps reads_def stops_def)
next
  case (3 v w vs)
  then have "json_value d (json_print v @ CHR '','' # s) = Some (repair_json v, CHR '','' # s)" for s
    by (simp add: reads_def stops_def)
  then show ?case
    using 3 by (subst json_elems.simps) (simp add: reads_def)
qed simp

lemma json_members_read:
  "list_all (\<lambda>(k, v). reads d v) ms \<Longrightarrow> ms \<noteq> [] \<Longrightarrow>
   json_members d (commas (map (\<lambda>(k, v). json_quote k @ CHR '':'' # json_print v) ms) @ CHR ''}'' # r) =
     Some (map (\<lambda>(k, v). (repair k, repair_json v)) ms, r)"
proof (induction ms rule: induct_list012)
  case (2 m)
  then show ?case
    by (cases m) (simp add: json_members.simps json_quote_def json_quote_read reads_def stops_def)
next
  case (3 m m' ms)
  obtain k v where m: "m = (k, v)"
    by (cases m)
  then have "json_value d (json_print v @ CHR '','' # s) = Some (repair_json v, CHR '','' # s)" for s
    using 3 by (simp add: reads_def stops_def)
  then show ?case
    using 3 m by (subst json_members.simps) (simp add: json_quote_def json_quote_read)
qed simp

lemma json_value_open:
  assumes "d \<noteq> 0" "body \<noteq> []" "\<not> json_space (hd body)"
  shows "hd body \<noteq> CHR '']'' \<Longrightarrow> json_elems (d - 1) body = Some (vs, r) \<Longrightarrow> json_value d (CHR ''['' # body) = Some (JArr vs, r)"
    and "hd body \<noteq> CHR ''}'' \<Longrightarrow> json_members (d - 1) body = Some (ms, r) \<Longrightarrow> json_value d (CHR ''{'' # body) = Some (JObj ms, r)"
  using assms by (cases body; simp add: json_value.simps)+

lemma json_value_empty:
  "d \<noteq> 0 \<Longrightarrow> json_value d (CHR ''['' # CHR '']'' # r) = Some (JArr [], r)"
  "d \<noteq> 0 \<Longrightarrow> json_value d (CHR ''{'' # CHR ''}'' # r) = Some (JObj [], r)"
  by (simp_all add: json_value.simps)

lemma commas_head: "xs \<noteq> [] \<Longrightarrow> hd xs \<noteq> [] \<Longrightarrow> commas xs \<noteq> [] \<and> hd (commas xs @ r) = hd (hd xs)"
  by (cases xs rule: commas.cases) auto

lemma wf_json_reads: "wf_json d v \<Longrightarrow> reads d v"
proof (induction d v rule: wf_json.induct)
  case (1 d n)
  obtain c cs where n: "n = c # cs" "is_digit c \<or> c = CHR ''-''"
    using int_literal_head 1 by fastforce
  have h: "c \<noteq> CHR 0x22" "c \<noteq> CHR ''[''" "c \<noteq> CHR ''{''" "c \<noteq> CHR '']''" "\<not> json_space c"
    using n(2) by (auto simp: is_digit_def json_space_def)
  then show ?case
    using 1 n json_literal_number [of n] by (simp add: reads_def json_value.simps)
next
  case (2 d vs)
  then have vs: "d \<noteq> 0" "list_all (reads (d - 1)) vs"
    by (auto simp: list_all_iff)
  have "json_value d (json_print (JArr vs) @ r) = Some (repair_json (JArr vs), r)" for r
  proof (cases vs)
    case (Cons v vs')
    then have "hd (map json_print vs) \<noteq> []" "\<not> json_space (hd (json_print v))" "hd (json_print v) \<noteq> CHR '']''"
      using vs(2) by (simp_all add: reads_def)
    then show ?thesis
      using vs Cons commas_head [of "map json_print vs" "CHR '']'' # r"] json_elems_read [OF vs(2)]
      by (auto simp del: json_print.simps simp add: json_print.simps(5) repair_json.simps intro!: json_value_open)
  qed (use vs in \<open>simp add: json_value_empty\<close>)
  then show ?case
    by (simp add: reads_def)
next
  case (3 d ms)
  then have ms: "d \<noteq> 0" "list_all (\<lambda>(k, v). reads (d - 1) v) ms"
    by (auto simp: list_all_iff)
  let ?f = "\<lambda>(k, v). json_quote k @ CHR '':'' # json_print v"
  have "json_value d (json_print (JObj ms) @ r) = Some (repair_json (JObj ms), r)" for r
  proof (cases ms)
    case (Cons m ms')
    then have "hd (map ?f ms) \<noteq> []" "hd (hd (map ?f ms)) = CHR 0x22"
      by (simp_all add: json_quote_def split: prod.splits)
    then show ?thesis
      using ms Cons commas_head [of "map ?f ms" "CHR ''}'' # r"] json_members_read [OF ms(2)]
      by (auto simp del: json_print.simps simp add: json_print.simps(6) intro!: json_value_open)
  qed (use ms in \<open>simp add: json_value_empty\<close>)
  then show ?case
    by (simp add: reads_def)
qed (auto simp: reads_def json_value.simps json_literal.simps HasPrefix_def json_quote_def json_quote_read)

lemma json_parse_print: "wf_json maxNestingDepth v \<Longrightarrow> json_parse (json_print v) = Some (repair_json v)"
  using wf_json_reads [of maxNestingDepth v] by (simp add: json_parse_def reads_def stops_def)

end
