(* ===== verification/Supervise.thy ===== *)
theory Supervise
  imports Flags Json
begin

text \<open>
  How the front end supervises the agent: the readiness status the agent writes
  (\<^verbatim>\<open>agent_linux_runutil.go\<close>) and how it is read, the waits for readiness and for exit
  (\<^verbatim>\<open>internal/actioncli/main.go\<close>), and the search for the agent's process below \<^verbatim>\<open>sudo\<close>
  (\<^verbatim>\<open>agent_pid_linux.go\<close>).

  Times are nanoseconds. A poll is what one round of a waiting loop saw; a wait over a list of polls is \<open>None\<close> when the
  list ends before the loop does.
\<close>

section \<open>Status file\<close>

definition maxReadyStatusJSONBytes :: nat where "maxReadyStatusJSONBytes = 524288"

text \<open>The four results of \<^verbatim>\<open>classifyReadyStatus\<close>, exactly one of which is true.\<close>

datatype ready_status = StatusReady | ExplicitFail | Malformed | Incomplete

definition classifyReadyStatus :: "string \<Rightarrow> ready_status" where
  "classifyReadyStatus raw = (if maxReadyStatusJSONBytes < length raw then Malformed
     else let text = TrimSpace raw in
     if text = [] then Malformed
     else (case json_parse text of
         Some (JObj m) \<Rightarrow> (case map_of (rev m) ''ok'' of None \<Rightarrow> Incomplete
           | Some (JBool b) \<Rightarrow> if b then StatusReady else ExplicitFail
           | Some _ \<Rightarrow> Malformed)
       | Some JNull \<Rightarrow> Incomplete
       | _ \<Rightarrow> Malformed))"

text \<open>What \<^verbatim>\<open>writeAgentStatus\<close> puts into the file; the keys of the map are written in order.\<close>

definition status_payload :: "bool \<Rightarrow> string" where
  "status_payload ok = json_print (JObj [(''ok'', JBool ok), (''version'', JNum ''1'')])"

definition readReady :: "string option \<Rightarrow> bool \<times> bool" where
  "readReady file = (case file of None \<Rightarrow> (False, False)
     | Some raw \<Rightarrow> (case classifyReadyStatus raw of StatusReady \<Rightarrow> (True, True) | ExplicitFail \<Rightarrow> (False, True)
       | Incomplete \<Rightarrow> (False, False) | Malformed \<Rightarrow> (False, False)))"

section \<open>Waiting\<close>

text \<open>\<open>sig\<close> tells whether the process can be signalled.\<close>

definition pidAlive :: "int \<Rightarrow> bool \<Rightarrow> bool" where
  "pidAlive pid sig \<longleftrightarrow> 0 < pid \<and> sig"

record ready_poll =
  rp_check :: int
  rp_raw :: "string option"
  rp_marked :: int
  rp_now :: int
  rp_signal :: bool

definition malformedBudget :: int where "malformedBudget = 45 * 10 ^ 9"
definition pollSleep :: int where "pollSleep = 150 * 10 ^ 6"

text \<open>One round after its file was read: an outcome, or the start of the malformed window for the next round.\<close>

definition ready_round :: "int \<Rightarrow> int option \<Rightarrow> ready_poll \<Rightarrow> string + int option" where
  "ready_round pid since p =
     (let alive = (\<lambda>s. if pidAlive pid (rp_signal p) then Inr s else Inl ''child_exit'') in
      case rp_raw p of None \<Rightarrow> alive None
      | Some raw \<Rightarrow> (case classifyReadyStatus raw of
          StatusReady \<Rightarrow> Inl ''ready''
        | ExplicitFail \<Rightarrow> Inl ''explicit_not_ready''
        | Malformed \<Rightarrow> let t = (case since of None \<Rightarrow> rp_marked p | Some t \<Rightarrow> t) in
            if malformedBudget \<le> rp_now p - t then Inl ''malformed_status'' else alive (Some t)
        | Incomplete \<Rightarrow> alive None))"

fun wait_rounds :: "int \<Rightarrow> int \<Rightarrow> int option \<Rightarrow> ready_poll list \<Rightarrow> string option" where
  "wait_rounds deadline pid since [] = None"
| "wait_rounds deadline pid since (p # ps) = (if \<not> rp_check p < deadline then Some ''timeout''
     else (case ready_round pid since p of Inl outcome \<Rightarrow> Some outcome | Inr since' \<Rightarrow> wait_rounds deadline pid since' ps))"

definition waitForReady :: "int \<Rightarrow> int \<Rightarrow> int \<Rightarrow> ready_poll list \<Rightarrow> string option" where
  "waitForReady start timeout pid polls = wait_rounds (start + timeout) pid None polls"

text \<open>Waiting for the exit: a round is the answer to the signal and the time read after it.\<close>

fun exit_rounds :: "int \<Rightarrow> int \<Rightarrow> (bool \<times> int) list \<Rightarrow> bool option" where
  "exit_rounds deadline pid [] = None"
| "exit_rounds deadline pid ((sig, now) # ps) = (if \<not> pidAlive pid sig then Some True
     else if \<not> now < deadline then Some False else exit_rounds deadline pid ps)"

definition waitForAgentExit :: "int \<Rightarrow> int \<Rightarrow> int \<Rightarrow> int \<Rightarrow> (bool \<times> int) list \<Rightarrow> bool option" where
  "waitForAgentExit pid timeout tick start polls =
     (if pid \<le> 0 \<or> timeout \<le> 0 \<or> tick \<le> 0 then Some False else exit_rounds (start + timeout) pid polls)"

section \<open>The agent's process\<close>

definition Atoi :: "string \<Rightarrow> int option" where
  "Atoi s0 = (let neg = s0 \<noteq> [] \<and> hd s0 = CHR ''-''; s = (if s0 \<noteq> [] \<and> hd s0 \<in> {CHR ''-'', CHR ''+''} then tl s0 else s0) in
     if s = [] \<or> \<not> list_all is_digit s then None
     else (case digits_value 10 s 0 of None \<Rightarrow> None
       | Some n \<Rightarrow> if neg then (if n \<le> 2 ^ 63 then Some (- int n) else None) else (if n < 2 ^ 63 then Some (int n) else None)))"

text \<open>The files and directories of \<^verbatim>\<open>/proc\<close> at one moment.\<close>

record proc_fs =
  pf_file :: "string \<Rightarrow> string option"
  pf_dir :: "string \<Rightarrow> string list option"

definition itoa_int :: "int \<Rightarrow> string" where
  "itoa_int i = (if i < 0 then CHR ''-'' # itoa (nat (- i)) else itoa (nat i))"

definition readComm :: "proc_fs \<Rightarrow> int \<Rightarrow> string" where
  "readComm fs pid = (case pf_file fs (''/proc/'' @ itoa_int pid @ ''/comm'') of None \<Rightarrow> [] | Some raw \<Rightarrow> TrimSpace raw)"

definition readChildrenFile :: "proc_fs \<Rightarrow> int \<Rightarrow> int \<Rightarrow> int list" where
  "readChildrenFile fs pid tid =
     (case pf_file fs (''/proc/'' @ itoa_int pid @ ''/task/'' @ itoa_int tid @ ''/children'') of None \<Rightarrow> []
      | Some raw \<Rightarrow> concat (map (\<lambda>f. case Atoi f of Some v \<Rightarrow> if 0 < v then [v] else [] | None \<Rightarrow> []) (Fields raw)))"

definition readProcChildren :: "proc_fs \<Rightarrow> int \<Rightarrow> int list" where
  "readProcChildren fs pid = (case pf_dir fs (''/proc/'' @ itoa_int pid @ ''/task'') of
     None \<Rightarrow> readChildrenFile fs pid pid
   | Some entries \<Rightarrow> fold (\<lambda>ent out. case Atoi ent of None \<Rightarrow> out
       | Some tid \<Rightarrow> fold sadd (readChildrenFile fs pid tid) out) entries [])"

text \<open>The bounded search in breadth: queue and set of seen processes.\<close>

definition enqueue :: "int list \<Rightarrow> int list \<times> int list \<Rightarrow> int list \<times> int list" where
  "enqueue children qs = fold (\<lambda>child (queue, seen). if child \<in> set seen then (queue, seen) else (queue @ [child], child # seen)) children qs"

fun walk :: "proc_fs \<Rightarrow> int \<Rightarrow> string \<Rightarrow> nat \<Rightarrow> int list \<Rightarrow> int list \<Rightarrow> int" where
  "walk fs root want 0 queue seen = 0"
| "walk fs root want (Suc steps) [] seen = 0"
| "walk fs root want (Suc steps) (pid # queue) seen =
     (if pid \<noteq> root \<and> readComm fs pid = want then pid
      else (case enqueue (readProcChildren fs pid) (queue, seen) of (queue', seen') \<Rightarrow> walk fs root want steps queue' seen'))"

definition walkForAgentComm :: "proc_fs \<Rightarrow> int \<Rightarrow> string \<Rightarrow> int" where
  "walkForAgentComm fs rootPid wantComm = walk fs rootPid wantComm 256 [rootPid] [rootPid]"

text \<open>A round of the search: \<^verbatim>\<open>/proc\<close> as walked, and the time read after it.\<close>

fun find_rounds :: "int \<Rightarrow> int \<Rightarrow> (proc_fs \<times> int) list \<Rightarrow> int option" where
  "find_rounds deadline sudoPid [] = None"
| "find_rounds deadline sudoPid ((fs, now) # ps) = (let pid = walkForAgentComm fs sudoPid ''coldstep'' in
     if 0 < pid then Some pid else if \<not> now < deadline then Some sudoPid else find_rounds deadline sudoPid ps)"

definition findAgentPID :: "int \<Rightarrow> int \<Rightarrow> int \<Rightarrow> (proc_fs \<times> int) list \<Rightarrow> int option" where
  "findAgentPID sudoPid timeout start polls = (if sudoPid \<le> 0 then Some sudoPid else find_rounds (start + timeout) sudoPid polls)"

section \<open>The status round trip\<close>

lemma payload_facts:
  "length (status_payload ok) \<le> maxReadyStatusJSONBytes" "TrimSpace (status_payload ok) = status_payload ok"
  "status_payload ok \<noteq> []" "json_parse (status_payload ok) = Some (JObj [(''ok'', JBool ok), (''version'', JNum ''1'')])"
proof -
  have t: "length (status_payload True) \<le> maxReadyStatusJSONBytes" "TrimSpace (status_payload True) = status_payload True"
    "status_payload True \<noteq> []" "json_parse (status_payload True) = Some (JObj [(''ok'', JBool True), (''version'', JNum ''1'')])"
    by code_simp+
  have f: "length (status_payload False) \<le> maxReadyStatusJSONBytes" "TrimSpace (status_payload False) = status_payload False"
    "status_payload False \<noteq> []" "json_parse (status_payload False) = Some (JObj [(''ok'', JBool False), (''version'', JNum ''1'')])"
    by code_simp+
  show "length (status_payload ok) \<le> maxReadyStatusJSONBytes" "TrimSpace (status_payload ok) = status_payload ok"
    "status_payload ok \<noteq> []" "json_parse (status_payload ok) = Some (JObj [(''ok'', JBool ok), (''version'', JNum ''1'')])"
    by (cases ok, simp_all only: t f if_True simp_thms)+
qed

text \<open>The agent's word reaches the action: the status the agent writes is read back as ready exactly when the agent wrote
  that it is, and otherwise as an explicit failure, never as malformed or incomplete.\<close>

theorem status_roundtrip: "classifyReadyStatus (status_payload ok) = (if ok then StatusReady else ExplicitFail)"
  using payload_facts [of ok] by (simp add: classifyReadyStatus_def Let_def)

section \<open>The waits end, and what they mean\<close>

text \<open>Rounds of a loop that sleeps: each check is at least \<open>gap\<close> after the one before.\<close>

fun spaced :: "int \<Rightarrow> int \<Rightarrow> int list \<Rightarrow> bool" where
  "spaced gap t [] \<longleftrightarrow> True"
| "spaced gap t (u # us) \<longleftrightarrow> t \<le> u \<and> spaced gap (u + gap) us"

lemma wait_rounds_end:
  assumes "0 \<le> gap" "spaced gap t (map rp_check ps)" "deadline \<le> t + gap * (int (length ps) - 1)" "ps \<noteq> []"
  shows "\<exists>outcome. wait_rounds deadline pid since ps = Some outcome"
  using assms(2-4)
proof (induction ps arbitrary: t since)
  case (Cons p ps)
  show ?case
  proof (cases "ps = [] \<or> deadline \<le> rp_check p")
    case True
    then show ?thesis
      using Cons.prems by auto
  next
    case False
    have "deadline \<le> (rp_check p + gap) + gap * (int (length ps) - 1)"
      using Cons.prems(1,2) by (simp add: algebra_simps)
    then show ?thesis
      using Cons.IH [of "rp_check p + gap"] Cons.prems(1) False by (auto split: sum.splits)
  qed
qed simp

definition status_of :: "ready_poll \<Rightarrow> ready_status option" where
  "status_of p = map_option classifyReadyStatus (rp_raw p)"

lemma ready_round_Inr:
  "ready_round pid since p = Inr s \<Longrightarrow> pidAlive pid (rp_signal p) \<and> status_of p \<notin> {Some StatusReady, Some ExplicitFail}"
  by (auto simp: ready_round_def status_of_def Let_def split: if_splits option.splits ready_status.splits)

text \<open>What a round that decides has seen.\<close>

definition decided_by :: "int \<Rightarrow> int \<Rightarrow> string \<Rightarrow> ready_poll \<Rightarrow> bool" where
  "decided_by deadline pid x p \<longleftrightarrow>
     x = ''timeout'' \<and> deadline \<le> rp_check p \<or>
     rp_check p < deadline \<and>
       (x = ''ready'' \<and> status_of p = Some StatusReady \<or> x = ''explicit_not_ready'' \<and> status_of p = Some ExplicitFail \<or>
        x = ''malformed_status'' \<and> status_of p = Some Malformed \<or> x = ''child_exit'' \<and> \<not> pidAlive pid (rp_signal p))"

lemma ready_round_Inl: "ready_round pid since p = Inl x \<Longrightarrow> rp_check p < deadline \<Longrightarrow> decided_by deadline pid x p"
  by (auto simp: ready_round_def decided_by_def status_of_def Let_def split: if_splits option.splits ready_status.splits)

definition undecided :: "int \<Rightarrow> int \<Rightarrow> ready_poll \<Rightarrow> bool" where
  "undecided deadline pid p \<longleftrightarrow> rp_check p < deadline \<and> pidAlive pid (rp_signal p) \<and>
     status_of p \<notin> {Some StatusReady, Some ExplicitFail}"

lemma wait_rounds_decided:
  "wait_rounds deadline pid since ps = Some x \<Longrightarrow>
     \<exists>pre p rest. ps = pre @ p # rest \<and> list_all (undecided deadline pid) pre \<and> decided_by deadline pid x p"
proof (induction ps arbitrary: since)
  case (Cons p ps)
  consider "deadline \<le> rp_check p" | y where "rp_check p < deadline" "ready_round pid since p = Inl y"
    | s where "rp_check p < deadline" "ready_round pid since p = Inr s"
    by (cases "ready_round pid since p") fastforce+
  then show ?case
  proof cases
    case 1
    then have "decided_by deadline pid x p"
      using Cons.prems by (simp add: decided_by_def)
    then show ?thesis
      by (intro exI [of _ "[]"] exI [of _ p] exI [of _ ps]) simp
  next
    case 2
    then have "decided_by deadline pid x p"
      using Cons.prems ready_round_Inl by simp
    then show ?thesis
      by (intro exI [of _ "[]"] exI [of _ p] exI [of _ ps]) simp
  next
    case 3
    then have "wait_rounds deadline pid s ps = Some x"
      using Cons.prems by simp
    from Cons.IH [OF this] obtain pre q rest
      where "ps = pre @ q # rest" "list_all (undecided deadline pid) pre" "decided_by deadline pid x q"
      by blast
    moreover have "undecided deadline pid p"
      using 3 ready_round_Inr unfolding undecided_def by blast
    ultimately have "p # ps = (p # pre) @ q # rest \<and> list_all (undecided deadline pid) (p # pre) \<and> decided_by deadline pid x q"
      by simp
    then show ?thesis
      by blast
  qed
qed simp

text \<open>The patience with a malformed status: a window opened before the list (\<open>since\<close>) or by its first malformed round.\<close>

definition malformed_window :: "int option \<Rightarrow> ready_poll list \<Rightarrow> ready_poll \<Rightarrow> bool" where
  "malformed_window since run p \<longleftrightarrow> list_all (\<lambda>q. status_of q = Some Malformed) (run @ [p]) \<and>
     malformedBudget \<le> rp_now p - (case since of None \<Rightarrow> rp_marked (hd (run @ [p])) | Some t \<Rightarrow> t)"

lemma ready_round_since:
  "ready_round pid since p = Inr (Some t) \<Longrightarrow> status_of p = Some Malformed \<and> t = (case since of None \<Rightarrow> rp_marked p | Some t \<Rightarrow> t)"
  "ready_round pid since p = Inl ''malformed_status'' \<Longrightarrow> malformed_window since [] p"
  by (auto simp: ready_round_def status_of_def malformed_window_def Let_def split: if_splits option.splits ready_status.splits)

lemma malformed_run:
  "wait_rounds deadline pid since ps = Some ''malformed_status'' \<Longrightarrow>
     (\<exists>run p rest. ps = run @ p # rest \<and> malformed_window since run p) \<or>
     (\<exists>pre run p rest. ps = pre @ run @ p # rest \<and> malformed_window None run p)"
proof (induction ps arbitrary: since)
  case (Cons p ps)
  then have late: "rp_check p < deadline"
    by (auto split: if_splits)
  show ?case
  proof (cases "ready_round pid since p")
    case (Inl y)
    then have "malformed_window since [] p"
      using Cons.prems late ready_round_since(2) by simp
    then show ?thesis
      by (metis append_Nil)
  next
    case (Inr s)
    then have IH: "(\<exists>run p rest. ps = run @ p # rest \<and> malformed_window s run p) \<or>
        (\<exists>pre run p rest. ps = pre @ run @ p # rest \<and> malformed_window None run p)"
      using Cons late by simp
    show ?thesis
    proof (cases s)
      case None
      then show ?thesis
        using IH by (metis append_Cons append_Nil)
    next
      case (Some t)
      have "malformed_window since (p # run) q" if "malformed_window s run q" for run q
        using that ready_round_since(1) [of pid since p t] Inr Some
        by (auto simp: malformed_window_def split: option.splits)
      then show ?thesis
        using IH by (metis append_Cons)
    qed
  qed
qed simp

text \<open>C10. The wait for readiness always ends, and its outcome means what it says: given rounds at least the sleep apart, enough
  of them to pass the deadline decide; the rounds before the deciding one saw a live agent without a verdict; ready,
  not ready, exit and timeout are what the deciding round saw; and a malformed status is fatal only after it was malformed
  in every round of 45 seconds.\<close>

theorem wait_decides:
  assumes "polls \<noteq> []" "spaced pollSleep start (map rp_check polls)" "timeout \<le> pollSleep * (int (length polls) - 1)"
  shows "\<exists>x. waitForReady start timeout pid polls = Some x \<and>
    (\<exists>pre p rest. polls = pre @ p # rest \<and> list_all (undecided (start + timeout) pid) pre \<and> decided_by (start + timeout) pid x p) \<and>
    (x = ''malformed_status'' \<longrightarrow> (\<exists>pre run p rest. polls = pre @ run @ p # rest \<and> malformed_window None run p))"
proof -
  obtain x where x: "wait_rounds (start + timeout) pid None polls = Some x"
    using wait_rounds_end [of pollSleep start polls "start + timeout" pid None] assms by (auto simp: pollSleep_def)
  have "\<exists>pre run p rest. polls = pre @ run @ p # rest \<and> malformed_window None run p" if "x = ''malformed_status''"
    using malformed_run [of "start + timeout" pid None polls] x that by (metis append_Nil)
  then show ?thesis
    using wait_rounds_decided [OF x] x unfolding waitForReady_def by blast
qed

definition demo_poll :: "int \<Rightarrow> string option \<Rightarrow> ready_poll" where
  "demo_poll t raw = \<lparr>rp_check = t, rp_raw = raw, rp_marked = t, rp_now = t, rp_signal = True\<rparr>"

theorem wait_decides_witness:
  "waitForReady 0 150000000 7 [demo_poll 0 None, demo_poll 150000000 (Some (status_payload True))] = Some ''timeout'' \<and>
   (\<exists>pre p rest. [demo_poll 0 None, demo_poll 150000000 (Some (status_payload True))] = pre @ p # rest \<and>
      list_all (undecided 150000000 7) pre \<and> decided_by 150000000 7 ''timeout'' p)"
proof -
  let ?ps = "[demo_poll 0 None, demo_poll 150000000 (Some (status_payload True))]"
  have "waitForReady 0 150000000 7 ?ps = Some ''timeout''"
    by code_simp
  moreover have "spaced pollSleep 0 (map rp_check ?ps)" "150000000 \<le> pollSleep * (int (length ?ps) - 1)"
    by (simp_all add: demo_poll_def pollSleep_def)
  ultimately show ?thesis
    using wait_decides [of ?ps 0 150000000 7] by auto
qed

text \<open>Waiting for the exit ends as well, with the tick between the rounds.\<close>

lemma exit_rounds_end:
  assumes "0 \<le> gap" "spaced gap t (map snd ps)" "deadline \<le> t + gap * (int (length ps) - 1)" "ps \<noteq> []"
  shows "\<exists>b. exit_rounds deadline pid ps = Some b"
  using assms(2-4)
proof (induction ps arbitrary: t)
  case (Cons p ps)
  obtain sig now where p: "p = (sig, now)"
    by (cases p)
  show ?case
  proof (cases "ps = [] \<or> deadline \<le> now")
    case True
    then show ?thesis
      using Cons.prems by (auto simp: p)
  next
    case False
    have "deadline \<le> (now + gap) + gap * (int (length ps) - 1)"
      using Cons.prems(1,2) by (simp add: p algebra_simps)
    then show ?thesis
      using Cons.IH [of "now + gap"] Cons.prems(1) False by (auto simp: p)
  qed
qed simp

section \<open>The search finds the agent\<close>

definition child_of :: "proc_fs \<Rightarrow> (int \<times> int) set" where
  "child_of fs = {(p, c). c \<in> set (readProcChildren fs p)}"

definition descendants :: "proc_fs \<Rightarrow> int \<Rightarrow> int set" where
  "descendants fs root = {p. (root, p) \<in> (child_of fs)\<^sup>*}"

lemma file_positive: "x \<in> set (readChildrenFile fs p t) \<Longrightarrow> 0 < x"
  by (auto simp: readChildrenFile_def split: option.splits if_splits)

lemma threads_positive:
  "\<forall>x \<in> set out. 0 < x \<Longrightarrow> x \<in> set (fold (\<lambda>ent out. case Atoi ent of None \<Rightarrow> out
     | Some tid \<Rightarrow> fold sadd (readChildrenFile fs p tid) out) es out) \<Longrightarrow> 0 < x"
proof (induction es arbitrary: out)
  case (Cons e es)
  have "\<forall>x \<in> set (case Atoi e of None \<Rightarrow> out | Some tid \<Rightarrow> fold sadd (readChildrenFile fs p tid) out). 0 < x"
    using Cons.prems(1) by (auto simp: set_fold_sadd dest: file_positive split: option.splits)
  from Cons.IH [OF this] show ?case
    using Cons.prems(2) by simp
qed simp

lemma children_positive: "c \<in> set (readProcChildren fs p) \<Longrightarrow> 0 < c"
  using threads_positive [of "[]"] file_positive unfolding readProcChildren_def by (auto split: option.splits)

lemma enqueue_spec:
  assumes "distinct seen" "enqueue cs (queue, seen) = (queue', seen')"
  shows "\<exists>new. queue' = queue @ new \<and> set seen' = set seen \<union> set cs \<and> set seen' = set seen \<union> set new \<and> distinct seen' \<and>
    length seen' = length seen + length new"
  using assms
proof (induction cs arbitrary: queue seen)
  case (Cons c cs)
  show ?case
  proof (cases "c \<in> set seen")
    case True
    then have "enqueue cs (queue, seen) = (queue', seen')"
      using Cons.prems(2) by (simp add: enqueue_def)
    from Cons.IH [OF Cons.prems(1) this] True show ?thesis
      by (auto simp: insert_absorb)
  next
    case False
    then have "enqueue cs (queue @ [c], c # seen) = (queue', seen')"
      using Cons.prems(2) by (simp add: enqueue_def)
    from Cons.IH [OF _ this] obtain new where "queue' = queue @ [c] @ new" "set seen' = set (c # seen) \<union> set cs" "set seen' = set (c # seen) \<union> set new"
      "distinct seen'" "length seen' = length (c # seen) + length new"
      using False Cons.prems(1) by auto
    then show ?thesis
      by (intro exI [of _ "c # new"]) auto
  qed
qed (simp add: enqueue_def)

text \<open>The state of the search: what was seen is the queue and what was visited; the visited do not match, and their
  children were seen.\<close>

definition searching :: "proc_fs \<Rightarrow> int \<Rightarrow> string \<Rightarrow> int list \<Rightarrow> int list \<Rightarrow> int set \<Rightarrow> bool" where
  "searching fs root want queue seen visited \<longleftrightarrow> distinct seen \<and> finite visited \<and> set seen = set queue \<union> visited \<and>
     length seen = length queue + card visited \<and> set seen \<subseteq> descendants fs root \<and> root \<in> set seen \<and>
     (\<forall>p \<in> visited. (p \<noteq> root \<longrightarrow> readComm fs p \<noteq> want) \<and> set (readProcChildren fs p) \<subseteq> set seen)"

lemma searching_step:
  assumes "searching fs root want (pid # queue) seen visited" "pid = root \<or> readComm fs pid \<noteq> want"
    and "enqueue (readProcChildren fs pid) (queue, seen) = (queue', seen')"
  shows "searching fs root want queue' seen' (insert pid visited)" "card (insert pid visited) = Suc (card visited)"
proof -
  note st = assms(1) [unfolded searching_def]
  obtain new where new: "queue' = queue @ new" "set seen' = set seen \<union> set (readProcChildren fs pid)"
    "set seen' = set seen \<union> set new" "distinct seen'" "length seen' = length seen + length new"
    using enqueue_spec [OF _ assms(3)] st by blast
  have "card (set seen) = length seen"
    using st distinct_card by blast
  then have notin: "pid \<notin> visited"
    using st card_Un_le [of "set queue" "visited"] card_length [of queue] by (auto simp: insert_absorb)
  then show c: "card (insert pid visited) = Suc (card visited)"
    using st by simp
  have "pid \<in> descendants fs root"
    using st by auto
  then have kids: "set (readProcChildren fs pid) \<subseteq> descendants fs root"
    by (auto simp: descendants_def child_of_def intro: rtrancl.rtrancl_into_rtrancl)
  show "searching fs root want queue' seen' (insert pid visited)"
    unfolding searching_def
  proof (intro conjI ballI)
    fix p
    assume p: "p \<in> insert pid visited"
    show "p \<noteq> root \<longrightarrow> readComm fs p \<noteq> want"
      using p st assms(2) by blast
    show "set (readProcChildren fs p) \<subseteq> set seen'"
      using p st new(2) by blast
  next
    show "set seen' = set queue' \<union> insert pid visited"
      using st new(1,3) by auto
    show "set seen' \<subseteq> descendants fs root"
      using st new(2) kids by blast
  qed (use st new c in auto)
qed

lemma searching_closed: "searching fs root want [] seen visited \<Longrightarrow> visited = descendants fs root"
proof -
  assume st: "searching fs root want [] seen visited"
  have "p \<in> visited" if "(root, p) \<in> (child_of fs)\<^sup>*" for p
    using that st by (induction rule: rtrancl_induct) (auto simp: searching_def child_of_def)
  then show ?thesis
    using st by (auto simp: searching_def descendants_def)
qed

lemma searching_none: "searching fs root want [] seen visited \<Longrightarrow> p \<in> descendants fs root \<Longrightarrow> p \<noteq> root \<Longrightarrow> readComm fs p \<noteq> want"
  using searching_closed [of fs root want seen visited] unfolding searching_def by blast

lemma walk_spec:
  assumes "searching fs root want queue seen visited" "finite (descendants fs root)" "card (descendants fs root) \<le> n + card visited"
  shows "walk fs root want n queue seen = 0 \<and> (\<forall>p \<in> descendants fs root. p \<noteq> root \<longrightarrow> readComm fs p \<noteq> want) \<or>
    (\<exists>p \<in> descendants fs root. p \<noteq> root \<and> readComm fs p = want \<and> walk fs root want n queue seen = p)"
  using assms
proof (induction fs root want n queue seen arbitrary: visited rule: walk.induct)
  case (1 fs root want queue seen)
  have "length seen \<le> card (descendants fs root)"
    using 1 by (metis searching_def card_mono distinct_card)
  moreover have "length seen = length queue + card visited"
    using 1 by (simp add: searching_def)
  ultimately have "length queue = 0"
    using 1 by linarith
  then have "queue = []"
    by simp
  then have "p \<in> descendants fs root \<Longrightarrow> p \<noteq> root \<Longrightarrow> readComm fs p \<noteq> want" for p
    using searching_none "1.prems"(1) by blast
  then show ?case
    by simp
next
  case (2 fs root want steps seen)
  then have "p \<in> descendants fs root \<Longrightarrow> p \<noteq> root \<Longrightarrow> readComm fs p \<noteq> want" for p
    using searching_none by blast
  then show ?case
    by simp
next
  case (3 fs root want steps pid queue seen)
  show ?case
  proof (cases "pid \<noteq> root \<and> readComm fs pid = want")
    case True
    then show ?thesis
      using 3 by (auto simp: searching_def)
  next
    case False
    obtain queue' seen' where e: "enqueue (readProcChildren fs pid) (queue, seen) = (queue', seen')"
      by fastforce
    have m: "pid = root \<or> readComm fs pid \<noteq> want"
      using False by blast
    note st = searching_step [OF "3.prems"(1) m e]
    have "card (descendants fs root) \<le> steps + card (insert pid visited)"
      using st(2) "3.prems"(3) by simp
    from "3.IH" [OF False e [symmetric] st(1) "3.prems"(2) this] show ?thesis
      using m e by auto
  qed
qed

lemma descendants_positive: "0 < root \<Longrightarrow> p \<in> descendants fs root \<Longrightarrow> 0 < p"
  by (auto simp: descendants_def child_of_def dest: children_positive elim: rtranclE)

text \<open>C11. The process that is signalled is the agent's: when \<^verbatim>\<open>sudo\<close> and its descendants are at most 256
  processes the search returns a descendant whose command is the agent's, and returns none only when there is no such descendant.\<close>

theorem agent_found:
  assumes "0 < root" "finite (descendants fs root)" "card (descendants fs root) \<le> 256"
  shows "(walkForAgentComm fs root want = 0 \<longleftrightarrow> (\<forall>p \<in> descendants fs root. p \<noteq> root \<longrightarrow> readComm fs p \<noteq> want)) \<and>
    (walkForAgentComm fs root want \<noteq> 0 \<longrightarrow> walkForAgentComm fs root want \<in> descendants fs root - {root} \<and>
      readComm fs (walkForAgentComm fs root want) = want)"
proof -
  have "searching fs root want [root] [root] {}"
    by (simp add: searching_def descendants_def)
  from walk_spec [OF this assms(2)] assms(3) show ?thesis
    using descendants_positive [OF assms(1)] unfolding walkForAgentComm_def by fastforce
qed

definition demo_proc :: proc_fs where
  "demo_proc = \<lparr>pf_file = (\<lambda>p. if p = ''/proc/10/task/10/children'' then Some ''11 '' else if p = ''/proc/11/comm'' then Some (''coldstep'' @ [CHR 0x0A]) else None),
     pf_dir = (\<lambda>p. None)\<rparr>"

lemma demo_descendants: "descendants demo_proc 10 \<subseteq> {10, 11}"
proof -
  have eleven: "Fields ''11 '' = [''11'']" "Atoi ''11'' = Some 11"
    by code_simp+
  have "c = 11" if "(p, c) \<in> child_of demo_proc" for p c
    using that by (auto simp: child_of_def readProcChildren_def readChildrenFile_def demo_proc_def eleven split: if_splits)
  moreover have "p = 10 \<or> (\<exists>q. (q, p) \<in> child_of demo_proc)" if "(10, p) \<in> (child_of demo_proc)\<^sup>*" for p
    using that by (auto elim: rtranclE)
  ultimately show ?thesis
    unfolding descendants_def by blast
qed

lemma demo_walk: "walkForAgentComm demo_proc 10 ''coldstep'' = 11"
proof -
  have kids: "readProcChildren demo_proc 10 = [11]" and comm: "readComm demo_proc 11 = ''coldstep''"
    by code_simp+
  have "walk demo_proc 10 ''coldstep'' (Suc (Suc n)) [10] [10] = 11" for n
    by (simp add: kids comm enqueue_def)
  from this [of 254] show ?thesis
    by (simp add: walkForAgentComm_def)
qed

theorem agent_found_witness:
  "walkForAgentComm demo_proc 10 ''coldstep'' = 11 \<and> 11 \<in> descendants demo_proc 10 - {10} \<and> readComm demo_proc 11 = ''coldstep''"
proof -
  have "finite (descendants demo_proc 10)"
    using demo_descendants finite_subset by blast
  moreover have "card (descendants demo_proc 10) \<le> 256"
    using card_mono [OF _ demo_descendants] by simp
  ultimately show ?thesis
    using agent_found [of 10 demo_proc "''coldstep''"] by (simp add: demo_walk)
qed

text \<open>Finding the process ends with the deadline, and falls back to \<^verbatim>\<open>sudo\<close> itself.\<close>

lemma find_rounds_end:
  assumes "0 \<le> gap" "spaced gap t (map snd ps)" "deadline \<le> t + gap * (int (length ps) - 1)" "ps \<noteq> []"
  shows "\<exists>pid. find_rounds deadline sudoPid ps = Some pid"
  using assms(2-4)
proof (induction ps arbitrary: t)
  case (Cons p ps)
  obtain fs now where p: "p = (fs, now)"
    by (cases p)
  show ?case
  proof (cases "ps = [] \<or> deadline \<le> now")
    case True
    then show ?thesis
      using Cons.prems by (auto simp: p Let_def)
  next
    case False
    have "deadline \<le> (now + gap) + gap * (int (length ps) - 1)"
      using Cons.prems(1,2) by (simp add: p algebra_simps)
    then show ?thesis
      using Cons.IH [of "now + gap"] Cons.prems(1) False by (auto simp: p Let_def)
  qed
qed simp

lemma find_rounds_positive: "0 < sudoPid \<Longrightarrow> find_rounds deadline sudoPid ps = Some pid \<Longrightarrow> 0 < pid"
  by (induction deadline sudoPid ps rule: find_rounds.induct) (auto simp: Let_def split: if_splits)

lemma findAgentPID_positive: "0 < sudoPid \<Longrightarrow> findAgentPID sudoPid timeout start ps = Some pid \<Longrightarrow> 0 < pid"
  using find_rounds_positive unfolding findAgentPID_def by (auto split: if_splits)

end
