(* ===== verification/Encode.thy ===== *)
theory Encode
  imports Json Events
begin

text \<open>
  What \<^verbatim>\<open>json.Marshal\<close> makes of the records of the event log, from the field tags of
  \<^verbatim>\<open>internal/telemetry/event.go\<close>, and the line \<^verbatim>\<open>AppendJSONL\<close> writes, signed or not
  (\<^verbatim>\<open>internal/telemetry/telemetry.go\<close>, \<^verbatim>\<open>sign.go\<close>). The members of an object are in the order of the
  struct; an omitted field contributes no member. The Ed25519 signature over a message is a function parameter.
\<close>

named_theorems field_simps \<open>members of encoded records\<close>

section \<open>Fields\<close>

definition int_text :: "int \<Rightarrow> string" where
  "int_text i = (if i < 0 then CHR ''-'' # itoa (nat (- i)) else itoa (nat i))"

definition str_field :: "string \<Rightarrow> string \<Rightarrow> (string \<times> json) list" where
  "str_field k s = [(k, JStr s)]"

definition str_opt :: "string \<Rightarrow> string \<Rightarrow> (string \<times> json) list" where
  "str_opt k s = (if s = [] then [] else [(k, JStr s)])"

definition uint_field :: "string \<Rightarrow> 'w::len word \<Rightarrow> (string \<times> json) list" where
  "uint_field k w = [(k, JNum (itoa (unat w)))]"

definition uint_opt :: "string \<Rightarrow> 'w::len word \<Rightarrow> (string \<times> json) list" where
  "uint_opt k w = (if w = 0 then [] else uint_field k w)"

text \<open>A 32 bit signed field.\<close>

definition int_field :: "string \<Rightarrow> 32 word \<Rightarrow> (string \<times> json) list" where
  "int_field k w = [(k, JNum (int_text (sint w)))]"

definition bool_field :: "string \<Rightarrow> bool \<Rightarrow> (string \<times> json) list" where
  "bool_field k b = [(k, JBool b)]"

definition bool_opt :: "string \<Rightarrow> bool \<Rightarrow> (string \<times> json) list" where
  "bool_opt k b = (if b then [(k, JBool True)] else [])"

lemmas field_defs = str_field_def str_opt_def uint_field_def uint_opt_def int_field_def bool_field_def bool_opt_def

fun confidence_text :: "TLSConfidence \<Rightarrow> string" where
  "confidence_text TLSConfidenceFull = ''full''"
| "confidence_text TLSConfidencePartial = ''partial''"
| "confidence_text TLSConfidenceInferred = ''inferred''"
| "confidence_text TLSConfidenceUnknown = ''unknown''"

section \<open>Records\<close>

definition json_ExecEvent :: "ExecEvent \<Rightarrow> (string \<times> json) list" where
  "json_ExecEvent e =
     str_field ''type'' (ex_Type e) @
     str_field ''ts'' (ex_TS e) @
     uint_field ''seq'' (ex_Seq e) @
     uint_field ''pid'' (ex_PID e) @
     uint_field ''tgid'' (ex_TGID e) @
     uint_field ''thread_id'' (ex_ThreadID e) @
     str_field ''comm'' (ex_Comm e) @
     str_opt ''exe'' (ex_Exe e) @
     uint_opt ''exe_inode'' (ex_ExeInode e) @
     uint_opt ''exe_dev'' (ex_ExeDev e) @
     str_opt ''exe_sha256'' (ex_ExeSHA256 e) @
     str_opt ''sig'' (ex_Sig e)"

definition json_ProcForkEvent :: "ProcForkEvent \<Rightarrow> (string \<times> json) list" where
  "json_ProcForkEvent e =
     str_field ''type'' (pf_Type e) @
     str_field ''ts'' (pf_TS e) @
     uint_field ''seq'' (pf_Seq e) @
     uint_field ''parent_pid'' (pf_ParentPID e) @
     uint_field ''child_pid'' (pf_ChildPID e) @
     str_field ''parent_comm'' (pf_ParentComm e) @
     str_field ''child_comm'' (pf_ChildComm e) @
     uint_opt ''child_sid'' (pf_ChildSID e) @
     uint_opt ''child_pidns_inum'' (pf_ChildPidnsNum e) @
     str_opt ''note'' (pf_Note e) @
     str_opt ''sig'' (pf_Sig e)"

definition json_TCPStateEvent :: "TCPStateEvent \<Rightarrow> (string \<times> json) list" where
  "json_TCPStateEvent e =
     str_field ''type'' (st_Type e) @
     str_field ''ts'' (st_TS e) @
     uint_field ''seq'' (st_Seq e) @
     uint_opt ''timestamp_ns'' (st_TimestampNS e) @
     uint_field ''pid'' (st_PID e) @
     str_opt ''comm'' (st_Comm e) @
     str_opt ''src_ip'' (st_SrcIP e) @
     uint_opt ''src_port'' (st_SrcPort e) @
     str_field ''dst_ip'' (st_DstIP e) @
     uint_field ''dst_port'' (st_DstPort e) @
     str_field ''old_state'' (st_OldState e) @
     str_field ''new_state'' (st_NewState e) @
     str_opt ''sig'' (st_Sig e)"

definition json_TCPEvent :: "TCPEvent \<Rightarrow> (string \<times> json) list" where
  "json_TCPEvent e =
     str_field ''type'' (tc_Type e) @
     str_field ''ts'' (tc_TS e) @
     uint_field ''seq'' (tc_Seq e) @
     uint_field ''pid'' (tc_PID e) @
     uint_field ''tgid'' (tc_TGID e) @
     uint_field ''thread_id'' (tc_ThreadID e) @
     str_field ''comm'' (tc_Comm e) @
     str_field ''dst'' (tc_Dst e) @
     uint_field ''dport'' (tc_Dport e) @
     str_opt ''fqdn'' (tc_FQDN e) @
     str_opt ''fqdn_provenance'' (tc_FQDNProvenance e) @
     str_field ''direction'' (tc_Direction e) @
     str_field ''policy'' (tc_Policy e) @
     str_opt ''sig'' (tc_Sig e)"

definition json_TCPResultEvent :: "TCPResultEvent \<Rightarrow> (string \<times> json) list" where
  "json_TCPResultEvent e =
     str_field ''type'' (tr_Type e) @
     str_field ''ts'' (tr_TS e) @
     uint_field ''seq'' (tr_Seq e) @
     uint_field ''pid'' (tr_PID e) @
     uint_field ''tgid'' (tr_TGID e) @
     uint_field ''thread_id'' (tr_ThreadID e) @
     str_field ''comm'' (tr_Comm e) @
     int_field ''result'' (tr_Result e) @
     str_field ''result_str'' (tr_ResultStr e) @
     str_opt ''sig'' (tr_Sig e)"

definition json_UDPEvent :: "UDPEvent \<Rightarrow> (string \<times> json) list" where
  "json_UDPEvent e =
     str_field ''type'' (ud_Type e) @
     str_field ''ts'' (ud_TS e) @
     uint_field ''seq'' (ud_Seq e) @
     uint_field ''pid'' (ud_PID e) @
     uint_field ''tgid'' (ud_TGID e) @
     uint_field ''thread_id'' (ud_ThreadID e) @
     str_field ''comm'' (ud_Comm e) @
     str_field ''dst'' (ud_Dst e) @
     uint_field ''dport'' (ud_Dport e) @
     uint_opt ''datagram_len'' (ud_DatagramLen e) @
     str_opt ''fqdn'' (ud_FQDN e) @
     str_opt ''fqdn_provenance'' (ud_FQDNProvenance e) @
     str_field ''direction'' (ud_Direction e) @
     str_field ''policy'' (ud_Policy e) @
     bool_opt ''possible_quic'' (ud_PossibleQUIC e) @
     str_opt ''sig'' (ud_Sig e)"

definition json_HTTPEvent :: "HTTPEvent \<Rightarrow> (string \<times> json) list" where
  "json_HTTPEvent e =
     str_field ''type'' (ht_Type e) @
     str_field ''ts'' (ht_TS e) @
     uint_field ''seq'' (ht_Seq e) @
     uint_field ''pid'' (ht_PID e) @
     uint_field ''tgid'' (ht_TGID e) @
     uint_field ''thread_id'' (ht_ThreadID e) @
     str_field ''comm'' (ht_Comm e) @
     str_field ''method'' (ht_Method e) @
     str_field ''host'' (ht_Host e) @
     str_field ''path'' (ht_Path e) @
     str_field ''dst'' (ht_Dst e) @
     uint_field ''dport'' (ht_Dport e) @
     str_field ''policy'' (ht_Policy e) @
     str_opt ''sig'' (ht_Sig e)"

definition json_TLSEvent :: "TLSEvent \<Rightarrow> (string \<times> json) list" where
  "json_TLSEvent e =
     str_field ''type'' (tl_Type e) @
     str_field ''ts'' (tl_TS e) @
     uint_field ''seq'' (tl_Seq e) @
     uint_field ''pid'' (tl_PID e) @
     uint_field ''tgid'' (tl_TGID e) @
     uint_field ''thread_id'' (tl_ThreadID e) @
     str_field ''comm'' (tl_Comm e) @
     str_field ''sni'' (tl_SNI e) @
     str_opt ''confidence'' (confidence_text (tl_Confidence e)) @
     str_opt ''confidence_reason'' (tl_ConfidenceReason e) @
     bool_opt ''reassembled_sni'' (tl_ReassembledSNI e) @
     str_field ''dst'' (tl_Dst e) @
     uint_field ''dport'' (tl_Dport e) @
     bool_opt ''ipv6'' (tl_IsIPv6 e) @
     str_field ''policy'' (tl_Policy e) @
     str_opt ''note'' (tl_Note e) @
     str_opt ''sig'' (tl_Sig e)"

definition json_QUICCandidateEvent :: "QUICCandidateEvent \<Rightarrow> (string \<times> json) list" where
  "json_QUICCandidateEvent e =
     str_field ''type'' (qc_Type e) @
     str_field ''ts'' (qc_TS e) @
     uint_field ''seq'' (qc_Seq e) @
     uint_field ''pid'' (qc_PID e) @
     uint_field ''tgid'' (qc_TGID e) @
     str_field ''comm'' (qc_Comm e) @
     str_field ''dst_ip'' (qc_DstIP e) @
     uint_field ''dst_port'' (qc_DstPort e) @
     str_opt ''note'' (qc_Note e) @
     str_opt ''sig'' (qc_Sig e)"

definition json_IPv6Event :: "IPv6Event \<Rightarrow> (string \<times> json) list" where
  "json_IPv6Event e =
     str_field ''type'' (v6_Type e) @
     str_field ''ts'' (v6_TS e) @
     uint_field ''seq'' (v6_Seq e) @
     uint_field ''pid'' (v6_PID e) @
     str_field ''comm'' (v6_Comm e) @
     str_field ''dst'' (v6_Dst e) @
     uint_field ''dport'' (v6_Dport e) @
     str_opt ''note'' (v6_Note e) @
     str_opt ''sig'' (v6_Sig e)"

definition json_FSEvent :: "FSEvent \<Rightarrow> (string \<times> json) list" where
  "json_FSEvent e =
     str_field ''type'' (fe_Type e) @
     str_field ''ts'' (fe_TS e) @
     uint_field ''seq'' (fe_Seq e) @
     uint_field ''pid'' (fe_PID e) @
     uint_field ''tgid'' (fe_TGID e) @
     uint_field ''thread_id'' (fe_ThreadID e) @
     str_field ''comm'' (fe_Comm e) @
     str_field ''op'' (fe_Op e) @
     str_field ''path'' (fe_Path e) @
     str_opt ''note'' (fe_Note e) @
     str_opt ''sig'' (fe_Sig e)"

definition json_DenyEvent :: "DenyEvent \<Rightarrow> (string \<times> json) list" where
  "json_DenyEvent e =
     str_field ''type'' (dn_Type e) @
     str_field ''ts'' (dn_TS e) @
     uint_field ''seq'' (dn_Seq e) @
     uint_field ''pid'' (dn_PID e) @
     uint_field ''tgid'' (dn_TGID e) @
     uint_field ''thread_id'' (dn_ThreadID e) @
     str_field ''comm'' (dn_Comm e) @
     str_field ''protocol'' (dn_Protocol e) @
     str_field ''dst'' (dn_Dst e) @
     uint_field ''dport'' (dn_Dport e) @
     str_field ''reason'' (dn_Reason e) @
     str_field ''mode'' (dn_Mode e) @
     str_opt ''hook_family'' (dn_HookFamily e) @
     str_opt ''match_kind'' (dn_MatchKind e) @
     str_opt ''sig'' (dn_Sig e)"

definition json_KTLSEvent :: "KTLSEvent \<Rightarrow> (string \<times> json) list" where
  "json_KTLSEvent e =
     str_field ''type'' (kt_Type e) @
     str_field ''ts'' (kt_TS e) @
     uint_field ''seq'' (kt_Seq e) @
     uint_field ''pid'' (kt_PID e) @
     uint_field ''tgid'' (kt_TGID e) @
     uint_field ''thread_id'' (kt_ThreadID e) @
     str_field ''comm'' (kt_Comm e) @
     uint_field ''fd'' (kt_FD e) @
     str_field ''direction'' (kt_Direction e) @
     str_opt ''sig'' (kt_Sig e)"

definition json_IOUringSendEvent :: "IOUringSendEvent \<Rightarrow> (string \<times> json) list" where
  "json_IOUringSendEvent e =
     str_field ''type'' (io_Type e) @
     str_field ''ts'' (io_TS e) @
     uint_field ''seq'' (io_Seq e) @
     uint_field ''pid'' (io_PID e) @
     str_field ''comm'' (io_Comm e) @
     uint_field ''fd'' (io_FD e) @
     str_field ''op'' (io_Op e) @
     str_opt ''dst_ip'' (io_DstIP e) @
     uint_opt ''dst_port'' (io_DstPort e) @
     bool_opt ''has_tls_hello'' (io_HasTLSHello e) @
     str_opt ''sig'' (io_Sig e)"

definition json_EgressBackstopEvent :: "EgressBackstopEvent \<Rightarrow> (string \<times> json) list" where
  "json_EgressBackstopEvent e =
     str_field ''type'' (eb_Type e) @
     str_field ''ts'' (eb_TS e) @
     uint_field ''seq'' (eb_Seq e) @
     uint_field ''pid'' (eb_PID e) @
     str_field ''comm'' (eb_Comm e) @
     str_field ''af'' (eb_AF e) @
     str_field ''proto'' (eb_Proto e) @
     str_field ''dst'' (eb_Dst e) @
     uint_opt ''dport'' (eb_Dport e) @
     str_field ''note'' (eb_Note e) @
     str_opt ''sig'' (eb_Sig e)"

definition json_IOUringTLSEvent :: "IOUringTLSEvent \<Rightarrow> (string \<times> json) list" where
  "json_IOUringTLSEvent e =
     str_field ''type'' (it_Type e) @
     str_field ''ts'' (it_TS e) @
     uint_field ''seq'' (it_Seq e) @
     uint_field ''pid'' (it_PID e) @
     str_field ''comm'' (it_Comm e) @
     str_field ''op'' (it_Op e) @
     str_field ''sni'' (it_SNI e) @
     str_field ''dst'' (it_Dst e) @
     uint_opt ''dst_port'' (it_DstPort e) @
     str_opt ''sig'' (it_Sig e)"

definition json_BPFAuditEvent :: "BPFAuditEvent \<Rightarrow> (string \<times> json) list" where
  "json_BPFAuditEvent e =
     str_field ''type'' (au_Type e) @
     str_field ''ts'' (au_TS e) @
     uint_field ''seq'' (au_Seq e) @
     uint_field ''pid'' (au_PID e) @
     uint_field ''tgid'' (au_TGID e) @
     uint_field ''thread_id'' (au_ThreadID e) @
     str_field ''comm'' (au_Comm e) @
     uint_field ''cmd'' (au_Cmd e) @
     str_opt ''sig'' (au_Sig e)"

definition json_BpfSelfDefenseEvent :: "BpfSelfDefenseEvent \<Rightarrow> (string \<times> json) list" where
  "json_BpfSelfDefenseEvent e =
     str_field ''type'' (sd_Type e) @
     str_field ''ts'' (sd_TS e) @
     uint_field ''seq'' (sd_Seq e) @
     uint_field ''tgid'' (sd_TGID e) @
     str_field ''comm'' (sd_Comm e) @
     int_field ''cmd'' (sd_Cmd e) @
     str_field ''target_kind'' (sd_TargetKind e) @
     uint_opt ''target_id'' (sd_TargetID e) @
     str_field ''action'' (sd_Action e) @
     str_opt ''sig'' (sd_Sig e)"

fun json_line :: "jsonl \<Rightarrow> (string \<times> json) list" where
  "json_line (JExecEvent e) = json_ExecEvent e"
| "json_line (JProcForkEvent e) = json_ProcForkEvent e"
| "json_line (JTCPStateEvent e) = json_TCPStateEvent e"
| "json_line (JTCPEvent e) = json_TCPEvent e"
| "json_line (JTCPResultEvent e) = json_TCPResultEvent e"
| "json_line (JUDPEvent e) = json_UDPEvent e"
| "json_line (JHTTPEvent e) = json_HTTPEvent e"
| "json_line (JTLSEvent e) = json_TLSEvent e"
| "json_line (JQUICCandidateEvent e) = json_QUICCandidateEvent e"
| "json_line (JIPv6Event e) = json_IPv6Event e"
| "json_line (JFSEvent e) = json_FSEvent e"
| "json_line (JDenyEvent e) = json_DenyEvent e"
| "json_line (JKTLSEvent e) = json_KTLSEvent e"
| "json_line (JIOUringSendEvent e) = json_IOUringSendEvent e"
| "json_line (JEgressBackstopEvent e) = json_EgressBackstopEvent e"
| "json_line (JIOUringTLSEvent e) = json_IOUringTLSEvent e"
| "json_line (JBPFAuditEvent e) = json_BPFAuditEvent e"
| "json_line (JBpfSelfDefenseEvent e) = json_BpfSelfDefenseEvent e"

section \<open>Records outside the ring readers\<close>

record BPFTamperEvent =
  bt_Type :: string
  bt_TS :: string
  bt_Seq :: "64 word"
  bt_Asset :: string
  bt_Error :: string
  bt_Expected :: string
  bt_Actual :: string
  bt_Sig :: string

definition json_BPFTamperEvent :: "BPFTamperEvent \<Rightarrow> (string \<times> json) list" where
  "json_BPFTamperEvent e =
     str_field ''type'' (bt_Type e) @
     str_field ''ts'' (bt_TS e) @
     uint_field ''seq'' (bt_Seq e) @
     str_field ''asset'' (bt_Asset e) @
     str_field ''error'' (bt_Error e) @
     str_opt ''expected'' (bt_Expected e) @
     str_opt ''actual'' (bt_Actual e) @
     str_opt ''sig'' (bt_Sig e)"

text \<open>A list that is left out when empty.\<close>

definition list_opt :: "string \<Rightarrow> json list \<Rightarrow> (string \<times> json) list" where
  "list_opt k vs = (if vs = [] then [] else [(k, JArr vs)])"

text \<open>\<^verbatim>\<open>CheckedAt\<close> is the text of the time.\<close>

record DNSDriftEvent =
  dd_Type :: string
  dd_TS :: string
  dd_AddedIPs :: "string list"
  dd_RemovedIPs :: "string list"
  dd_DomainCount :: nat
  dd_CheckedAt :: string
  dd_Sig :: string

definition json_DNSDriftEvent :: "DNSDriftEvent \<Rightarrow> (string \<times> json) list" where
  "json_DNSDriftEvent e =
     str_field ''type'' (dd_Type e) @
     str_field ''ts'' (dd_TS e) @
     list_opt ''added_ips'' (map JStr (dd_AddedIPs e)) @
     list_opt ''removed_ips'' (map JStr (dd_RemovedIPs e)) @
     [(''domain_count'', JNum (itoa (dd_DomainCount e)))] @
     str_field ''checked_at'' (dd_CheckedAt e) @
     str_opt ''sig'' (dd_Sig e)"

section \<open>Lines\<close>

text \<open>\<^verbatim>\<open>base64.StdEncoding\<close>: three bytes become four characters, a shorter end is padded.\<close>

definition b64_alphabet :: string where
  "b64_alphabet = ''ABCDEFGHIJKLMNOPQRSTUVWXYZabcdefghijklmnopqrstuvwxyz0123456789+/''"

definition b64_char :: "nat \<Rightarrow> char" where
  "b64_char i = b64_alphabet ! (i mod 64)"

fun b64_encode :: "nat list \<Rightarrow> string" where
  "b64_encode [] = []"
| "b64_encode [a] = [b64_char (a div 4), b64_char (a mod 4 * 16), CHR ''='', CHR ''='']"
| "b64_encode [a, b] = [b64_char (a div 4), b64_char (a mod 4 * 16 + b div 16), b64_char (b mod 16 * 4), CHR ''='']"
| "b64_encode (a # b # c # rest) =
     [b64_char (a div 4), b64_char (a mod 4 * 16 + b div 16), b64_char (b mod 16 * 4 + c div 64), b64_char (c mod 64)] @ b64_encode rest"

text \<open>A decoded object as a Go map: the last member of a name wins; \<^verbatim>\<open>json.Marshal\<close> writes a map in the order of its
  keys.\<close>

definition go_map :: "(string \<times> json) list \<Rightarrow> (string \<times> json) list" where
  "go_map ms = fold (\<lambda>(k, v) m. AList.update k v m) ms []"

definition canonical :: "(string \<times> json) list \<Rightarrow> string" where
  "canonical m = json_print (JObj (sort_key fst m))"

text \<open>The line without its end; \<open>sign\<close> is the private key's signature over a message, \<open>None\<close> when there is no signer.\<close>

definition marshal_line :: "(string \<Rightarrow> nat list) option \<Rightarrow> (string \<times> json) list \<Rightarrow> string option" where
  "marshal_line sign ms = (case sign of None \<Rightarrow> Some (json_print (JObj ms))
     | Some sign \<Rightarrow> (case json_parse (json_print (JObj ms)) of
         Some (JObj m) \<Rightarrow> (let g = go_map m in
           Some (canonical (AList.update ''sig'' (JStr (b64_encode (sign (canonical g)))) g)))
       | _ \<Rightarrow> None))"

definition appendLine :: "string \<Rightarrow> string \<Rightarrow> string" where
  "appendLine file b = file @ b @ [CHR 0x0A]"

section \<open>Encoded records are well formed\<close>

lemma itoa_head: "hd (itoa n) = CHR ''0'' \<Longrightarrow> n = 0"
proof (induction n rule: less_induct)
  case (less n)
  show ?case
  proof (cases "n < 10")
    case True
    then have "(of_char (hd (itoa n)) :: nat) = 48 + n"
      by (simp add: itoa_1)
    then show ?thesis
      using less.prems by simp
  next
    case False
    then have "itoa n = itoa (n div 10) @ [char_of (48 + n mod 10)]"
      by (subst itoa_rec) simp
    then have "hd (itoa (n div 10)) = CHR ''0''"
      using less.prems by (simp add: hd_append)
    then show ?thesis
      using less.IH [of "n div 10"] False by simp
  qed
qed

lemma int_literal_itoa [simp]: "int_literal (itoa n)"
proof -
  obtain c cs where c: "itoa n = c # cs"
    by (cases "itoa n") (use itoa_nonempty [of n] in auto)
  then have d: "is_digit c" "list_all is_digit (itoa n)"
    using itoa_digits [of n] by simp_all
  then have "strip_minus (itoa n) = itoa n"
    using c by (auto simp: strip_minus_def is_digit_def)
  moreover have "length (itoa n) = 1" if "hd (itoa n) = CHR ''0''"
    using itoa_head [OF that] by (simp add: itoa_1)
  ultimately show ?thesis
    using d by (simp add: int_literal_def)
qed

lemma int_literal_int_text [simp]: "int_literal (int_text i)"
proof (cases "i < 0")
  case True
  then have "itoa (nat (- i)) \<noteq> []" "hd (itoa (nat (- i))) = CHR ''0'' \<Longrightarrow> length (itoa (nat (- i))) = 1"
    using itoa_head [of "nat (- i)"] by auto
  then show ?thesis
    using True itoa_digits by (auto simp: int_text_def int_literal_def strip_minus_def)
qed (simp add: int_text_def)

definition flat :: "(string \<times> json) list \<Rightarrow> bool" where
  "flat ms \<longleftrightarrow> list_all (\<lambda>(k, v). \<forall>d. wf_json d v) ms"

lemma flat_append [simp, field_simps]: "flat (xs @ ys) \<longleftrightarrow> flat xs \<and> flat ys"
  by (simp add: flat_def)

lemma flat_fields [simp, field_simps]:
  "flat (str_field k s)" "flat (str_opt k s)" "flat (uint_field k w)" "flat (uint_opt k w)" "flat (int_field k v)"
  "flat (bool_field k b)" "flat (bool_opt k b)"
  by (simp_all add: flat_def field_defs)

lemmas json_records =
  json_ExecEvent_def json_ProcForkEvent_def json_TCPStateEvent_def json_TCPEvent_def json_TCPResultEvent_def
  json_UDPEvent_def json_HTTPEvent_def json_TLSEvent_def json_QUICCandidateEvent_def json_IPv6Event_def
  json_FSEvent_def json_DenyEvent_def json_KTLSEvent_def json_IOUringSendEvent_def json_EgressBackstopEvent_def
  json_IOUringTLSEvent_def json_BPFAuditEvent_def json_BpfSelfDefenseEvent_def

lemma flat_line [simp]: "flat (json_line e)"
  by (cases e) (simp_all add: json_records)

lemma flat_wf: "flat ms \<Longrightarrow> wf_json maxNestingDepth (JObj ms)"
  by (auto simp: flat_def list_all_iff maxNestingDepth_def)

lemma parse_flat: "flat ms \<Longrightarrow> json_parse (json_print (JObj ms)) = Some (JObj (map (\<lambda>(k, v). (repair k, repair_json v)) ms))"
  using json_parse_print [OF flat_wf] by simp

section \<open>A printed value is one line\<close>

definition printable :: "string \<Rightarrow> bool" where
  "printable s \<longleftrightarrow> list_all (\<lambda>c. 0x20 \<le> (of_char c :: nat)) s"

lemma printable_append [simp]: "printable (s @ t) \<longleftrightarrow> printable s \<and> printable t" "printable (c # t) \<longleftrightarrow> 0x20 \<le> (of_char c :: nat) \<and> printable t"
  "printable []"
  by (simp_all add: printable_def)

lemma printable_no_newline: "printable s \<Longrightarrow> CHR 0x0A \<notin> set s" "printable s \<Longrightarrow> CHR 0x0D \<notin> set s"
  by (auto simp: printable_def list_all_iff)

lemma hex_digit_printable: "d < 16 \<Longrightarrow> 0x20 \<le> (of_char (hex_digit d) :: nat)"
  by (auto simp: hex_digit_def)

lemma printable_escape_ascii: "b < 0x80 \<Longrightarrow> printable (escape_ascii b)"
  by (auto simp: escape_ascii_def htmlSafe_def hex_digit_printable)

lemma scalar_runeError [simp]: "scalar runeError"
  by (simp add: scalar_def runeError_def)

lemma encode_bad: "\<not> scalar r \<Longrightarrow> encode_rune r = encode_rune runeError"
  by (simp add: encode_rune_def)

lemma encode_runeError: "encode_rune runeError = [0xEF, 0xBF, 0xBD]"
  by code_simp

lemma printable_encode: "0x80 \<le> r \<Longrightarrow> printable (of_codes (encode_rune r))"
proof -
  assume r: "0x80 \<le> r"
  have "\<forall>b \<in> set (encode_rune r). 0x20 \<le> b \<and> b < 256"
  proof (cases "scalar r")
    case True
    then show ?thesis
      using encode_wide [OF True r] encode_shape [of r] by (fastforce simp: cont_def)
  next
    case False
    then show ?thesis
      by (simp add: encode_bad encode_runeError)
  qed
  then show ?thesis
    by (auto simp: printable_def of_codes_def list_all_iff)
qed

lemma printable_escape_rune: "printable (escape_rune r bad)"
  using printable_encode [of r] printable_escape_ascii [of r] hex_digit_printable [of "r mod 16"] by (auto simp: escape_rune_def)

lemma printable_escape: "printable (json_escape s)"
proof (induction s rule: json_escape.induct)
  case (1 s)
  then show ?case
    by (subst json_escape.simps) (simp add: printable_escape_rune)
qed

lemma printable_quote [simp]: "printable (json_quote s)"
  by (simp add: json_quote_def printable_escape)

lemma printable_commas: "list_all printable xs \<Longrightarrow> printable (commas xs)"
  by (induction xs rule: commas.induct) simp_all

lemma printable_literal: "int_literal n \<Longrightarrow> printable n"
  by (cases n) (auto simp: int_literal_def strip_minus_def printable_def list_all_iff is_digit_def Let_def split: if_splits)

lemma printable_json: "wf_json d v \<Longrightarrow> printable (json_print v)"
proof (induction d v rule: wf_json.induct)
  case (2 d vs)
  then show ?case
    by (auto simp: list_all_iff intro!: printable_commas)
next
  case (3 d ms)
  then have "printable (json_print v)" if "(k, v) \<in> set ms" for k v
    using that by (auto simp: list_all_iff)
  then show ?case
    by (auto simp: list_all_iff intro!: printable_commas)
qed (simp_all add: printable_literal)

section \<open>Signed lines\<close>

lemma repair_idem [simp]: "repair (repair s) = repair s"
proof -
  define rs where "rs = map (\<lambda>r. if scalar r then r else runeError) (runes (codes s))"
  have e: "map encode_rune (runes (codes s)) = map encode_rune rs"
    using encode_bad by (auto simp: rs_def)
  have "runes (concat (map encode_rune rs)) = rs"
    by (rule runes_concat) (auto simp: rs_def)
  then show ?thesis
    using encode_lt [of rs] unfolding repair_def e by (simp add: codes_of_codes)
qed

lemma repair_json_idem [simp]: "repair_json (repair_json v) = repair_json v"
  by (induction v rule: repair_json.induct) auto

lemma ascii_wf: "list_all is_ascii s \<Longrightarrow> wf_text s"
  unfolding wf_text_def
proof (induction s)
  case (Cons c s)
  then show ?case
    by (subst ValidString.simps) (simp add: is_ascii_def invalid_head_def decode_ascii)
qed (simp add: ValidString.simps)

lemma b64_ascii: "list_all is_ascii (b64_encode bs)"
proof -
  have all: "list_all is_ascii b64_alphabet" and len: "length b64_alphabet = 64"
    by code_simp+
  have "is_ascii (b64_char i)" for i
    using all len by (simp add: b64_char_def list_all_length)
  moreover have "is_ascii CHR ''=''"
    by code_simp
  ultimately show ?thesis
    by (induction bs rule: b64_encode.induct) simp_all
qed

lemma keys_go_map: "fst ` set (fold (\<lambda>(k, v) m. AList.update k v m) ms m0) = fst ` set ms \<union> fst ` set m0"
  by (induction ms arbitrary: m0) (simp_all add: split_beta)

lemma wf_go_map: "wf_map m0 \<Longrightarrow> wf_map (fold (\<lambda>(k, v) m. AList.update k v m) ms m0)"
  by (induction ms arbitrary: m0) (auto simp: wf_map_update)

lemma set_go_map: "set (fold (\<lambda>(k, v) m. AList.update k v m) ms m0) \<subseteq> set ms \<union> set m0"
proof (induction ms arbitrary: m0)
  case (Cons x ms)
  then show ?case
    using set_alist_update_subset [of "fst x" "snd x" m0] by (cases x) fastforce
qed simp

lemma sort_key_wf: "wf_map m \<Longrightarrow> wf_map (sort_key fst m)"
  by (metis distinct_sort distinct_map set_sort)

lemma sort_key_same: "wf_map a \<Longrightarrow> wf_map b \<Longrightarrow> set a = set b \<Longrightarrow> sort_key fst a = sort_key fst (b :: (string \<times> json) list)"
  by (rule sort_key_inj_key_eq) (auto simp: distinct_map intro: set_eq_iff_mset_eq_distinct [THEN iffD1])

text \<open>C19. Encoding twice, first the record and then the map decoded from it, is what makes a signed line checkable: whoever
  reads the line, takes the signature off and writes the rest again has the very text that was signed.\<close>

theorem signed_line_verifiable:
  assumes "marshal_line (Some sign) ms = Some text" "flat ms" "list_all (\<lambda>(k, v). wf_text k \<and> k \<noteq> ''sig'') ms"
  shows "\<exists>m. json_parse text = Some (JObj m) \<and>
    map_of m ''sig'' = Some (JStr (b64_encode (sign (canonical (AList.delete ''sig'' m)))))"
proof -
  let ?rp = "\<lambda>(k, v). (repair k, repair_json v)"
  define g where "g = go_map (map ?rp ms)"
  define v where "v = JStr (b64_encode (sign (canonical g)))"
  define m where "m = sort_key fst (AList.update ''sig'' v g)"
  have txt_eq: "text = json_print (JObj m)"
    using assms(1) parse_flat [OF assms(2)] by (auto simp: marshal_line_def g_def v_def m_def canonical_def Let_def)
  have g: "wf_map g" "set g \<subseteq> set (map ?rp ms)" "''sig'' \<notin> fst ` set g"
    using wf_go_map [of "[]" "map ?rp ms"] set_go_map [of "map ?rp ms" "[]"] keys_go_map [of "map ?rp ms" "[]"] assms(3)
    by (auto simp: g_def go_map_def list_all_iff)
  have m: "wf_map m" "set m = insert (''sig'', v) (set g)"
    using g by (auto simp: m_def sort_key_wf wf_map_update set_alist_update image_iff)
  have sig: "wf_text ''sig''" "repair_json v = v"
    using b64_ascii ascii_wf by (auto simp: v_def intro!: ascii_wf simp: is_ascii_def)
  have rp: "?rp e = e \<and> (\<forall>d. wf_json d (snd e))" if "e \<in> set m" for e
  proof (cases "e = (''sig'', v)")
    case True
    then show ?thesis
      using sig by (simp add: v_def)
  next
    case False
    then have "e \<in> ?rp ` set ms"
      using that m(2) subsetD [OF g(2), of e] by simp
    then obtain k u where e: "e = (repair k, repair_json u)" "(k, u) \<in> set ms"
      by (auto simp del: prod.inject)
    then have "\<forall>d. wf_json d u"
      using assms(2) by (auto simp: flat_def list_all_iff)
    then have "\<forall>d. wf_json d (repair_json u)"
      by (cases u) auto
    then show ?thesis
      using e(1) by simp
  qed
  have "flat m"
    unfolding flat_def list_all_iff using rp by fastforce
  moreover have "map ?rp m = m"
    by (rule map_idI) (use rp in blast)
  ultimately have "json_parse text = Some (JObj m)"
    using parse_flat [of m] txt_eq by simp
  moreover have "map_of m ''sig'' = Some v"
    using m by simp
  moreover have "set (AList.delete ''sig'' m) = set g"
    using m g(3) by (auto simp: set_alist_delete image_iff)
  then have "canonical (AList.delete ''sig'' m) = canonical g"
    using sort_key_same [of "AList.delete ''sig'' m" g] m(1) g(1) by (simp add: canonical_def wf_map_delete)
  ultimately show ?thesis
    by (auto simp: v_def)
qed

definition demo_tamper :: BPFTamperEvent where
  "demo_tamper = \<lparr>bt_Type = ''bpf_tamper'', bt_TS = ''t'', bt_Seq = 7, bt_Asset = ''map:defend_cfg'', bt_Error = ''x<y'',
     bt_Expected = [], bt_Actual = [], bt_Sig = []\<rparr>"

theorem signed_line_verifiable_witness:
  "\<exists>line m. marshal_line (Some codes) (json_BPFTamperEvent demo_tamper) = Some line \<and> json_parse line = Some (JObj m) \<and>
     map_of m ''sig'' = Some (JStr (b64_encode (codes (canonical (AList.delete ''sig'' m)))))"
proof -
  have f: "flat (json_BPFTamperEvent demo_tamper)"
    by (simp add: json_BPFTamperEvent_def)
  obtain line where l: "marshal_line (Some codes) (json_BPFTamperEvent demo_tamper) = Some line"
    using parse_flat [OF f] by (auto simp: marshal_line_def Let_def)
  have k: "list_all (\<lambda>(k, v). wf_text k \<and> k \<noteq> ''sig'') (json_BPFTamperEvent demo_tamper)"
    by code_simp
  show ?thesis
    using l signed_line_verifiable [OF l f k] by blast
qed

end
