(* ===== verification/Report.thy ===== *)
theory Report
  imports Encode Paths
begin

text \<open>
  The reports (\<^verbatim>\<open>internal/report/markdown/markdown.go\<close>): reading the event log line by line through a buffer,
  rolling the lines up into one aggregate, and rendering it as Markdown. A file is its bytes; \<open>rerr\<close> is the error that
  ends the reading, \<open>None\<close> at the end of the file. \<open>ul\<close> is the non-ASCII part of \<^verbatim>\<open>strings.ToLower\<close>. Go's map
  iteration order is a parameter wherever a map is ranged over.
\<close>

section \<open>Decoding into a struct\<close>

text \<open>\<^verbatim>\<open>encoding/json\<close> matches a member to a field by its exact name, or else by its name up to case; a later member
  overrides an earlier one. A value of the wrong kind makes the decoding fail as a whole.\<close>

definition field_of :: "string list \<Rightarrow> string \<Rightarrow> string option" where
  "field_of names key = (if key \<in> set names then Some key else List.find (EqualFold key) names)"

fun fill :: "string list \<Rightarrow> (string \<Rightarrow> json \<Rightarrow> 'a \<Rightarrow> 'a option) \<Rightarrow> (string \<times> json) list \<Rightarrow> 'a \<Rightarrow> 'a option" where
  "fill names store [] x = Some x"
| "fill names store ((k, v) # ms) x = (case field_of names k of None \<Rightarrow> fill names store ms x
     | Some f \<Rightarrow> (case store f v x of None \<Rightarrow> None | Some y \<Rightarrow> fill names store ms y))"

definition into_struct :: "string list \<Rightarrow> (string \<Rightarrow> json \<Rightarrow> 'a \<Rightarrow> 'a option) \<Rightarrow> json \<Rightarrow> 'a \<Rightarrow> 'a option" where
  "into_struct names store v x = (case v of JObj ms \<Rightarrow> fill names store ms x | JNull \<Rightarrow> Some x | _ \<Rightarrow> None)"

definition Unmarshal :: "string list \<Rightarrow> (string \<Rightarrow> json \<Rightarrow> 'a \<Rightarrow> 'a option) \<Rightarrow> 'a \<Rightarrow> string \<Rightarrow> 'a option" where
  "Unmarshal names store zero line = (case json_parse line of None \<Rightarrow> None | Some v \<Rightarrow> into_struct names store v zero)"

definition as_string :: "json \<Rightarrow> string \<Rightarrow> string option" where
  "as_string v old = (case v of JStr s \<Rightarrow> Some s | JNull \<Rightarrow> Some old | _ \<Rightarrow> None)"

definition as_bool :: "json \<Rightarrow> bool \<Rightarrow> bool option" where
  "as_bool v old = (case v of JBool b \<Rightarrow> Some b | JNull \<Rightarrow> Some old | _ \<Rightarrow> None)"

definition as_uint :: "json \<Rightarrow> 'w::len word \<Rightarrow> 'w word option" where
  "as_uint v old = (case v of JNum n \<Rightarrow> if list_all is_digit n \<and> dec_val n < 2 ^ LENGTH('w) then Some (of_nat (dec_val n)) else None
     | JNull \<Rightarrow> Some old | _ \<Rightarrow> None)"

definition as_int :: "json \<Rightarrow> int \<Rightarrow> int option" where
  "as_int v old = (case v of
       JNum n \<Rightarrow> let i = (if strip_minus n = n then int (dec_val n) else - int (dec_val (strip_minus n))) in
         if list_all is_digit (strip_minus n) \<and> - (2 ^ 63) \<le> i \<and> i < 2 ^ 63 then Some i else None
     | JNull \<Rightarrow> Some old | _ \<Rightarrow> None)"

section \<open>The aggregate\<close>

record Deny =
  d_Comm :: string
  d_Protocol :: string
  d_Dst :: string
  d_Dport :: "16 word"
  d_Reason :: string
  d_HookFamily :: string

record ReportBPFStatus =
  rb_Name :: string
  rb_OK :: bool

record Aggregate =
  ag_Mode :: string
  ag_TCPConns :: int
  ag_UDPSends :: int
  ag_HTTPReqs :: int
  ag_Execs :: int
  ag_ProcForks :: int
  ag_FSEvents :: int
  ag_Denies :: "Deny list"
  ag_TLSFull :: int
  ag_TLSPartial :: int
  ag_TLSInferred :: int
  ag_TLSUnknown :: int
  ag_QUICCandidates :: int
  ag_IPv6Events :: int
  ag_KTLSOffload :: int
  ag_TCPStateEvents :: int
  ag_IoUringSend :: int
  ag_IoUringTLS :: int
  ag_BPFAudit :: int
  ag_BPFTamper :: int
  ag_BpfSelfDefenseDenied :: int
  ag_EgressBackstop :: int
  ag_Dests :: counts
  ag_seen :: "string list"
  ag_domains :: "string list"
  ag_EventsSHA256 :: string
  ag_AgentVersion :: string
  ag_KernelRelease :: string
  ag_DetectProfile :: string
  ag_AllowlistIPs :: int
  ag_AllowlistEntries :: int
  ag_RunnerHasIPv6 :: bool
  ag_RunnerEnv :: string
  ag_BPF :: "ReportBPFStatus list"
  ag_DroppedEvents :: "(string \<times> 64 word) list"
  ag_MetaSeen :: bool
  ag_ParseErrors :: int
  ag_TotalEvents :: int
  ag_NonMetaEvents :: int

definition new_aggregate :: Aggregate where
  "new_aggregate = \<lparr>ag_Mode = [], ag_TCPConns = 0, ag_UDPSends = 0, ag_HTTPReqs = 0, ag_Execs = 0, ag_ProcForks = 0,
     ag_FSEvents = 0, ag_Denies = [], ag_TLSFull = 0, ag_TLSPartial = 0, ag_TLSInferred = 0, ag_TLSUnknown = 0,
     ag_QUICCandidates = 0, ag_IPv6Events = 0, ag_KTLSOffload = 0, ag_TCPStateEvents = 0, ag_IoUringSend = 0,
     ag_IoUringTLS = 0, ag_BPFAudit = 0, ag_BPFTamper = 0, ag_BpfSelfDefenseDenied = 0, ag_EgressBackstop = 0,
     ag_Dests = [], ag_seen = [], ag_domains = [], ag_EventsSHA256 = [], ag_AgentVersion = [], ag_KernelRelease = [],
     ag_DetectProfile = [], ag_AllowlistIPs = 0, ag_AllowlistEntries = 0, ag_RunnerHasIPv6 = False, ag_RunnerEnv = [],
     ag_BPF = [], ag_DroppedEvents = [], ag_MetaSeen = False, ag_ParseErrors = 0, ag_TotalEvents = 0, ag_NonMetaEvents = 0\<rparr>"

definition CapturedNothing :: "Aggregate \<Rightarrow> bool" where
  "CapturedNothing a \<longleftrightarrow> ag_NonMetaEvents a = 0"

section \<open>The shapes of the lines\<close>

definition typedLine :: "string \<Rightarrow> string option" where
  "typedLine line = Unmarshal [''type''] (\<lambda>_ v t. as_string v t) [] line"

record netLine =
  nl_Dst :: string
  nl_Dport :: "16 word"
  nl_FQDN :: string
  nl_PossibleQUIC :: bool

definition net_fields :: "string list" where
  "net_fields = [''dst'', ''dport'', ''fqdn'', ''possible_quic'']"

definition store_net :: "string \<Rightarrow> json \<Rightarrow> netLine \<Rightarrow> netLine option" where
  "store_net f v n =
     (if f = ''dst'' then map_option (\<lambda>s. n\<lparr>nl_Dst := s\<rparr>) (as_string v (nl_Dst n))
      else if f = ''dport'' then map_option (\<lambda>p. n\<lparr>nl_Dport := p\<rparr>) (as_uint v (nl_Dport n))
      else if f = ''fqdn'' then map_option (\<lambda>s. n\<lparr>nl_FQDN := s\<rparr>) (as_string v (nl_FQDN n))
      else map_option (\<lambda>b. n\<lparr>nl_PossibleQUIC := b\<rparr>) (as_bool v (nl_PossibleQUIC n)))"

definition no_net :: netLine where
  "no_net = \<lparr>nl_Dst = [], nl_Dport = 0, nl_FQDN = [], nl_PossibleQUIC = False\<rparr>"

record tlsLine =
  tn_Confidence :: string
  tn_SNI :: string
  tn_Dst :: string

definition tls_fields :: "string list" where
  "tls_fields = [''confidence'', ''sni'', ''dst'']"

definition store_tls :: "string \<Rightarrow> json \<Rightarrow> tlsLine \<Rightarrow> tlsLine option" where
  "store_tls f v n =
     (if f = ''confidence'' then map_option (\<lambda>s. n\<lparr>tn_Confidence := s\<rparr>) (as_string v (tn_Confidence n))
      else if f = ''sni'' then map_option (\<lambda>s. n\<lparr>tn_SNI := s\<rparr>) (as_string v (tn_SNI n))
      else map_option (\<lambda>s. n\<lparr>tn_Dst := s\<rparr>) (as_string v (tn_Dst n)))"

definition no_tls :: tlsLine where
  "no_tls = \<lparr>tn_Confidence = [], tn_SNI = [], tn_Dst = []\<rparr>"

record denyLine =
  dl_Deny :: Deny
  dl_Mode :: string

definition deny_fields :: "string list" where
  "deny_fields = [''comm'', ''protocol'', ''dst'', ''dport'', ''reason'', ''hook_family'', ''mode'']"

definition store_deny :: "string \<Rightarrow> json \<Rightarrow> denyLine \<Rightarrow> denyLine option" where
  "store_deny f v l = (let d = dl_Deny l in
     if f = ''comm'' then map_option (\<lambda>s. l\<lparr>dl_Deny := d\<lparr>d_Comm := s\<rparr>\<rparr>) (as_string v (d_Comm d))
     else if f = ''protocol'' then map_option (\<lambda>s. l\<lparr>dl_Deny := d\<lparr>d_Protocol := s\<rparr>\<rparr>) (as_string v (d_Protocol d))
     else if f = ''dst'' then map_option (\<lambda>s. l\<lparr>dl_Deny := d\<lparr>d_Dst := s\<rparr>\<rparr>) (as_string v (d_Dst d))
     else if f = ''dport'' then map_option (\<lambda>p. l\<lparr>dl_Deny := d\<lparr>d_Dport := p\<rparr>\<rparr>) (as_uint v (d_Dport d))
     else if f = ''reason'' then map_option (\<lambda>s. l\<lparr>dl_Deny := d\<lparr>d_Reason := s\<rparr>\<rparr>) (as_string v (d_Reason d))
     else if f = ''hook_family'' then map_option (\<lambda>s. l\<lparr>dl_Deny := d\<lparr>d_HookFamily := s\<rparr>\<rparr>) (as_string v (d_HookFamily d))
     else map_option (\<lambda>s. l\<lparr>dl_Mode := s\<rparr>) (as_string v (dl_Mode l)))"

definition no_deny :: denyLine where
  "no_deny = \<lparr>dl_Deny = \<lparr>d_Comm = [], d_Protocol = [], d_Dst = [], d_Dport = 0, d_Reason = [], d_HookFamily = []\<rparr>, dl_Mode = []\<rparr>"

record metaLine =
  ml_BPF :: "ReportBPFStatus list"
  ml_AllowlistIPs :: int
  ml_AllowlistEntries :: int
  ml_RunnerHasIPv6 :: bool
  ml_RunnerEnv :: string
  ml_DroppedEvents :: "(string \<times> 64 word) list"
  ml_EventsSHA256 :: string
  ml_DetectProfile :: string
  ml_AgentVersion :: string
  ml_KernelRelease :: string
  ml_Mode :: string

text \<open>Decoding an array into a slice reuses the elements the slice already has (from an earlier member of the same name).\<close>

fun into_slice :: "(json \<Rightarrow> 'a \<Rightarrow> 'a option) \<Rightarrow> 'a \<Rightarrow> json list \<Rightarrow> 'a list \<Rightarrow> 'a list option" where
  "into_slice dec zero [] old = Some []"
| "into_slice dec zero (v # vs) old = (case dec v (case old of [] \<Rightarrow> zero | x # _ \<Rightarrow> x) of None \<Rightarrow> None
     | Some x \<Rightarrow> map_option ((#) x) (into_slice dec zero vs (tl old)))"

definition store_bpf :: "string \<Rightarrow> json \<Rightarrow> ReportBPFStatus \<Rightarrow> ReportBPFStatus option" where
  "store_bpf f v b = (if f = ''name'' then map_option (\<lambda>s. b\<lparr>rb_Name := s\<rparr>) (as_string v (rb_Name b))
     else map_option (\<lambda>x. b\<lparr>rb_OK := x\<rparr>) (as_bool v (rb_OK b)))"

definition as_bpf :: "json \<Rightarrow> ReportBPFStatus list \<Rightarrow> ReportBPFStatus list option" where
  "as_bpf v old = (case v of
       JArr vs \<Rightarrow> into_slice (into_struct [''name'', ''ok''] store_bpf) \<lparr>rb_Name = [], rb_OK = False\<rparr> vs old
     | JNull \<Rightarrow> Some [] | _ \<Rightarrow> None)"

fun into_map :: "(string \<times> json) list \<Rightarrow> (string \<times> 64 word) list \<Rightarrow> (string \<times> 64 word) list option" where
  "into_map [] m = Some m"
| "into_map ((k, v) # ms) m = (case as_uint v 0 of None \<Rightarrow> None | Some n \<Rightarrow> into_map ms (AList.update k n m))"

definition as_umap :: "json \<Rightarrow> (string \<times> 64 word) list \<Rightarrow> (string \<times> 64 word) list option" where
  "as_umap v old = (case v of JObj ms \<Rightarrow> into_map ms old | JNull \<Rightarrow> Some [] | _ \<Rightarrow> None)"

definition meta_fields :: "string list" where
  "meta_fields = [''bpf'', ''allowlist_ip_count'', ''allowlist_entry_count'', ''runner_has_ipv6'', ''runner_env'',
     ''dropped_events'', ''events_file_sha256'', ''detect_profile'', ''agent_version'', ''kernel_release'', ''mode'']"

definition store_meta :: "string \<Rightarrow> json \<Rightarrow> metaLine \<Rightarrow> metaLine option" where
  "store_meta f v m =
     (if f = ''bpf'' then map_option (\<lambda>x. m\<lparr>ml_BPF := x\<rparr>) (as_bpf v (ml_BPF m))
      else if f = ''allowlist_ip_count'' then map_option (\<lambda>x. m\<lparr>ml_AllowlistIPs := x\<rparr>) (as_int v (ml_AllowlistIPs m))
      else if f = ''allowlist_entry_count'' then map_option (\<lambda>x. m\<lparr>ml_AllowlistEntries := x\<rparr>) (as_int v (ml_AllowlistEntries m))
      else if f = ''runner_has_ipv6'' then map_option (\<lambda>x. m\<lparr>ml_RunnerHasIPv6 := x\<rparr>) (as_bool v (ml_RunnerHasIPv6 m))
      else if f = ''runner_env'' then map_option (\<lambda>x. m\<lparr>ml_RunnerEnv := x\<rparr>) (as_string v (ml_RunnerEnv m))
      else if f = ''dropped_events'' then map_option (\<lambda>x. m\<lparr>ml_DroppedEvents := x\<rparr>) (as_umap v (ml_DroppedEvents m))
      else if f = ''events_file_sha256'' then map_option (\<lambda>x. m\<lparr>ml_EventsSHA256 := x\<rparr>) (as_string v (ml_EventsSHA256 m))
      else if f = ''detect_profile'' then map_option (\<lambda>x. m\<lparr>ml_DetectProfile := x\<rparr>) (as_string v (ml_DetectProfile m))
      else if f = ''agent_version'' then map_option (\<lambda>x. m\<lparr>ml_AgentVersion := x\<rparr>) (as_string v (ml_AgentVersion m))
      else if f = ''kernel_release'' then map_option (\<lambda>x. m\<lparr>ml_KernelRelease := x\<rparr>) (as_string v (ml_KernelRelease m))
      else map_option (\<lambda>x. m\<lparr>ml_Mode := x\<rparr>) (as_string v (ml_Mode m)))"

definition no_meta :: metaLine where
  "no_meta = \<lparr>ml_BPF = [], ml_AllowlistIPs = 0, ml_AllowlistEntries = 0, ml_RunnerHasIPv6 = False, ml_RunnerEnv = [],
     ml_DroppedEvents = [], ml_EventsSHA256 = [], ml_DetectProfile = [], ml_AgentVersion = [], ml_KernelRelease = [], ml_Mode = []\<rparr>"

section \<open>Rolling up\<close>

definition isBareIPv4 :: "string \<Rightarrow> bool" where
  "isBareIPv4 host = (let labels = splitOn CHR ''.'' host in
     length labels = 4 \<and> list_all (\<lambda>l. l \<noteq> [] \<and> list_all is_digit l) labels)"

definition add_domain :: "(string \<Rightarrow> string) \<Rightarrow> string \<Rightarrow> Aggregate \<Rightarrow> Aggregate" where
  "add_domain ul name a = (if name \<noteq> [] \<and> \<not> isBareIPv4 name then a\<lparr>ag_domains := sadd (toLower ul name) (ag_domains a)\<rparr> else a)"

definition countDest :: "(string \<Rightarrow> string) \<Rightarrow> string \<Rightarrow> Aggregate \<Rightarrow> Aggregate" where
  "countDest ul line a = (case Unmarshal net_fields store_net no_net line of None \<Rightarrow> a
     | Some n \<Rightarrow> let key = (if nl_FQDN n = [] then nl_Dst n else nl_FQDN n) in
         if key = [] then a else add_domain ul (nl_FQDN n) (a\<lparr>ag_Dests := bump key (ag_Dests a)\<rparr>))"

definition countMeta :: "string \<Rightarrow> Aggregate \<Rightarrow> Aggregate" where
  "countMeta line a = (case Unmarshal meta_fields store_meta no_meta line of None \<Rightarrow> a
     | Some m \<Rightarrow> a\<lparr>ag_MetaSeen := True, ag_Mode := (if ml_Mode m = [] then ag_Mode a else ml_Mode m), ag_BPF := ml_BPF m,
         ag_AllowlistIPs := ml_AllowlistIPs m, ag_AllowlistEntries := ml_AllowlistEntries m,
         ag_RunnerHasIPv6 := ml_RunnerHasIPv6 m, ag_RunnerEnv := ml_RunnerEnv m, ag_DroppedEvents := ml_DroppedEvents m,
         ag_DetectProfile := ml_DetectProfile m, ag_AgentVersion := ml_AgentVersion m, ag_KernelRelease := ml_KernelRelease m,
         ag_EventsSHA256 := (if ml_EventsSHA256 m = [] then ag_EventsSHA256 a else ml_EventsSHA256 m)\<rparr>)"

definition countTLS :: "(string \<Rightarrow> string) \<Rightarrow> string \<Rightarrow> Aggregate \<Rightarrow> Aggregate" where
  "countTLS ul line a = (case Unmarshal tls_fields store_tls no_tls line of None \<Rightarrow> a
     | Some t \<Rightarrow> let a = add_domain ul (tn_SNI t) a; c = tn_Confidence t in
         if c = ''full'' then a\<lparr>ag_TLSFull := ag_TLSFull a + 1\<rparr>
         else if c = ''partial'' then a\<lparr>ag_TLSPartial := ag_TLSPartial a + 1\<rparr>
         else if c = ''inferred'' then a\<lparr>ag_TLSInferred := ag_TLSInferred a + 1\<rparr>
         else a\<lparr>ag_TLSUnknown := ag_TLSUnknown a + 1\<rparr>)"

definition countDeny :: "string \<Rightarrow> Aggregate \<Rightarrow> Aggregate" where
  "countDeny line a = (case Unmarshal deny_fields store_deny no_deny line of None \<Rightarrow> a
     | Some l \<Rightarrow> a\<lparr>ag_Mode := (if dl_Mode l = [] then ag_Mode a else dl_Mode l), ag_Denies := ag_Denies a @ [dl_Deny l]\<rparr>)"

definition note_type :: "string \<Rightarrow> Aggregate \<Rightarrow> Aggregate" where
  "note_type t a = a\<lparr>ag_TotalEvents := ag_TotalEvents a + 1,
     ag_NonMetaEvents := (if t = ''meta'' then ag_NonMetaEvents a else ag_NonMetaEvents a + 1), ag_seen := sadd t (ag_seen a)\<rparr>"

definition consume_type :: "(string \<Rightarrow> string) \<Rightarrow> string \<Rightarrow> string \<Rightarrow> Aggregate \<Rightarrow> Aggregate" where
  "consume_type ul t line a =
     (if t = ''meta'' then countMeta line a
      else if t = ''tcp'' then countDest ul line (a\<lparr>ag_TCPConns := ag_TCPConns a + 1\<rparr>)
      else if t = ''tcp6'' then countDest ul line (a\<lparr>ag_TCPConns := ag_TCPConns a + 1, ag_IPv6Events := ag_IPv6Events a + 1\<rparr>)
      else if t = ''udp'' then countDest ul line (a\<lparr>ag_UDPSends := ag_UDPSends a + 1\<rparr>)
      else if t = ''udp6'' then countDest ul line (a\<lparr>ag_UDPSends := ag_UDPSends a + 1, ag_IPv6Events := ag_IPv6Events a + 1\<rparr>)
      else if t = ''http'' then a\<lparr>ag_HTTPReqs := ag_HTTPReqs a + 1\<rparr>
      else if t = ''exec'' then a\<lparr>ag_Execs := ag_Execs a + 1\<rparr>
      else if t = ''proc_fork'' then a\<lparr>ag_ProcForks := ag_ProcForks a + 1\<rparr>
      else if t = ''fs_event'' then a\<lparr>ag_FSEvents := ag_FSEvents a + 1\<rparr>
      else if t = ''quic_candidate'' then a\<lparr>ag_QUICCandidates := ag_QUICCandidates a + 1\<rparr>
      else if t = ''tls'' then countTLS ul line a
      else if t = ''ktls_offload'' then a\<lparr>ag_KTLSOffload := ag_KTLSOffload a + 1\<rparr>
      else if t = ''tcp_state'' then a\<lparr>ag_TCPStateEvents := ag_TCPStateEvents a + 1\<rparr>
      else if t = ''io_uring_send'' then a\<lparr>ag_IoUringSend := ag_IoUringSend a + 1\<rparr>
      else if t = ''io_uring_tls'' then a\<lparr>ag_IoUringTLS := ag_IoUringTLS a + 1\<rparr>
      else if t = ''bpf_audit'' then a\<lparr>ag_BPFAudit := ag_BPFAudit a + 1\<rparr>
      else if t = ''bpf_tamper'' then a\<lparr>ag_BPFTamper := ag_BPFTamper a + 1\<rparr>
      else if t = ''bpf_self_defense'' then a\<lparr>ag_BpfSelfDefenseDenied := ag_BpfSelfDefenseDenied a + 1\<rparr>
      else if t = ''egress_backstop'' then a\<lparr>ag_EgressBackstop := ag_EgressBackstop a + 1\<rparr>
      else if t = ''deny'' then countDeny line a
      else a)"

definition consumeLine :: "(string \<Rightarrow> string) \<Rightarrow> string \<Rightarrow> Aggregate \<Rightarrow> Aggregate" where
  "consumeLine ul line a = (case typedLine line of None \<Rightarrow> a\<lparr>ag_ParseErrors := ag_ParseErrors a + 1\<rparr>
     | Some t \<Rightarrow> consume_type ul t line (note_type t a))"

section \<open>Reading the stream\<close>

datatype slice_end = Delim | ErrBufferFull | ReadErr

text \<open>\<^verbatim>\<open>bufio.Reader.ReadSlice\<close>: up to the delimiter, or a full buffer (never smaller than 16 bytes) without one, or the
  rest of the stream.\<close>

definition ReadSlice :: "nat \<Rightarrow> string \<Rightarrow> string \<times> string \<times> slice_end" where
  "ReadSlice bufsz s = (let n = max bufsz 16 in
     case IndexByte (take n s) (CHR 0x0A) of Some i \<Rightarrow> (take (Suc i) s, drop (Suc i) s, Delim)
     | None \<Rightarrow> if n \<le> length s then (take n s, drop n s, ErrBufferFull) else (s, [], ReadErr))"

lemma ReadSlice_shorter: "ReadSlice bufsz s = (chunk, rest, e) \<Longrightarrow> e \<noteq> ReadErr \<Longrightarrow> length rest < length s"
  by (cases s) (auto simp: ReadSlice_def Let_def split: option.splits if_splits)

function readEventLine :: "nat \<Rightarrow> nat \<Rightarrow> string \<Rightarrow> bool \<Rightarrow> string \<Rightarrow> string \<times> bool \<times> string \<times> slice_end" where
  "readEventLine bufsz mx line oversize s = (case ReadSlice bufsz s of (chunk, rest, e) \<Rightarrow>
     let oversize = (oversize \<or> mx < length line + length chunk); line = (if oversize then [] else line @ chunk) in
     if e = ErrBufferFull then readEventLine bufsz mx line oversize rest else (line, oversize, rest, e))"
  by pat_completeness auto
termination
  by (relation "measure (\<lambda>(_, _, _, _, s). length s)") (auto dest: ReadSlice_shorter [OF sym])

declare readEventLine.simps [simp del]

lemma readEventLine_step:
  assumes "ReadSlice bufsz s = (chunk, rest, e)"
  shows "readEventLine bufsz mx line over s =
    (let over' = (over \<or> mx < length line + length chunk); line' = (if over' then [] else line @ chunk) in
     if e = ErrBufferFull then readEventLine bufsz mx line' over' rest else (line', over', rest, e))"
  by (subst readEventLine.simps) (simp add: assms)

lemma readEventLine_shorter:
  "readEventLine bufsz mx line over s = (line', over', rest, Delim) \<Longrightarrow> length rest < length s"
proof (induction "length s" arbitrary: s line over rule: less_induct)
  case less
  obtain chunk rest1 e1 where r: "ReadSlice bufsz s = (chunk, rest1, e1)"
    by (cases "ReadSlice bufsz s")
  show ?case
  proof (cases "e1 = ErrBufferFull")
    case True
    then have l: "length rest1 < length s"
      using ReadSlice_shorter [OF r] by simp
    then show ?thesis
      using less.hyps [OF l, of "if over \<or> mx < length line + length chunk then [] else line @ chunk"] less.prems True
      by (fastforce simp: readEventLine_step [OF r] Let_def)
  next
    case False
    then show ?thesis
      using less.prems ReadSlice_shorter [OF r] by (simp add: readEventLine_step [OF r] Let_def)
  qed
qed

definition end_char :: "char \<Rightarrow> bool" where
  "end_char c \<longleftrightarrow> c = CHR 0x0D \<or> c = CHR 0x0A"

definition trim_end :: "string \<Rightarrow> string" where
  "trim_end line = rev (dropWhile end_char (rev line))"

definition parse_step :: "(string \<Rightarrow> string) \<Rightarrow> string \<Rightarrow> bool \<Rightarrow> Aggregate \<Rightarrow> Aggregate" where
  "parse_step ul raw oversize a = (if oversize then a\<lparr>ag_ParseErrors := ag_ParseErrors a + 1\<rparr>
     else let line = trim_end raw in if line = [] then a else consumeLine ul line a)"

function parse_loop :: "nat \<Rightarrow> nat \<Rightarrow> (string \<Rightarrow> string) \<Rightarrow> string \<Rightarrow> Aggregate \<Rightarrow> Aggregate" where
  "parse_loop bufsz mx ul s a = (case readEventLine bufsz mx [] False s of (raw, oversize, rest, e) \<Rightarrow>
     if e = Delim then parse_loop bufsz mx ul rest (parse_step ul raw oversize a) else parse_step ul raw oversize a)"
  by pat_completeness auto
termination
  by (relation "measure (\<lambda>(_, _, _, s, _). length s)") (auto dest: readEventLine_shorter [OF sym])

declare parse_loop.simps [simp del]

definition maxEventLineBytes :: nat where "maxEventLineBytes = 4194304"
definition eventReadBufferBytes :: nat where "eventReadBufferBytes = 65536"

text \<open>The aggregate, and the error that ended the reading.\<close>

definition Parse_events :: "(string \<Rightarrow> string) \<Rightarrow> string \<Rightarrow> string option \<Rightarrow> Aggregate \<times> string option" where
  "Parse_events ul stream rerr = (parse_loop eventReadBufferBytes maxEventLineBytes ul stream new_aggregate, rerr)"

section \<open>The buffer does not matter\<close>

text \<open>What reading is to mean: the records between the line ends, each with its end counted, too long ones counted as
  errors and skipped.\<close>

fun split_parse :: "nat \<Rightarrow> (string \<Rightarrow> string) \<Rightarrow> string list \<Rightarrow> Aggregate \<Rightarrow> Aggregate" where
  "split_parse mx ul [] a = a"
| "split_parse mx ul [p] a = parse_step ul p (mx < length p) a"
| "split_parse mx ul (p # ps) a = split_parse mx ul ps (parse_step ul p (mx \<le> length p) a)"

lemma ReadSlice_line:
  assumes "CHR 0x0A \<notin> set p"
  shows "ReadSlice bufsz (p @ CHR 0x0A # t) = (let n = max bufsz 16 in
    if length p < n then (p @ [CHR 0x0A], t, Delim) else (take n p, drop n p @ CHR 0x0A # t, ErrBufferFull))"
proof -
  define n where "n = max bufsz 16"
  have "IndexByte (take n (p @ CHR 0x0A # t)) (CHR 0x0A) = (if length p < n then Some (length p) else None)"
    using assms by (auto simp: IndexByte_append IndexByte_None take_Cons' dest: in_set_takeD)
  then show ?thesis
    unfolding ReadSlice_def Let_def n_def [symmetric] by (auto simp: not_less)
qed

lemma ReadSlice_last:
  assumes "CHR 0x0A \<notin> set p"
  shows "ReadSlice bufsz p = (let n = max bufsz 16 in if n \<le> length p then (take n p, drop n p, ErrBufferFull) else (p, [], ReadErr))"
proof -
  have "IndexByte (take n p) (CHR 0x0A) = None" for n
    using assms by (auto simp: IndexByte_None dest: in_set_takeD)
  then show ?thesis
    by (simp add: ReadSlice_def Let_def)
qed

text \<open>Stitching the chunks together gives the record, or nothing when it is too long; \<open>tail\<close> is what follows the record's
  text in the stream.\<close>

definition whole_line :: "nat \<Rightarrow> string \<Rightarrow> bool \<Rightarrow> string \<Rightarrow> string \<times> bool" where
  "whole_line mx line over p = (let over = (over \<or> mx < length line + length p) in (if over then [] else line @ p, over))"

lemma whole_line_chunks:
  "whole_line mx (fst (whole_line mx line over p)) (snd (whole_line mx line over p)) q = whole_line mx line over (p @ q)"
  by (auto simp: whole_line_def Let_def)

lemma whole_line_take:
  assumes "whole_line mx line over (take n p) = (line', over')"
  shows "whole_line mx line' over' (drop n p @ q) = whole_line mx line over (p @ q)"
  using whole_line_chunks [of mx line over "take n p" "drop n p @ q"] assms by (simp flip: append_assoc)

lemma readEventLine_whole:
  "ReadSlice bufsz s = (chunk, rest, e) \<Longrightarrow> readEventLine bufsz mx line over s =
    (case whole_line mx line over chunk of (line', over') \<Rightarrow>
     if e = ErrBufferFull then readEventLine bufsz mx line' over' rest else (line', over', rest, e))"
  by (simp add: readEventLine_step whole_line_def Let_def)

lemma readEventLine_line:
  "CHR 0x0A \<notin> set p \<Longrightarrow> readEventLine bufsz mx line over (p @ CHR 0x0A # t) =
    (case whole_line mx line over (p @ [CHR 0x0A]) of (line', over') \<Rightarrow> (line', over', t, Delim))"
proof (induction "length p" arbitrary: p line over rule: less_induct)
  case less
  define n where "n = max bufsz 16"
  show ?case
  proof (cases "length p < n")
    case True
    then have r: "ReadSlice bufsz (p @ CHR 0x0A # t) = (p @ [CHR 0x0A], t, Delim)"
      using ReadSlice_line [OF less.prems, of bufsz t] unfolding n_def by (simp add: Let_def)
    show ?thesis
      by (simp add: readEventLine_whole [OF r])
  next
    case False
    then have r: "ReadSlice bufsz (p @ CHR 0x0A # t) = (take n p, drop n p @ CHR 0x0A # t, ErrBufferFull)"
      using ReadSlice_line [OF less.prems, of bufsz t] by (simp add: n_def Let_def)
    have "CHR 0x0A \<notin> set (drop n p)" "length (drop n p) < length p"
      using less.prems False by (auto simp: n_def dest: in_set_dropD)
    then show ?thesis
      using less.hyps [of "drop n p"] by (auto simp: readEventLine_whole [OF r] whole_line_take split: prod.split)
  qed
qed

lemma readEventLine_last:
  "CHR 0x0A \<notin> set p \<Longrightarrow> readEventLine bufsz mx line over p =
    (case whole_line mx line over p of (line', over') \<Rightarrow> (line', over', [], ReadErr))"
proof (induction "length p" arbitrary: p line over rule: less_induct)
  case less
  define n where "n = max bufsz 16"
  show ?case
  proof (cases "n \<le> length p")
    case False
    then have r: "ReadSlice bufsz p = (p, [], ReadErr)"
      using ReadSlice_last [OF less.prems, of bufsz] unfolding n_def by (simp add: Let_def)
    show ?thesis
      by (simp add: readEventLine_whole [OF r])
  next
    case True
    then have r: "ReadSlice bufsz p = (take n p, drop n p, ErrBufferFull)"
      using ReadSlice_last [OF less.prems, of bufsz] by (simp add: n_def Let_def)
    have "CHR 0x0A \<notin> set (drop n p)" "length (drop n p) < length p"
      using less.prems True by (auto simp: n_def dest: in_set_dropD)
    then show ?thesis
      using less.hyps [of "drop n p"] whole_line_take [of mx line over n p _ _ "[]"]
      by (auto simp: readEventLine_whole [OF r] split: prod.split)
  qed
qed

lemma trim_end_Nil [simp]: "trim_end [] = []"
  by (simp add: trim_end_def)

lemma trim_end_newline [simp]: "trim_end (p @ [CHR 0x0A]) = trim_end p"
  by (simp add: trim_end_def end_char_def)

lemma parse_loop_line:
  "CHR 0x0A \<notin> set p \<Longrightarrow>
   parse_loop bufsz mx ul (p @ CHR 0x0A # t) a = parse_loop bufsz mx ul t (parse_step ul p (mx \<le> length p) a)"
  by (subst parse_loop.simps) (auto simp: readEventLine_line whole_line_def Let_def parse_step_def)

lemma parse_loop_last: "CHR 0x0A \<notin> set p \<Longrightarrow> parse_loop bufsz mx ul p a = parse_step ul p (mx < length p) a"
  by (subst parse_loop.simps) (simp add: readEventLine_last whole_line_def Let_def parse_step_def)

lemma parse_loop_split: "parse_loop bufsz mx ul s a = split_parse mx ul (splitOn (CHR 0x0A) s) a"
proof (induction "length s" arbitrary: s a rule: less_induct)
  case less
  show ?case
  proof (cases "CHR 0x0A \<in> set s")
    case False
    then show ?thesis
      by (simp add: parse_loop_last splitOn_single)
  next
    case True
    then obtain p t where s: "s = p @ CHR 0x0A # t" "CHR 0x0A \<notin> set p"
      by (meson split_list_first)
    have "splitOn (CHR 0x0A) s = p # splitOn (CHR 0x0A) t"
      using s by (simp add: splitOn_append_sep splitOn_single)
    moreover obtain q qs where "splitOn (CHR 0x0A) t = q # qs"
      by (cases "splitOn (CHR 0x0A) t") auto
    ultimately show ?thesis
      using s less by (simp add: parse_loop_line)
  qed
qed

section \<open>The lines of the agent\<close>

text \<open>The names of the fields of all records.\<close>

definition event_keys :: "string list" where
  "event_keys = [''action'', ''actual'', ''added_ips'', ''af'', ''asset'', ''checked_at'', ''child_comm'', ''child_pid'', ''child_pidns_inum'',
     ''child_sid'', ''cmd'', ''comm'', ''confidence'', ''confidence_reason'', ''datagram_len'', ''direction'', ''dport'', ''dst'',
     ''dst_ip'', ''dst_port'', ''error'', ''exe'', ''exe_dev'', ''exe_inode'', ''exe_sha256'', ''expected'', ''fd'',
     ''fqdn'', ''fqdn_provenance'', ''has_tls_hello'', ''hook_family'', ''host'', ''ipv6'', ''match_kind'', ''method'', ''mode'',
     ''new_state'', ''note'', ''old_state'', ''op'', ''parent_comm'', ''parent_pid'', ''path'', ''pid'', ''policy'',
     ''possible_quic'', ''proto'', ''protocol'', ''reason'', ''reassembled_sni'', ''removed_ips'', ''result'', ''result_str'', ''seq'',
     ''sig'', ''sni'', ''src_ip'', ''src_port'', ''target_id'', ''target_kind'', ''tgid'', ''thread_id'', ''timestamp_ns'',
     ''ts'']"

definition key_ok :: "string \<Rightarrow> bool" where
  "key_ok k \<longleftrightarrow> wf_text k \<and> field_of [''type''] k = None"

lemma event_keys_ok: "list_all key_ok event_keys"
  by code_simp

lemmas key_ok_each = event_keys_ok [unfolded event_keys_def list.pred_inject]

lemma key_ok_fields [simp]:
  assumes "key_ok k"
  shows "list_all (\<lambda>m. key_ok (fst m)) (str_field k s)" "list_all (\<lambda>m. key_ok (fst m)) (str_opt k s)"
    "list_all (\<lambda>m. key_ok (fst m)) (uint_field k w)" "list_all (\<lambda>m. key_ok (fst m)) (uint_opt k w)"
    "list_all (\<lambda>m. key_ok (fst m)) (int_field k v)" "list_all (\<lambda>m. key_ok (fst m)) (bool_field k b)"
    "list_all (\<lambda>m. key_ok (fst m)) (bool_opt k b)"
  using assms by (simp_all add: field_defs)

lemma type_first: "str_field ''type'' t @ ms = (''type'', JStr t) # ms"
  by (simp add: str_field_def)

lemma json_line_head: "\<exists>ms. json_line e = (''type'', JStr (line_type e)) # ms \<and> list_all (\<lambda>m. key_ok (fst m)) ms"
  by (cases e) (simp_all add: json_records type_first key_ok_each)

lemma fill_skip: "list_all (\<lambda>m. field_of names (fst m) = None) ms \<Longrightarrow> fill names store ms x = Some x"
  by (induction ms) auto

declare json_print.simps [simp del]

text \<open>A member as it is read back.\<close>

definition read_member :: "string \<times> json \<Rightarrow> string \<times> json" where
  "read_member m = (case m of (k, v) \<Rightarrow> (repair k, repair_json v))"

lemma read_member_wf: "wf_text k \<Longrightarrow> read_member (k, v) = (k, repair_json v)"
  by (simp add: read_member_def)

lemma Unmarshal_flat:
  "flat ms \<Longrightarrow> Unmarshal names store zero (json_print (JObj ms)) = fill names store (map read_member ms) zero"
  by (simp add: Unmarshal_def parse_flat into_struct_def read_member_def [abs_def])

lemma wf_type: "wf_text ''type''" "field_of [''type''] ''type'' = Some ''type''"
  by code_simp+

lemma typedLine_line: "typedLine (json_print (JObj (json_line e))) = Some (repair (line_type e))"
proof -
  obtain ms where ms: "json_line e = (''type'', JStr (line_type e)) # ms" "list_all (\<lambda>m. key_ok (fst m)) ms"
    using json_line_head by blast
  have "fill [''type''] (\<lambda>_ v t. as_string v t) (map read_member ms) x = Some x" for x
    using ms(2) by (intro fill_skip) (auto simp: list_all_iff key_ok_def read_member_def)
  then show ?thesis
    using flat_line [of e] ms(1) by (simp add: typedLine_def Unmarshal_flat wf_type read_member_wf as_string_def)
qed

definition deny_keys :: "string list" where
  "deny_keys = [''type'', ''ts'', ''seq'', ''pid'', ''tgid'', ''thread_id'', ''comm'', ''protocol'', ''dst'', ''dport'', ''reason'',
     ''mode'', ''hook_family'', ''match_kind'', ''sig'']"

lemma deny_keys_ok:
  "map (\<lambda>k. (wf_text k, field_of deny_fields k)) deny_keys =
     map (Pair True) [None, None, None, None, None, None, Some ''comm'', Some ''protocol'', Some ''dst'', Some ''dport'', Some ''reason'',
       Some ''mode'', Some ''hook_family'', None, None]"
  by code_simp

lemma as_uint_itoa [simp]: "as_uint (JNum (itoa (unat (w :: 'w::len word)))) old = Some w"
  using itoa_digits [of "unat w"] unsigned_less [of w, where 'a = nat] by (simp add: as_uint_def)

lemma as_string_JStr [simp]: "as_string (JStr s) old = Some s"
  by (simp add: as_string_def)

text \<open>What a report row keeps of a deny record.\<close>

definition deny_of :: "DenyEvent \<Rightarrow> Deny" where
  "deny_of e = \<lparr>d_Comm = repair (dn_Comm e), d_Protocol = repair (dn_Protocol e), d_Dst = repair (dn_Dst e), d_Dport = dn_Dport e,
     d_Reason = repair (dn_Reason e), d_HookFamily = repair (dn_HookFamily e)\<rparr>"

lemmas deny_keys_each = deny_keys_ok [unfolded deny_keys_def list.map list.inject prod.inject, simplified]

lemma fill_member:
  "wf_text k \<Longrightarrow> field_of names k = None \<Longrightarrow> fill names store (map read_member ((k, v) # ms)) x = fill names store (map read_member ms) x"
  "wf_text k \<Longrightarrow> field_of names k = Some f \<Longrightarrow> fill names store (map read_member ((k, v) # ms)) x =
     (case store f (repair_json v) x of None \<Rightarrow> None | Some y \<Rightarrow> fill names store (map read_member ms) y)"
  by (simp_all add: read_member_wf)

lemma fill_none: "fill names store (map read_member []) x = Some x"
  by simp

lemma repair_Nil [simp]: "repair [] = []"
  by code_simp

lemma Unmarshal_deny:
  "Unmarshal deny_fields store_deny no_deny (json_print (JObj (json_DenyEvent e))) = Some \<lparr>dl_Deny = deny_of e, dl_Mode = repair (dn_Mode e)\<rparr>"
proof -
  have f: "flat (json_DenyEvent e)"
    using flat_line [of "JDenyEvent e"] by simp
  show ?thesis
    unfolding Unmarshal_flat [OF f]
    by (cases "dn_HookFamily e = []"; cases "dn_MatchKind e = []"; cases "dn_Sig e = []")
      (simp_all only: json_DenyEvent_def field_defs append.simps if_True if_False fill_member fill_none deny_keys_each,
       simp_all add: store_deny_def no_deny_def deny_of_def fill_member fill_none deny_keys_each del: list.map fill.simps)
qed

section \<open>The log as a file\<close>

definition log_text :: "(string \<times> json) list list \<Rightarrow> string" where
  "log_text mss = concat (map (\<lambda>ms. json_print (JObj ms) @ [CHR 0x0A]) mss)"

lemma printed_line:
  assumes "flat ms"
  shows "CHR 0x0A \<notin> set (json_print (JObj ms))" "trim_end (json_print (JObj ms)) = json_print (JObj ms)" "json_print (JObj ms) \<noteq> []"
proof -
  have p: "printable (json_print (JObj ms))"
    using printable_json [OF flat_wf [OF assms]] .
  then show "CHR 0x0A \<notin> set (json_print (JObj ms))"
    by (rule printable_no_newline)
  show "json_print (JObj ms) \<noteq> []" "trim_end (json_print (JObj ms)) = json_print (JObj ms)"
    by (simp_all add: json_print.simps trim_end_def end_char_def)
qed

lemma splitOn_log: "list_all flat mss \<Longrightarrow> splitOn (CHR 0x0A) (log_text mss) = map (\<lambda>ms. json_print (JObj ms)) mss @ [[]]"
proof (induction mss)
  case (Cons ms mss)
  then have "splitOn (CHR 0x0A) (json_print (JObj ms)) = [json_print (JObj ms)]"
    by (simp add: splitOn_single printed_line)
  then show ?case
    using Cons by (simp add: log_text_def splitOn_append_sep)
qed (simp add: log_text_def)

lemma split_parse_last: "ps \<noteq> [] \<Longrightarrow> split_parse mx ul (p # ps) a = split_parse mx ul ps (parse_step ul p (mx \<le> length p) a)"
  by (cases ps) simp_all

lemma parse_log:
  "list_all (\<lambda>ms. flat ms \<and> length (json_print (JObj ms)) < mx) mss \<Longrightarrow>
   parse_loop bufsz mx ul (log_text mss) a = fold (\<lambda>ms a. consumeLine ul (json_print (JObj ms)) a) mss a"
proof -
  assume all: "list_all (\<lambda>ms. flat ms \<and> length (json_print (JObj ms)) < mx) mss"
  then have "split_parse mx ul (map (\<lambda>ms. json_print (JObj ms)) mss @ [[]]) a =
      fold (\<lambda>ms a. consumeLine ul (json_print (JObj ms)) a) mss a"
    by (induction mss arbitrary: a) (auto simp: split_parse_last parse_step_def printed_line)
  then show ?thesis
    using all by (simp add: parse_loop_split splitOn_log list_all_iff)
qed

text \<open>Nothing a line carries besides its type and, for a deny, its fields decides whether it is counted.\<close>

lemma add_domain_frame [simp]: "ag_Denies (add_domain ul n a) = ag_Denies a" "ag_TotalEvents (add_domain ul n a) = ag_TotalEvents a"
  "ag_ParseErrors (add_domain ul n a) = ag_ParseErrors a"
  by (simp_all add: add_domain_def)

lemma consume_type_frame:
  "t \<noteq> ''deny'' \<Longrightarrow> ag_Denies (consume_type ul t line a) = ag_Denies a"
  "ag_TotalEvents (consume_type ul t line a) = ag_TotalEvents a"
  "ag_ParseErrors (consume_type ul t line a) = ag_ParseErrors a"
  by (simp_all add: consume_type_def countDest_def countMeta_def countTLS_def countDeny_def Let_def split: option.splits)

definition typed :: "jsonl \<Rightarrow> bool" where
  "typed e \<longleftrightarrow> wf_text (line_type e) \<and> (line_type e = ''deny'' \<longleftrightarrow> (\<exists>d. e = JDenyEvent d))"

fun denies_in :: "jsonl list \<Rightarrow> Deny list" where
  "denies_in [] = []"
| "denies_in (e # es) = (case e of JDenyEvent d \<Rightarrow> [deny_of d] | _ \<Rightarrow> []) @ denies_in es"

lemma consume_line:
  assumes "typed e"
  shows "ag_TotalEvents (consumeLine ul (json_print (JObj (json_line e))) a) = ag_TotalEvents a + 1"
    "ag_ParseErrors (consumeLine ul (json_print (JObj (json_line e))) a) = ag_ParseErrors a"
    "ag_Denies (consumeLine ul (json_print (JObj (json_line e))) a) = ag_Denies a @ denies_in [e]"
proof -
  have c: "consumeLine ul (json_print (JObj (json_line e))) a =
      consume_type ul (line_type e) (json_print (JObj (json_line e))) (note_type (line_type e) a)"
    using assms by (simp add: consumeLine_def typedLine_line typed_def)
  show "ag_TotalEvents (consumeLine ul (json_print (JObj (json_line e))) a) = ag_TotalEvents a + 1"
    "ag_ParseErrors (consumeLine ul (json_print (JObj (json_line e))) a) = ag_ParseErrors a"
    by (simp_all add: c consume_type_frame note_type_def)
  show "ag_Denies (consumeLine ul (json_print (JObj (json_line e))) a) = ag_Denies a @ denies_in [e]"
  proof (cases "\<exists>d. e = JDenyEvent d")
    case True
    then show ?thesis
      using assms unfolding c by (auto simp: typed_def consume_type_def countDeny_def Unmarshal_deny note_type_def)
  next
    case False
    then show ?thesis
      using assms unfolding c by (auto simp: typed_def consume_type_frame note_type_def split: jsonl.splits)
  qed
qed

lemma parse_lines_counted:
  "list_all typed es \<Longrightarrow> b = fold (\<lambda>e a. consumeLine ul (json_print (JObj (json_line e))) a) es a \<Longrightarrow>
   ag_TotalEvents b = ag_TotalEvents a + int (length es) \<and> ag_ParseErrors b = ag_ParseErrors a \<and> ag_Denies b = ag_Denies a @ denies_in es"
  by (induction es arbitrary: a) (auto simp: consume_line)

definition file_text :: "jsonl list \<Rightarrow> string" where
  "file_text es = log_text (map json_line es)"

text \<open>C18. The report is a faithful summary of the log: reading back what the agent wrote, through the buffer and whatever
  the texts in the records contain, counts every line once, none as malformed, and lists exactly the logged denies, in
  their order, with process, protocol, destination, port, reason and hook as logged (an invalid byte is U+FFFD).\<close>

theorem log_is_reported:
  assumes "list_all typed es" "list_all (\<lambda>e. length (json_print (JObj (json_line e))) < maxEventLineBytes) es"
    and "Parse_events ul (file_text es) rerr = (a, err)"
  shows "ag_TotalEvents a = int (length es) \<and> ag_ParseErrors a = 0 \<and> ag_Denies a = denies_in es"
proof -
  have "a = fold (\<lambda>ms a. consumeLine ul (json_print (JObj ms)) a) (map json_line es) new_aggregate"
    using assms(2,3) parse_log [of maxEventLineBytes "map json_line es" eventReadBufferBytes ul new_aggregate]
    by (simp add: Parse_events_def file_text_def list_all_iff)
  then show ?thesis
    using parse_lines_counted [OF assms(1), of a ul new_aggregate] by (simp add: fold_map comp_def new_aggregate_def)
qed

text \<open>C20. Reading through a buffer of 64 KiB, with records stitched together from several fills, is reading the records
  between the line ends: no buffer boundary splits, joins, repeats or drops a record, and one that is too long costs
  exactly itself.\<close>

theorem parse_is_split:
  "Parse_events ul stream rerr = (split_parse maxEventLineBytes ul (splitOn (CHR 0x0A) stream) new_aggregate, rerr)"
  by (simp add: Parse_events_def parse_loop_split)

definition demo_denied :: DenyEvent where
  "demo_denied = \<lparr>dn_Type = ''deny'', dn_TS = ''t'', dn_Seq = 1, dn_PID = 7, dn_TGID = 7, dn_ThreadID = 7, dn_Comm = ''curl|'' @ [CHR 0x0A],
     dn_Protocol = ''tcp'', dn_Dst = ''1.2.3.4'', dn_Dport = 443, dn_Reason = ''r'', dn_Mode = ''defend'', dn_HookFamily = ''lsm'',
     dn_MatchKind = ''unknown'', dn_Sig = []\<rparr>"

theorem log_is_reported_witness:
  "\<exists>a. Parse_events (\<lambda>s. s) (file_text [JDenyEvent demo_denied]) None = (a, None) \<and> ag_TotalEvents a = 1 \<and> ag_Denies a = [deny_of demo_denied]"
proof -
  have t: "list_all typed [JDenyEvent demo_denied]"
    using ascii_wf [of "''deny''"] by (simp add: typed_def demo_denied_def is_ascii_def)
  have l: "list_all (\<lambda>e. length (json_print (JObj (json_line e))) < maxEventLineBytes) [JDenyEvent demo_denied]"
    by code_simp
  obtain a where a: "Parse_events (\<lambda>s. s) (file_text [JDenyEvent demo_denied]) None = (a, None)"
    by (simp add: Parse_events_def)
  show ?thesis
    using a log_is_reported [OF t l a] by simp
qed

end
