(* ===== verification/AllowInputs.thy ===== *)
theory AllowInputs
  imports Config
begin

text \<open>
  The allow list as the operator writes it: tokens from the action's inputs and files
  (\<^verbatim>\<open>internal/actioncli/allowlist_files.go\<close>) and the stand-alone check
  \<^verbatim>\<open>coldstep validate\<close> (\<^verbatim>\<open>cmd/coldstep/validate.go\<close>).

  A file's content is a string, \<open>None\<close> when it cannot be read. The links of the file system may change between
  two looks at the same path: \<open>eval k\<close> is their state at the \<open>k\<close>-th look.
\<close>

section \<open>Classifying tokens\<close>

definition digits_between :: "nat \<Rightarrow> nat \<Rightarrow> string \<Rightarrow> bool" where
  "digits_between lo hi s \<longleftrightarrow> lo \<le> length s \<and> length s \<le> hi \<and> list_all is_digit s"

text \<open>The regular expression of four groups of up to three digits with an optional slash and one or two digits.\<close>

definition ipv4LiteralOrCIDR :: "string \<Rightarrow> bool" where
  "ipv4LiteralOrCIDR s = (case splitOn CHR ''.'' s of
     [a, b, c, d] \<Rightarrow> digits_between 1 3 a \<and> digits_between 1 3 b \<and> digits_between 1 3 c \<and>
       (case Cut d CHR ''/'' of None \<Rightarrow> digits_between 1 3 d
        | Some (x, m) \<Rightarrow> digits_between 1 3 x \<and> digits_between 1 2 m)
   | _ \<Rightarrow> False)"

definition isIPLiteralOrCIDR :: "string \<Rightarrow> bool" where
  "isIPLiteralOrCIDR t = (if ipv4LiteralOrCIDR t then True
     else if ContainsStr t ''/'' then ParseCIDR t \<noteq> None else ParseIP t \<noteq> None)"

record classifiedAllow =
  ca_domains :: "string list"
  ca_hosts :: "string list"
  ca_ips :: "string list"
  ca_ignoredNets :: "string list"

definition classify_token :: "string \<Rightarrow> classifiedAllow \<Rightarrow> classifiedAllow" where
  "classify_token t0 c = (let t = TrimSpace t0 in
     if t = [] then c
     else if HasPrefix t ''!'' then
       (let inner = TrimPrefix t ''!'' in
        if ipv4LiteralOrCIDR inner then c\<lparr>ca_ignoredNets := ca_ignoredNets c @ [inner]\<rparr> else c)
     else if isIPLiteralOrCIDR t then c\<lparr>ca_ips := ca_ips c @ [t]\<rparr>
     else c\<lparr>ca_hosts := ca_hosts c @ [t], ca_domains := ca_domains c @ [t]\<rparr>)"

definition no_allow :: classifiedAllow where
  "no_allow = \<lparr>ca_domains = [], ca_hosts = [], ca_ips = [], ca_ignoredNets = []\<rparr>"

definition classifyAllowTokens :: "string list \<Rightarrow> classifiedAllow" where
  "classifyAllowTokens tokens = fold classify_token tokens no_allow"

text \<open>The wildcard entries defend mode refuses, in order and once each; none is acceptance.\<close>

definition rejectDefendWildcards :: "classifiedAllow \<Rightarrow> string list" where
  "rejectDefendWildcards c = foldl (\<lambda>bad h. if HasPrefix h ''*.'' then sadd h bad else bad) [] (ca_hosts c @ ca_domains c)"

definition validateAllowPolicy :: "(string \<Rightarrow> string) \<Rightarrow> classifiedAllow \<Rightarrow> bool \<Rightarrow> policy_error option" where
  "validateAllowPolicy ul c noDefaultIgnoredNets =
     (case BuildPolicyEx ul (Join_sep '','' (ca_hosts c)) (Join_sep '','' (ca_ips c)) (Join_sep '','' (ca_ignoredNets c))
        (\<not> noDefaultIgnoredNets) of Inl e \<Rightarrow> Some e | Inr _ \<Rightarrow> None)"

section \<open>Tokens of inputs and files\<close>

definition sep_chars :: "char list \<Rightarrow> string \<Rightarrow> nat" where
  "sep_chars cs s = (case s of [] \<Rightarrow> 0 | c # _ \<Rightarrow> if c \<in> set cs then 1 else 0)"

definition splitTrimNonEmpty :: "string \<Rightarrow> (string \<Rightarrow> nat) \<Rightarrow> string list" where
  "splitTrimNonEmpty s sep = filter (\<lambda>p. p \<noteq> []) (map TrimSpace (fieldsFunc sep s []))"

definition splitCommaPaths :: "string \<Rightarrow> string list" where
  "splitCommaPaths csv = splitTrimNonEmpty csv (sep_chars '','')"

definition inline_seps :: "char list" where
  "inline_seps = '', '' @ [CHR 0x0A, CHR 0x0D, CHR 0x09]"

definition splitAllowInlineTokens :: "string \<Rightarrow> string list" where
  "splitAllowInlineTokens inline = splitTrimNonEmpty inline (sep_chars inline_seps)"

definition strip_comment :: "string \<Rightarrow> string" where
  "strip_comment line = (case IndexByte line CHR ''#'' of None \<Rightarrow> line | Some i \<Rightarrow> take i line)"

definition line_tokens :: "string \<Rightarrow> string list" where
  "line_tokens line0 = (let line = TrimSpace line0 in
     if line = [] \<or> HasPrefix line ''#'' then []
     else let line = (if CHR ''#'' \<in> set line then TrimSpace (strip_comment line) else line) in
       if line = [] then [] else splitTrimNonEmpty line (sep_chars ('', '' @ [CHR 0x09])))"

definition parseAllowlistFileBody :: "string \<Rightarrow> string list" where
  "parseAllowlistFileBody data = concat (map line_tokens (splitOn CHR 0x0A data))"

definition maxAllowlistFiles :: nat where "maxAllowlistFiles = 64"
definition maxAllowlistFileBytes :: nat where "maxAllowlistFileBytes = 8388608"

datatype allow_error = TooManyFiles nat | NoWorkspace | FilePath string path_error | FileUnreadable string
  | FileTooLarge string | PathChanged string

definition readFileCapped :: "(string \<Rightarrow> string option) \<Rightarrow> string \<Rightarrow> nat \<Rightarrow> string option option" where
  "readFileCapped file path maxBytes = (case file path of None \<Rightarrow> None
     | Some data \<Rightarrow> Some (if maxBytes < length data then None else Some data))"

fun read_allow_files :: "(nat \<Rightarrow> string \<Rightarrow> string option) \<Rightarrow> (string \<Rightarrow> string option) \<Rightarrow> string \<Rightarrow> nat \<Rightarrow> string list \<Rightarrow>
    allow_error + string list" where
  "read_allow_files eval file ws k [] = Inr []"
| "read_allow_files eval file ws k (rel # rels) = (case resolvePathUnderWorkspace (eval k) ws rel of
     Inl e \<Rightarrow> Inl (FilePath rel e)
   | Inr full \<Rightarrow> (case readFileCapped file full maxAllowlistFileBytes of None \<Rightarrow> Inl (FileUnreadable rel)
     | Some None \<Rightarrow> Inl (FileTooLarge rel)
     | Some (Some body) \<Rightarrow>
       if resolvePathUnderWorkspace (eval (k + 1)) ws rel \<noteq> Inr full then Inl (PathChanged rel)
       else (case read_allow_files eval file ws (k + 2) rels of Inl e \<Rightarrow> Inl e
         | Inr toks \<Rightarrow> Inr (parseAllowlistFileBody body @ toks))))"

definition mergeInlineAndAllowlistFiles :: "(nat \<Rightarrow> string \<Rightarrow> string option) \<Rightarrow> (string \<Rightarrow> string option) \<Rightarrow> string option \<Rightarrow>
    string \<Rightarrow> string \<Rightarrow> string \<Rightarrow> allow_error + string" where
  "mergeInlineAndAllowlistFiles eval file cwd workspaceRoot inline filesCSV = (let paths = splitCommaPaths filesCSV in
     if paths = [] then Inr (TrimSpace inline)
     else if maxAllowlistFiles < length paths then Inl (TooManyFiles (length paths))
     else (case Abs cwd workspaceRoot of None \<Rightarrow> Inl NoWorkspace
       | Some ws \<Rightarrow> (case read_allow_files eval file ws 0 paths of Inl e \<Rightarrow> Inl e
         | Inr toks \<Rightarrow> Inr (Join_sep '','' (splitAllowInlineTokens inline @ toks)))))"

section \<open>The stand-alone check\<close>

datatype entryKind = kindIP | kindCIDR | kindDomain | kindWildcardDomain | kindNegation | kindError

datatype entry_error = NegationUnsupported | BadCIDR | IPv6CIDR | IPv6Address | EmptyWildcard | InnerWildcard | BadHostname

definition label_ok :: "string \<Rightarrow> bool" where
  "label_ok l \<longleftrightarrow> l \<noteq> [] \<and> hd l \<noteq> CHR ''-'' \<and> last l \<noteq> CHR ''-'' \<and>
     list_all (\<lambda>c. is_lower c \<or> is_digit c \<or> c = CHR ''-'') l"

definition validateDomainLabel :: "(string \<Rightarrow> string) \<Rightarrow> string \<Rightarrow> bool" where
  "validateDomainLabel ul s \<longleftrightarrow> s \<noteq> [] \<and> list_all label_ok (splitOn CHR ''.'' (toLower ul s))"

definition validateEntry :: "(string \<Rightarrow> string) \<Rightarrow> string \<Rightarrow> entryKind \<times> entry_error option" where
  "validateEntry ul raw =
     (if HasPrefix raw ''!'' then (kindNegation, Some NegationUnsupported)
      else if ContainsStr raw ''/'' then
        (case ParseCIDR raw of None \<Rightarrow> (kindError, Some BadCIDR)
         | Some (ip, _) \<Rightarrow> if To4 ip = None then (kindError, Some IPv6CIDR) else (kindCIDR, None))
      else (case ParseIP raw of
         Some ip \<Rightarrow> if To4 ip = None then (kindError, Some IPv6Address) else (kindIP, None)
       | None \<Rightarrow>
         if HasPrefix raw ''*.'' then
           (let suf = TrimPrefix raw ''*.'' in
            if suf = [] then (kindError, Some EmptyWildcard)
            else if ContainsStr suf ''*'' then (kindError, Some InnerWildcard)
            else if \<not> validateDomainLabel ul suf then (kindError, Some BadHostname)
            else (kindWildcardDomain, None))
         else if \<not> validateDomainLabel ul raw then (kindError, Some BadHostname)
         else (kindDomain, None)))"

record validateResult =
  vr_Line :: nat
  vr_Raw :: string
  vr_Kind :: entryKind
  vr_Error :: "entry_error option"

text \<open>The lines of a \<^verbatim>\<open>bufio.Scanner\<close>: a final line without text is no line, a carriage return before the line end is
  dropped, and a line of 65536 bytes or more ends the scan.\<close>

definition drop_cr :: "string \<Rightarrow> string" where
  "drop_cr l = (if l \<noteq> [] \<and> last l = CHR 0x0D then butlast l else l)"

definition scan_lines :: "string \<Rightarrow> string list" where
  "scan_lines text = (let ls = splitOn CHR 0x0A text; ls = (if last ls = [] then butlast ls else ls) in
     map drop_cr (takeWhile (\<lambda>l. length l < 65536) ls))"

fun parse_lines :: "(string \<Rightarrow> string) \<Rightarrow> nat \<Rightarrow> string list \<Rightarrow> validateResult list" where
  "parse_lines ul n [] = []"
| "parse_lines ul n (l # ls) = (let line = TrimSpace (strip_comment l) in
     if line = [] then parse_lines ul (n + 1) ls
     else (case validateEntry ul line of (kind, err) \<Rightarrow>
       \<lparr>vr_Line = n, vr_Raw = line, vr_Kind = kind, vr_Error = err\<rparr> # parse_lines ul (n + 1) ls))"

definition parseAllowlistLines :: "(string \<Rightarrow> string) \<Rightarrow> string \<Rightarrow> validateResult list" where
  "parseAllowlistLines ul text = parse_lines ul 1 (scan_lines text)"

definition count_kind :: "entryKind \<Rightarrow> validateResult list \<Rightarrow> nat" where
  "count_kind k rs = length (filter (\<lambda>r. vr_Kind r = k) rs)"

record validateCounts =
  vc_ips :: nat
  vc_cidrs :: nat
  vc_domains :: nat
  vc_wildcards :: nat
  vc_negations :: nat
  vc_errors :: nat

definition validate_counts :: "validateResult list \<Rightarrow> validateCounts" where
  "validate_counts rs = \<lparr>vc_ips = count_kind kindIP rs, vc_cidrs = count_kind kindCIDR rs,
     vc_domains = count_kind kindDomain rs, vc_wildcards = count_kind kindWildcardDomain rs,
     vc_negations = count_kind kindNegation rs, vc_errors = count_kind kindNegation rs + count_kind kindError rs\<rparr>"

text \<open>The exit code, and what is printed once a list was read: the rejected lines with their errors and the counts;
  \<open>file\<close> opens a file, \<open>stdin\<close> is the standard input.\<close>

definition runValidate :: "(string \<Rightarrow> string) \<Rightarrow> (string \<Rightarrow> string option) \<Rightarrow> string \<Rightarrow> string list \<Rightarrow>
    nat \<times> ((nat \<times> entry_error option) list \<times> validateCounts) option" where
  "runValidate ul file stdin args = (case (case args of [] \<Rightarrow> Some (Some stdin) | [f] \<Rightarrow> Some (file f) | _ \<Rightarrow> None) of
     None \<Rightarrow> (2, None)
   | Some None \<Rightarrow> (1, None)
   | Some (Some text) \<Rightarrow> let rs = parseAllowlistLines ul text; counts = validate_counts rs in
       (if 0 < vc_errors counts then 1 else 0,
        Some (map (\<lambda>r. (vr_Line r, vr_Error r)) (filter (\<lambda>r. vr_Kind r = kindNegation \<or> vr_Kind r = kindError) rs), counts)))"

section \<open>Trimming\<close>

lemma first_width_0: "(case filter P wide_spaces of [] \<Rightarrow> 0 | w # _ \<Rightarrow> length w) = 0 \<longleftrightarrow> (\<forall>w \<in> set wide_spaces. \<not> P w)"
proof (cases "filter P wide_spaces")
  case (Cons w ws)
  then have "w \<in> set (filter P wide_spaces)"
    by simp
  then have "w \<in> set wide_spaces" "P w"
    by simp_all
  then show ?thesis
    using Cons wide_spaces_nonempty by auto
qed (simp add: filter_empty_conv)

lemma space_len_0: "space_len s = 0 \<longleftrightarrow> s = [] \<or> \<not> ascii_space (hd s) \<and> (is_ascii (hd s) \<or> (\<forall>w \<in> set wide_spaces. \<not> prefix w s))"
  by (cases s) (simp_all add: space_len_def first_width_0)

lemma space_len_end_0: "space_len_end s = 0 \<longleftrightarrow> s = [] \<or> \<not> ascii_space (last s) \<and> (is_ascii (last s) \<or> (\<forall>w \<in> set wide_spaces. \<not> suffix w s))"
  by (cases s rule: rev_cases) (simp_all add: space_len_end_def first_width_0)

lemma trim_left_fix: "space_len (trim_left s) = 0"
  by (induction s rule: trim_left.induct) (subst trim_left.simps, simp add: Let_def)

lemma trim_right_fix: "space_len_end (trim_right s) = 0"
  by (induction s rule: trim_right.induct) (subst trim_right.simps, simp add: Let_def)

lemma trim_left_id: "space_len s = 0 \<Longrightarrow> trim_left s = s"
  by (subst trim_left.simps) simp

lemma trim_right_id: "space_len_end s = 0 \<Longrightarrow> trim_right s = s"
  by (subst trim_right.simps) simp

lemma trim_right_prefix: "prefix (trim_right s) s"
proof (induction s rule: trim_right.induct)
  case (1 s)
  then show ?case
    by (subst trim_right.simps) (auto simp: Let_def intro: prefix_order.trans [OF _ take_is_prefix])
qed

lemma space_len_prefix: "prefix t s \<Longrightarrow> space_len s = 0 \<Longrightarrow> space_len t = 0"
proof -
  assume p: "prefix t s" and s: "space_len s = 0"
  have "hd t = hd s" if "t \<noteq> []"
    using p that by (auto simp: prefix_def)
  moreover have "\<not> prefix w t" if "\<not> prefix w s" for w
    using p that prefix_order.trans by blast
  ultimately show ?thesis
    using s p by (auto simp: space_len_0)
qed

lemma TrimSpace_idem [simp]: "TrimSpace (TrimSpace s) = TrimSpace s"
  using space_len_prefix [OF trim_right_prefix trim_left_fix, of s] trim_right_fix [of "trim_left s"]
  by (simp add: TrimSpace_def trim_left_id trim_right_id)

lemma TrimSpace_plain:
  assumes "\<And>c. c \<in> set s \<Longrightarrow> is_ascii c \<and> \<not> ascii_space c"
  shows "TrimSpace s = s"
proof (cases "s = []")
  case False
  then have "space_len s = 0" "space_len_end s = 0"
    using assms by (simp_all add: space_len_0 space_len_end_0)
  then show ?thesis
    by (simp add: TrimSpace_def trim_left_id trim_right_id)
qed (simp add: TrimSpace_def trim_left_id trim_right_id space_len_end_def)

lemma trim_left_suffix: "suffix (trim_left s) s"
proof (induction s rule: trim_left.induct)
  case (1 s)
  then show ?case
    by (subst trim_left.simps) (auto simp: Let_def intro: suffix_order.trans [OF _ suffix_drop])
qed

lemma set_TrimSpace: "set (TrimSpace s) \<subseteq> set s"
  using set_mono_prefix [OF trim_right_prefix [of "trim_left s"]] set_mono_suffix [OF trim_left_suffix [of s]]
  by (auto simp: TrimSpace_def)

section \<open>Splitting joined tokens\<close>

lemma sep_chars_Cons [simp]: "sep_chars cs (c # s) = (if c \<in> set cs then 1 else 0)"
  by (simp add: sep_chars_def)

lemma fieldsFunc_token:
  "(\<And>c r. c \<in> set t \<Longrightarrow> sep (c # r) = 0) \<Longrightarrow> fieldsFunc sep (t @ rest) cur = fieldsFunc sep rest (rev t @ cur)"
  by (induction t arbitrary: cur) simp_all

lemma fieldsFunc_join:
  assumes "\<And>r. sep (CHR '','' # r) = 1" "\<And>t c r. t \<in> set toks \<Longrightarrow> c \<in> set t \<Longrightarrow> sep (c # r) = 0" "[] \<notin> set toks"
  shows "fieldsFunc sep (Join_sep '','' toks) [] = toks"
  using assms(2,3)
proof (induction toks)
  case (Cons t toks)
  have t: "t \<noteq> []" "fieldsFunc sep (t @ rest) [] = fieldsFunc sep rest (rev t)" for rest
    using Cons.prems fieldsFunc_token [of t sep rest "[]"] by auto
  show ?case
  proof (cases toks)
    case Nil
    then show ?thesis
      using t(1) t(2) [of "[]"] by (simp add: Join_sep_def)
  next
    case (Cons u us)
    then have "Join_sep '','' (t # toks) = t @ CHR '','' # Join_sep '','' toks"
      by (simp add: Join_sep_def)
    moreover have "fieldsFunc sep (Join_sep '','' toks) [] = toks"
      using Cons.IH Cons.prems by auto
    ultimately show ?thesis
      using t assms(1) by simp
  qed
qed (simp add: Join_sep_def)

text \<open>A token no splitting changes.\<close>

definition clean_token :: "string \<Rightarrow> bool" where
  "clean_token t \<longleftrightarrow> t \<noteq> [] \<and> TrimSpace t = t \<and> set t \<inter> set inline_seps = {}"

lemma split_joined: "(\<And>t. t \<in> set toks \<Longrightarrow> clean_token t) \<Longrightarrow> splitAllowInlineTokens (Join_sep '','' toks) = toks"
  unfolding splitAllowInlineTokens_def splitTrimNonEmpty_def
  by (subst fieldsFunc_join) (force simp: clean_token_def inline_seps_def intro: filter_True map_idI)+

lemma splitTrimNonEmpty_tokens:
  "t \<in> set (splitTrimNonEmpty s (sep_chars cs)) \<Longrightarrow> t \<noteq> [] \<and> TrimSpace t = t \<and> set t \<inter> set cs = {}"
proof -
  assume "t \<in> set (splitTrimNonEmpty s (sep_chars cs))"
  then obtain f where f: "f \<in> set (fieldsFunc (sep_chars cs) s [])" "t = TrimSpace f" "t \<noteq> []"
    by (auto simp: splitTrimNonEmpty_def)
  have "x \<notin> set f" if "x \<in> set cs" for x
    by (rule fieldsFunc_no_sep1 [OF _ _ f(1)]) (use that in simp_all)
  then show ?thesis
    using f set_TrimSpace [of f] by auto
qed

lemma inline_tokens_clean: "t \<in> set (splitAllowInlineTokens s) \<Longrightarrow> clean_token t"
  using splitTrimNonEmpty_tokens unfolding splitAllowInlineTokens_def clean_token_def by blast

lemma strip_comment_set: "set (strip_comment l) \<subseteq> set l"
  by (auto simp: strip_comment_def dest: in_set_takeD split: option.splits)

lemma fieldsFunc_subset: "f \<in> set (fieldsFunc sep s cur) \<Longrightarrow> set f \<subseteq> set s \<union> set cur"
proof (induction sep s cur rule: fieldsFunc.induct)
  case (2 sep c cs cur)
  then show ?case
    using set_drop_subset [of "sep (c # cs) - 1" cs] by (fastforce simp: Let_def split: if_splits)
qed (auto split: if_splits)

lemma line_tokens_chars:
  "t \<in> set (line_tokens l) \<Longrightarrow> t \<noteq> [] \<and> TrimSpace t = t \<and> set t \<inter> set ('', '' @ [CHR 0x09]) = {} \<and> set t \<subseteq> set l"
proof -
  assume t: "t \<in> set (line_tokens l)"
  define l1 where "l1 = (if CHR ''#'' \<in> set (TrimSpace l) then TrimSpace (strip_comment (TrimSpace l)) else TrimSpace l)"
  have in1: "t \<in> set (splitTrimNonEmpty l1 (sep_chars ('', '' @ [CHR 0x09])))"
    using t unfolding line_tokens_def l1_def Let_def by (auto simp del: set_append split: if_splits)
  then obtain f where f: "f \<in> set (fieldsFunc (sep_chars ('', '' @ [CHR 0x09])) l1 [])" "t = TrimSpace f"
    by (auto simp: splitTrimNonEmpty_def)
  have "set l1 \<subseteq> set l"
    using set_TrimSpace [of l] set_TrimSpace [of "strip_comment (TrimSpace l)"] strip_comment_set [of "TrimSpace l"]
    unfolding l1_def by auto
  moreover have "set f \<subseteq> set l1"
    using fieldsFunc_subset [OF f(1)] by simp
  ultimately show ?thesis
    using splitTrimNonEmpty_tokens [OF in1] set_TrimSpace [of f] f(2) by auto
qed

lemma splitOn_subset: "f \<in> set (splitOn c xs) \<Longrightarrow> set f \<subseteq> set xs"
proof (induction xs arbitrary: f)
  case (Cons x xs)
  then show ?case
    by (cases "splitOn c xs") (fastforce split: if_splits)+
qed simp

lemma file_tokens: "t \<in> set (parseAllowlistFileBody d) \<Longrightarrow> CHR 0x0D \<notin> set t \<Longrightarrow> clean_token t"
  using line_tokens_chars splitOn_no_sep [of _ "CHR 0x0A" d]
  by (fastforce simp: parseAllowlistFileBody_def clean_token_def inline_seps_def)

lemma read_allow_tokens:
  "read_allow_files eval file ws k rels = Inr toks \<Longrightarrow> t \<in> set toks \<Longrightarrow> \<exists>d. t \<in> set (parseAllowlistFileBody d)"
  by (induction rels arbitrary: k toks) (auto split: sum.splits option.splits if_splits)

text \<open>Joining and splitting again loses no token: the tokens the action classifies are those of the inline input
  followed by those of the files, in order.\<close>

theorem merged_tokens_kept:
  assumes "mergeInlineAndAllowlistFiles eval file cwd root inline csv = Inr merged" "splitCommaPaths csv \<noteq> []"
    and "Abs cwd root = Some ws" "read_allow_files eval file ws 0 (splitCommaPaths csv) = Inr toks"
    and "\<And>t. t \<in> set toks \<Longrightarrow> CHR 0x0D \<notin> set t"
  shows "splitAllowInlineTokens merged = splitAllowInlineTokens inline @ toks"
proof -
  have "merged = Join_sep '','' (splitAllowInlineTokens inline @ toks)"
    using assms(1-4) by (auto simp: mergeInlineAndAllowlistFiles_def Let_def split: if_splits)
  moreover have "clean_token t" if "t \<in> set (splitAllowInlineTokens inline @ toks)" for t
    using that inline_tokens_clean read_allow_tokens [OF assms(4)] file_tokens assms(5) by fastforce
  ultimately show ?thesis
    using split_joined by blast
qed

text \<open>Every allow-file that contributes tokens resolved to the same path before and after it was read, and that path
  was under the workspace, within the size limit; a link swapped meanwhile makes the whole input fail.\<close>

theorem allow_files_stable:
  assumes "read_allow_files eval file ws k rels = Inr toks"
  shows "\<exists>files. length files = length rels \<and> toks = concat (map (\<lambda>f. parseAllowlistFileBody (snd f)) files) \<and>
    (\<forall>i < length rels. resolvePathUnderWorkspace (eval (k + 2 * i)) ws (rels ! i) = Inr (fst (files ! i)) \<and>
      resolvePathUnderWorkspace (eval (k + 2 * i + 1)) ws (rels ! i) = Inr (fst (files ! i)) \<and>
      file (fst (files ! i)) = Some (snd (files ! i)) \<and> length (snd (files ! i)) \<le> maxAllowlistFileBytes)"
  using assms
proof (induction rels arbitrary: k toks)
  case (Cons rel rels)
  from Cons.prems obtain full body toks' where r: "resolvePathUnderWorkspace (eval k) ws rel = Inr full"
      "readFileCapped file full maxAllowlistFileBytes = Some (Some body)"
      "resolvePathUnderWorkspace (eval (k + 1)) ws rel = Inr full"
      "read_allow_files eval file ws (k + 2) rels = Inr toks'" "toks = parseAllowlistFileBody body @ toks'"
    by (auto split: sum.splits option.splits if_splits)
  obtain files where f: "length files = length rels" "toks' = concat (map (\<lambda>f. parseAllowlistFileBody (snd f)) files)"
    "\<forall>i < length rels. resolvePathUnderWorkspace (eval (k + 2 + 2 * i)) ws (rels ! i) = Inr (fst (files ! i)) \<and>
      resolvePathUnderWorkspace (eval (k + 2 + 2 * i + 1)) ws (rels ! i) = Inr (fst (files ! i)) \<and>
      file (fst (files ! i)) = Some (snd (files ! i)) \<and> length (snd (files ! i)) \<le> maxAllowlistFileBytes"
    using Cons.IH [OF r(4)] by blast
  show ?case
    using r f by (intro exI [of _ "(full, body) # files"])
      (auto simp: less_Suc_eq_0_disj readFileCapped_def split: option.splits if_splits)
qed simp

section \<open>What the stand-alone check promises\<close>

text \<open>An entry as a token: printable ASCII without a comma.\<close>

definition plain_entry :: "string \<Rightarrow> bool" where
  "plain_entry t \<longleftrightarrow> t \<noteq> [] \<and> list_all (\<lambda>c. is_ascii c \<and> \<not> ascii_space c \<and> c \<noteq> CHR '','') t"

lemma plain_entry_trim [simp]: "plain_entry t \<Longrightarrow> TrimSpace t = t"
  by (rule TrimSpace_plain) (simp add: plain_entry_def list_all_iff)

lemma splitFields_join: "list_all plain_entry toks \<Longrightarrow> splitFields (Join_sep '','' toks) = toks"
  unfolding splitFields_def
  by (rule fieldsFunc_join) (auto simp: sep_fields_def space_len_def plain_entry_def list_all_iff)

lemma hd_splitOn: "hd (splitOn c xs) \<noteq> [] \<Longrightarrow> xs \<noteq> [] \<and> hd xs = hd (hd (splitOn c xs))"
  by (cases xs) (auto split: list.splits)

lemma last_splitOn: "last (splitOn c xs) \<noteq> [] \<Longrightarrow> xs \<noteq> [] \<and> last xs = last (last (splitOn c xs))"
proof (induction xs)
  case (Cons x xs)
  show ?case
  proof (cases "splitOn c xs")
    case (Cons y ys)
    then show ?thesis
      using Cons.IH Cons.prems by (cases xs) (auto split: if_splits list.splits)
  qed simp
qed simp

lemma set_splitOn: "x \<in> set xs \<Longrightarrow> x = c \<or> (\<exists>f \<in> set (splitOn c xs). x \<in> set f)"
  by (induction xs) (auto split: list.splits)

lemma labels_hostname: "list_all label_ok (splitOn CHR ''.'' h) \<Longrightarrow> validHostnameSuffix h \<and> last h \<noteq> CHR ''.'' \<and> CHR ''*'' \<notin> set h"
proof -
  assume labels: "list_all label_ok (splitOn CHR ''.'' h)"
  let ?ls = "splitOn CHR ''.'' h"
  have first: "label_ok (hd ?ls)" "label_ok (last ?ls)"
    using labels by (simp_all add: list_all_iff)
  have chars: "host_char c" if "c \<in> set h" for c
    using set_splitOn [OF that, of "CHR ''.''"] labels
    by (auto simp: list_all_iff label_ok_def host_char_def host_alnum_def)
  have "h \<noteq> []" "host_alnum (hd h)" "host_alnum (last h)"
    using first hd_splitOn [of "CHR ''.''" h] last_splitOn [of "CHR ''.''" h]
    by (auto simp: label_ok_def list_all_iff host_alnum_def)
  moreover have "\<not> host_alnum CHR ''.''" "\<not> host_char CHR ''*''"
    by code_simp+
  ultimately show ?thesis
    using chars by (auto simp: validHostnameSuffix_def list_all_iff)
qed

text \<open>What an accepted entry does to any policy: it is parsed, and leaves the IPv6 lists alone.\<close>

definition accepts :: "('a \<Rightarrow> policy \<Rightarrow> policy_error + policy) \<Rightarrow> 'a \<Rightarrow> bool" where
  "accepts f x \<longleftrightarrow> (\<forall>p. \<exists>q. f x p = Inr q \<and> ipv6s q = ipv6s p \<and> ipv6nets q = ipv6nets p)"

lemma each_accepts:
  "(\<And>x. x \<in> set xs \<Longrightarrow> accepts f x) \<Longrightarrow> \<exists>q. each f xs p = Inr q \<and> ipv6s q = ipv6s p \<and> ipv6nets q = ipv6nets p"
proof (induction xs arbitrary: p)
  case (Cons x xs)
  obtain q where q: "f x p = Inr q" "ipv6s q = ipv6s p" "ipv6nets q = ipv6nets p"
    using Cons.prems by (fastforce simp: accepts_def)
  then show ?case
    using Cons.IH [of q] Cons.prems by auto
qed simp

lemma acceptsI: "(\<And>p. f x p = Inr (g p) \<and> ipv6s (g p) = ipv6s p \<and> ipv6nets (g p) = ipv6nets p) \<Longrightarrow> accepts f x"
  unfolding accepts_def by blast

lemma accepts_ip:
  assumes "validateEntry ul t = (k, None)" "k = kindIP \<or> k = kindCIDR" "plain_entry t"
  shows "accepts parse_ip t"
proof (cases "ContainsStr t ''/''")
  case True
  then obtain ip ipnet a where "ParseCIDR t = Some (ip, ipnet)" "To4 ip = Some a"
    using assms(1,2) by (auto simp: validateEntry_def split: if_splits option.splits)
  then show ?thesis
    using assms(3) True by (intro acceptsI [where g = "\<lambda>p. p\<lparr>nets := nets p @ [Some ipnet]\<rparr>"])
      (simp add: parse_ip_def plain_entry_def)
next
  case False
  then obtain ip a where "ParseIP t = Some ip" "To4 ip = Some a"
    using assms(1,2) by (auto simp: validateEntry_def Let_def split: if_splits option.splits)
  then show ?thesis
    using assms(3) False by (intro acceptsI [where g = "\<lambda>p. p\<lparr>ips := sadd a (ips p)\<rparr>"])
      (simp add: parse_ip_def plain_entry_def)
qed

lemma accepts_host:
  assumes "validateEntry ul t = (k, None)" "k = kindDomain \<or> k = kindWildcardDomain" "plain_entry t"
    and "length t \<le> MaxAllowedHostnameBytes"
  shows "accepts (parse_host ul) t"
proof -
  have low: "toLower ul t = map lower_ascii t"
    using assms(3) by (auto simp: toLower_def plain_entry_def list_all_iff)
  show ?thesis
  proof (cases "HasPrefix t ''*.''")
    case True
    then obtain suf where t: "t = ''*.'' @ suf"
      by (auto simp: HasPrefix_iff)
    then have "TrimPrefix t ''*.'' = suf"
      by (simp only: TrimPrefix_append)
    then have v: "validateDomainLabel ul suf"
      using assms(1,2) True by (auto simp: validateEntry_def Let_def split: if_splits option.splits)
    have low_suf: "toLower ul suf = map lower_ascii suf"
      using assms(3) t by (auto simp: toLower_def plain_entry_def list_all_iff)
    then have ok: "validHostnameSuffix (map lower_ascii suf)" "CHR ''*'' \<notin> set (map lower_ascii suf)" "suf \<noteq> []"
      using v labels_hostname [of "map lower_ascii suf"] by (simp_all add: validateDomainLabel_def del: set_map)
    have "map lower_ascii t = ''*.'' @ map lower_ascii suf"
      using t by (simp add: lower_ascii_def is_upper_def)
    then have "HasPrefix (map lower_ascii t) ''*.''" "TrimPrefix (map lower_ascii t) ''*.'' = map lower_ascii suf"
      by (auto simp: HasPrefix_iff TrimPrefix_append simp del: append.simps)
    then show ?thesis
      using assms(3,4) ok low t
      by (intro acceptsI [where g = "\<lambda>p. p\<lparr>wildSuffixes := wildSuffixes p @ [map lower_ascii suf]\<rparr>"])
        (simp add: parse_host_def Let_def del: set_map)
  next
    case False
    then have "validateDomainLabel ul t"
      using assms(1,2) by (auto simp: validateEntry_def Let_def split: if_splits option.splits)
    then have ok: "validHostnameSuffix (map lower_ascii t)" "CHR ''*'' \<notin> set (map lower_ascii t)"
        "last (map lower_ascii t) \<noteq> CHR ''.''" "t \<noteq> []"
      using labels_hostname [of "map lower_ascii t"] low by (simp_all add: validateDomainLabel_def del: set_map)
    have "TrimSuffix (map lower_ascii t) ''.'' = map lower_ascii t"
      using ok(3) by (auto simp: TrimSuffix_def HasSuffix_iff)
    moreover have "\<not> HasPrefix (map lower_ascii t) ''*.''"
      using ok(2) by (auto simp: HasPrefix_iff simp del: set_map)
    ultimately show ?thesis
      using assms(3,4) ok low
      by (intro acceptsI [where g = "\<lambda>p. p\<lparr>exactHosts := sadd (map lower_ascii t) (exactHosts p)\<rparr>"])
        (simp add: parse_host_def Let_def del: set_map)
  qed
qed

text \<open>The entries the check accepts and the front end reads the same way; the exception is an address with a group above
  255, a host name for the check.\<close>

definition validated :: "(string \<Rightarrow> string) \<Rightarrow> string \<Rightarrow> bool" where
  "validated ul t \<longleftrightarrow> plain_entry t \<and> length t \<le> MaxAllowedHostnameBytes \<and> snd (validateEntry ul t) = None \<and>
     (ipv4LiteralOrCIDR t \<longrightarrow> fst (validateEntry ul t) \<noteq> kindDomain)"

lemma validated_plain: "validated ul t \<Longrightarrow> plain_entry t"
  by (simp add: validated_def)

lemma validated_classified:
  assumes "validated ul t"
  shows "\<not> HasPrefix t ''!''" "isIPLiteralOrCIDR t \<Longrightarrow> accepts parse_ip t"
    "\<not> isIPLiteralOrCIDR t \<Longrightarrow> accepts (parse_host ul) t"
proof -
  obtain k where k: "validateEntry ul t = (k, None)" "plain_entry t" "length t \<le> MaxAllowedHostnameBytes"
      "ipv4LiteralOrCIDR t \<longrightarrow> k \<noteq> kindDomain"
    using assms by (cases "validateEntry ul t") (auto simp: validated_def)
  show no: "\<not> HasPrefix t ''!''"
    using k(1) by (auto simp: validateEntry_def)
  have wild: "\<not> ipv4LiteralOrCIDR t" if "HasPrefix t ''*.''"
    using that by (auto simp: HasPrefix_iff ipv4LiteralOrCIDR_def digits_between_def is_digit_def split: list.splits)
  have "k = kindIP \<or> k = kindCIDR \<longleftrightarrow> isIPLiteralOrCIDR t" "k = kindIP \<or> k = kindCIDR \<or> k = kindDomain \<or> k = kindWildcardDomain"
    using k(1,4) wild unfolding validateEntry_def isIPLiteralOrCIDR_def Let_def
    by (auto split: if_splits option.splits)
  then show "isIPLiteralOrCIDR t \<Longrightarrow> accepts parse_ip t" "\<not> isIPLiteralOrCIDR t \<Longrightarrow> accepts (parse_host ul) t"
    using accepts_ip accepts_host k by blast+
qed

lemma classify_validated:
  "list_all (validated ul) toks \<Longrightarrow> fold classify_token toks c =
     c\<lparr>ca_ips := ca_ips c @ filter isIPLiteralOrCIDR toks,
       ca_hosts := ca_hosts c @ filter (\<lambda>t. \<not> isIPLiteralOrCIDR t) toks,
       ca_domains := ca_domains c @ filter (\<lambda>t. \<not> isIPLiteralOrCIDR t) toks\<rparr>"
proof (induction toks arbitrary: c)
  case (Cons t toks)
  then have "plain_entry t" "\<not> HasPrefix t ''!''"
    using validated_classified(1) by (auto simp: validated_def)
  then have "classify_token t c = (if isIPLiteralOrCIDR t then c\<lparr>ca_ips := ca_ips c @ [t]\<rparr>
      else c\<lparr>ca_hosts := ca_hosts c @ [t], ca_domains := ca_domains c @ [t]\<rparr>)"
    by (simp add: classify_token_def Let_def plain_entry_def)
  then show ?case
    using Cons by simp
qed simp

lemma BuildPolicyEx_accepts:
  assumes "list_all plain_entry hs" "list_all plain_entry is"
    and "\<And>h. h \<in> set hs \<Longrightarrow> accepts (parse_host ul) h" "\<And>i. i \<in> set is \<Longrightarrow> accepts parse_ip i"
  shows "\<exists>p. BuildPolicyEx ul (Join_sep '','' hs) (Join_sep '','' is) [] md = Inr p"
proof -
  obtain q where q: "each (parse_host ul) hs empty_policy = Inr q" "ipv6s q = []" "ipv6nets q = []"
    using each_accepts [OF assms(3), of hs empty_policy] by (auto simp: empty_policy_def)
  obtain r where r: "each parse_ip is q = Inr r" "ipv6s r = []" "ipv6nets r = []"
    using each_accepts [OF assms(4), of "is" q] q by auto
  have "length (mergeDedupedNets default_nets []) \<le> MaxIgnoredIPv4Nets"
    by code_simp
  moreover have "ParseIgnoredIPNets [] = Inr []"
    by code_simp
  ultimately show ?thesis
    using q r assms(1,2) by (simp add: BuildPolicyEx_def Parse_def splitFields_join
        MergeDefaultIgnoredNets_def DefaultIgnored_value mergeDedupedNets_def)
qed



definition demo_allow_file :: "string \<Rightarrow> string option" where
  "demo_allow_file path = (if path = ''/w/a.txt'' then Some (''a.com # x'' @ [CHR 0x0A] @ ''1.1.1.1, b.com'') else None)"

lemma demo_allow_tokens:
  "read_allow_files (\<lambda>_ p. Some p) demo_allow_file ''/w'' 0 (splitCommaPaths ''a.txt'') = Inr [''a.com'', ''1.1.1.1'', ''b.com'']"
  by code_simp

theorem allow_files_stable_witness:
  "\<exists>files. length files = 1 \<and> [''a.com'', ''1.1.1.1'', ''b.com''] = concat (map (\<lambda>f. parseAllowlistFileBody (snd f)) files) \<and>
    resolvePathUnderWorkspace Some ''/w'' ''a.txt'' = Inr (fst (files ! 0)) \<and> length (snd (files ! 0)) \<le> maxAllowlistFileBytes"
proof -
  have "splitCommaPaths ''a.txt'' = [''a.txt'']"
    by code_simp
  then show ?thesis
    using allow_files_stable [OF demo_allow_tokens] by auto
qed

theorem merged_tokens_kept_witness:
  "\<exists>merged. mergeInlineAndAllowlistFiles (\<lambda>_ p. Some p) demo_allow_file None ''/w'' ''c.com d.com'' ''a.txt'' = Inr merged \<and>
    splitAllowInlineTokens merged = splitAllowInlineTokens ''c.com d.com'' @ [''a.com'', ''1.1.1.1'', ''b.com'']"
proof -
  have m: "mergeInlineAndAllowlistFiles (\<lambda>_ p. Some p) demo_allow_file None ''/w'' ''c.com d.com'' ''a.txt'' =
      Inr ''c.com,d.com,a.com,1.1.1.1,b.com''" "splitCommaPaths ''a.txt'' \<noteq> []" "Abs None ''/w'' = Some ''/w''"
    by code_simp+
  have cr: "CHR 0x0D \<notin> set t" if "t \<in> set [''a.com'', ''1.1.1.1'', ''b.com'']" for t
    using that by auto
  show ?thesis
    using m(1) merged_tokens_kept [OF m demo_allow_tokens cr] by blast
qed

text \<open>An entry the check takes for a host name and the front end for an address no parser accepts.\<close>

lemma out_of_range_octet_validated:
  "validateEntry (\<lambda>s. s) ''10.0.0.256'' = (kindDomain, None)"
  "validateAllowPolicy (\<lambda>s. s) (classifyAllowTokens [''10.0.0.256'']) False = Some (InvalidAllowedIP ''10.0.0.256'')"
  by code_simp+

text \<open>An ignore entry that is not an IPv4 network disappears without an error.\<close>

lemma ignored_host_dropped:
  "classifyAllowTokens [''!example.com'', ''!2001:db8::/32''] = no_allow"
  "validateAllowPolicy (\<lambda>s. s) no_allow False = None"
  by code_simp+

text \<open>A line of 64 KiB ends the check: what follows is not looked at, and the exit code is still 0.\<close>

lemma long_line_ends_scan:
  assumes "65536 \<le> length l" "CHR 0x0A \<notin> set l"
  shows "fst (runValidate ul file (l @ CHR 0x0A # rest) []) = 0"
proof -
  have "splitOn CHR 0x0A (l @ CHR 0x0A # rest) = l # splitOn CHR 0x0A rest"
    using assms(2) by (simp add: splitOn_append_sep splitOn_single)
  then have "scan_lines (l @ CHR 0x0A # rest) = []"
    using assms(1) by (auto simp: scan_lines_def Let_def)
  then show ?thesis
    by (simp add: runValidate_def parseAllowlistLines_def validate_counts_def count_kind_def)
qed

end
