(* ===== verification/Render.thy ===== *)
theory Render
  imports Report AllowInputs
begin

text \<open>
  What the reports are used for (\<^verbatim>\<open>internal/report/markdown/markdown.go\<close>): the difference of two runs, the
  required event types, and the two Markdown renderings. Text is bytes; a character outside ASCII is the UTF-8 encoding
  of its code point. \<open>it\<close> is the order in which Go ranges over a map.
\<close>

section \<open>Gates\<close>

definition degradedBPF :: "Aggregate \<Rightarrow> string list" where
  "degradedBPF a = sort (map rb_Name (filter (\<lambda>s. \<not> rb_OK s) (ag_BPF a)))"

definition Domains :: "(string list \<Rightarrow> string list) \<Rightarrow> Aggregate \<Rightarrow> string list" where
  "Domains it a = sort (it (ag_domains a))"

definition DiffDomains :: "(string list \<Rightarrow> string list) \<Rightarrow> Aggregate \<Rightarrow> Aggregate \<Rightarrow> string list \<times> string list" where
  "DiffDomains it current baseline =
     (sort (filter (\<lambda>d. d \<notin> set (ag_domains baseline)) (it (ag_domains current))),
      sort (filter (\<lambda>d. d \<notin> set (ag_domains current)) (it (ag_domains baseline))))"

definition RequiredTypes :: "string \<Rightarrow> string list" where
  "RequiredTypes detectProfile = (if EqualFold (TrimSpace detectProfile) ''enhanced''
     then [''meta'', ''exec'', ''tcp'', ''udp'', ''http'', ''tls'', ''proc_fork'', ''fs_event'']
     else [''meta'', ''exec'', ''tcp''])"

definition MissingRequiredTypes :: "Aggregate \<Rightarrow> string \<Rightarrow> string list" where
  "MissingRequiredTypes a detectProfile = sort (filter (\<lambda>t. t \<notin> set (ag_seen a)) (RequiredTypes detectProfile))"

text \<open>By falling count, equal counts by name: a stable sort by count of the list sorted by name.\<close>

definition topDests :: "((string \<times> int) list \<Rightarrow> (string \<times> int) list) \<Rightarrow> Aggregate \<Rightarrow> nat \<Rightarrow> (string \<times> int) list" where
  "topDests it a n = take n (sort_key (\<lambda>d. - snd d) (sort_key fst (it (ag_Dests a))))"

definition modeLabel :: "Aggregate \<Rightarrow> string" where
  "modeLabel a = (if ag_Mode a = [] then ''detect'' else ag_Mode a)"

section \<open>Text\<close>

definition rune :: "nat \<Rightarrow> string" where
  "rune r = of_codes (encode_rune r)"

definition siren :: string where "siren = rune 0x1F6A8"
definition warning :: string where "warning = rune 0x26A0 @ rune 0xFE0F"
definition tick :: string where "tick = rune 0x2705"
definition dash :: string where "dash = rune 0x2014"
definition dot :: string where "dot = rune 0xB7"

definition replace_char :: "char \<Rightarrow> string \<Rightarrow> string \<Rightarrow> string" where
  "replace_char c new s = concat (map (\<lambda>x. if x = c then new else [x]) s)"

text \<open>The characters \<^verbatim>\<open>mdCell\<close> replaces, in its order.\<close>

definition cell_escapes :: "(char \<times> string) list" where
  "cell_escapes = [(CHR 0x0D, []), (CHR 0x0A, '' ''), (CHR ''|'', dot), (CHR 0x60, [CHR 0x27]), (CHR ''<'', rune 0x2039),
     (CHR ''['', rune 0xFF3B), (CHR '']'', rune 0xFF3D)]"

definition mdCell :: "string \<Rightarrow> string" where
  "mdCell s = TrimSpace (fold (\<lambda>(c, new). replace_char c new) cell_escapes s)"

definition dashIfEmpty :: "string \<Rightarrow> string" where
  "dashIfEmpty s = (if s = [] then ''-'' else s)"

definition observedIf :: "bool \<Rightarrow> string" where
  "observedIf b = (if b then ''observed'' else ''not observed'')"

definition candidatesIf :: "int \<Rightarrow> string" where
  "candidatesIf n = (if 0 < n then int_text n @ '' candidate(s), not inspected'' else ''not observed'')"

definition ln :: "string \<Rightarrow> string" where
  "ln s = s @ [CHR 0x0A]"

definition backtick :: string where "backtick = [CHR 0x60]"

text \<open>A table row of cells.\<close>

definition row :: "string list \<Rightarrow> string" where
  "row cells = ln (''|'' @ concat (map (\<lambda>c. '' '' @ c @ '' |'') cells))"

definition verdict :: "Aggregate \<Rightarrow> string" where
  "verdict a =
     (if 0 < ag_BPFTamper a then siren @ '' BPF tamper detected ('' @ int_text (ag_BPFTamper a) @ '') '' @ dash @ '' telemetry integrity compromised''
      else if ag_Denies a \<noteq> [] then siren @ '' '' @ itoa (length (ag_Denies a)) @ '' egress blocked''
      else if 0 < ag_EgressBackstop a then
        warning @ '' '' @ int_text (ag_EgressBackstop a) @ '' egress reached the backstop (bypassed address hooks)''
      else if CapturedNothing a then warning @ '' no events captured '' @ dash @
        '' the job may have finished before BPF attach; this proves nothing about egress (set fail-on-error: true for short jobs)''
      else tick @ '' no anomalies (IPv4 TCP/UDP in scope)'')"

section \<open>The short report\<close>

definition RenderSimple :: "((string \<times> int) list \<Rightarrow> (string \<times> int) list) \<Rightarrow> Aggregate \<Rightarrow> string" where
  "RenderSimple it a =
     ln (''## coldstep '' @ dash @ '' '' @ modeLabel a @ '' '' @ verdict a) @ ln [] @
     ln ''| metric | value |'' @ ln ''|---|---|'' @
     row [''egress connections'', int_text (ag_TCPConns a)] @
     row [''udp sends'', int_text (ag_UDPSends a)] @
     row [''unique destinations'', itoa (length (ag_Dests a))] @
     row [''denied'', itoa (length (ag_Denies a))] @
     row [''exec / fork / fs'', int_text (ag_Execs a) @ '' / '' @ int_text (ag_ProcForks a) @ '' / '' @ int_text (ag_FSEvents a)] @
     row [''TLS SNI (full/partial)'', int_text (ag_TLSFull a) @ '' / '' @ int_text (ag_TLSPartial a)] @
     row [''coverage gaps'', ''IPv6 events '' @ int_text (ag_IPv6Events a) @ '' '' @ dot @ '' QUIC candidates '' @
       int_text (ag_QUICCandidates a) @ '' '' @ dot @ '' io_uring '' @ int_text (ag_IoUringSend a + ag_IoUringTLS a)] @
     (if 0 < ag_BpfSelfDefenseDenied a \<or> 0 < ag_EgressBackstop a then
        row [''defend self-protection'', ''self-defense denials '' @ int_text (ag_BpfSelfDefenseDenied a) @ '' '' @ dot @
          '' egress backstop '' @ int_text (ag_EgressBackstop a)] else []) @
     (let degraded = degradedBPF a in if degraded \<noteq> [] then
        row [siren @ '' BPF hooks degraded'', itoa (length degraded) @ '' not attached: '' @ Join_sep '', '' degraded] else []) @
     (if ag_RunnerEnv a = ''dind'' then row [warning @ '' Docker-in-Docker'', ''inner-container traffic not observable''] else []) @
     (let top = topDests it a 3 in if top \<noteq> [] then
        ln [] @ ln (''Top destinations: '' @ Join_sep ('' '' @ dot @ '' '') (map (\<lambda>(name, n). mdCell name @ '' ('' @ int_text n @ '')'') top))
      else []) @
     ln [] @ ln (''Full report: '' @ backtick @ ''.coldstep-report.md'' @ backtick @ '' (artifact)'')"

section \<open>The full report\<close>

definition deny_row :: "Deny \<Rightarrow> string" where
  "deny_row d = row [mdCell (d_Comm d), mdCell (d_Protocol d), mdCell (d_Dst d), itoa (unat (d_Dport d)), mdCell (d_Reason d),
     mdCell (dashIfEmpty (d_HookFamily d))]"

definition dest_row :: "string \<times> int \<Rightarrow> string" where
  "dest_row d = row [mdCell (fst d), int_text (snd d)]"

definition render_head :: "Aggregate \<Rightarrow> string" where
  "render_head a =
     ln ''# coldstep detailed report'' @
     ln [] @ ln ''## Verdict'' @ ln [] @
     ln (verdict a @ '' '' @ dot @ '' mode '' @ modeLabel a @ '' '' @ dot @ '' '' @ int_text (ag_TotalEvents a) @ '' events'') @
     (if ag_MetaSeen a then ln [] @ ln (''agent '' @ mdCell (dashIfEmpty (ag_AgentVersion a)) @ '' '' @ dot @ '' kernel '' @
        mdCell (dashIfEmpty (ag_KernelRelease a)) @ '' '' @ dot @ '' profile '' @ mdCell (dashIfEmpty (ag_DetectProfile a)) @ '' '' @ dot @
        '' allowlist '' @ int_text (ag_AllowlistIPs a) @ '' IP(s) / '' @ int_text (ag_AllowlistEntries a) @ '' entr(ies)'') else []) @
     (if ag_RunnerEnv a = ''dind'' then ln [] @ ln (warning @
        '' Docker-in-Docker detected: traffic from inner containers is not observable from the outer runner cgroup namespace.'') else []) @
     (if ag_RunnerHasIPv6 a \<and> modeLabel a \<noteq> ''defend'' \<and> ag_IPv6Events a = 0 then ln [] @ ln (warning @
        '' Runner has IPv6 connectivity but no IPv6 egress was observed in detect mode '' @ dash @ '' IPv6 paths are not enforced.'') else [])"

definition render_coverage :: "Aggregate \<Rightarrow> string" where
  "render_coverage a =
     ln [] @ ln ''## Coverage scope'' @ ln [] @ ln ''| class | status |'' @ ln ''|---|---|'' @
     row [''IPv4 TCP/UDP'', ''observed''] @
     row [''IPv6'', observedIf (0 < ag_IPv6Events a)] @
     row [''QUIC/HTTP3'', candidatesIf (ag_QUICCandidates a)]"

definition render_dests :: "((string \<times> int) list \<Rightarrow> (string \<times> int) list) \<Rightarrow> Aggregate \<Rightarrow> string" where
  "render_dests it a = ln [] @ ln ''## Destinations'' @
     (if ag_Dests a = [] then ln [] @ ln ''_none observed_''
      else ln [] @ ln ''| destination | egress events |'' @ ln ''|---|---|'' @ concat (map dest_row (topDests it a 100)))"

definition render_denies :: "Aggregate \<Rightarrow> string" where
  "render_denies a = ln [] @ ln ''## Denies'' @
     (if ag_Denies a = [] then ln [] @ ln ''_none_''
      else ln [] @ ln ''| process | proto | destination | port | reason | hook |'' @ ln ''|---|---|---|---|---|---|'' @
        concat (map deny_row (ag_Denies a)))"

definition render_counts :: "Aggregate \<Rightarrow> string" where
  "render_counts a =
     ln [] @ ln ''## Process & filesystem'' @ ln [] @ ln ''| stream | count |'' @ ln ''|---|---|'' @
     row [''exec'', int_text (ag_Execs a)] @ row [''proc_fork'', int_text (ag_ProcForks a)] @ row [''fs_event'', int_text (ag_FSEvents a)] @
     ln [] @ ln ''## TLS SNI confidence'' @ ln [] @ ln ''| level | count |'' @ ln ''|---|---|'' @
     row [''full'', int_text (ag_TLSFull a)] @ row [''partial'', int_text (ag_TLSPartial a)] @
     row [''inferred'', int_text (ag_TLSInferred a)] @ row [''unknown'', int_text (ag_TLSUnknown a)] @
     (if 0 < ag_KTLSOffload a then ln [] @ ln (int_text (ag_KTLSOffload a) @ '' socket(s) used kernel-TLS offload '' @ dash @
        '' the SNI is structurally hidden from userspace for those.'') else [])"

definition render_signals :: "Aggregate \<Rightarrow> string" where
  "render_signals a =
     ln [] @ ln ''## Coverage & defend signals'' @ ln [] @ ln ''| signal | count | meaning |'' @ ln ''|---|---|---|'' @
     row [''IPv6 egress'', int_text (ag_IPv6Events a), ''non-loopback IPv6 egress events''] @
     row [''QUIC/HTTP3 candidates'', int_text (ag_QUICCandidates a), ''UDP/443 flows, payload not inspectable''] @
     row [''io_uring send'', int_text (ag_IoUringSend a), ''async sends bypassing syscall arms''] @
     row [''io_uring TLS'', int_text (ag_IoUringTLS a), ''TLS ClientHello observed over io_uring''] @
     row [''egress backstop'', int_text (ag_EgressBackstop a), ''egress that bypassed connect4/sendmsg4 (raw socket / post-connect)''] @
     row [''BPF self-defense denials'', int_text (ag_BpfSelfDefenseDenied a), ''denied tamper of coldstep'' @ [CHR 0x27] @ ''s own BPF objects''] @
     row [''BPF audit'', int_text (ag_BPFAudit a), ''bpf() syscall observations''] @
     row [''BPF tamper'', int_text (ag_BPFTamper a), ''detected BPF map/prog tamper (anti-blindness)''] @
     row [''TCP state transitions'', int_text (ag_TCPStateEvents a), ''kernel-confirmed handshakes'']"

definition render_health :: "Aggregate \<Rightarrow> string" where
  "render_health a = ln [] @ ln ''## BPF health'' @
     (let degraded = degradedBPF a in
      if degraded \<noteq> [] then ln [] @ ln (siren @ '' '' @ itoa (length degraded) @ '' hook(s) failed to attach (coverage gap): '' @ Join_sep '', '' degraded)
      else if ag_MetaSeen a then ln [] @ ln (tick @ '' all '' @ itoa (length (ag_BPF a)) @ '' reported BPF hook(s) attached.'')
      else ln [] @ ln (''_no meta event '' @ dash @ '' BPF health unavailable_''))"

definition render_integrity :: "Aggregate \<Rightarrow> string" where
  "render_integrity a = ln [] @ ln ''## Integrity'' @ ln [] @ ln (''parse errors: '' @ int_text (ag_ParseErrors a)) @
     (if ag_DroppedEvents a \<noteq> [] then ln [] @ ln (''dropped events (ringbuf pressure): '' @
        Join_sep ('' '' @ dot @ '' '') (map (\<lambda>(k, n). k @ ''='' @ itoa (unat n)) (sort_key fst (ag_DroppedEvents a)))) else []) @
     (if ag_EventsSHA256 a \<noteq> [] then ln [] @ ln (''events_sha256: '' @ backtick @ ag_EventsSHA256 a @ backtick) else [])"

definition RenderDetailed :: "((string \<times> int) list \<Rightarrow> (string \<times> int) list) \<Rightarrow> Aggregate \<Rightarrow> string" where
  "RenderDetailed it a = render_head a @ render_coverage a @ render_dests it a @ render_denies a @ render_counts a @
     render_signals a @ render_health a @ render_integrity a"

section \<open>Cells and rows\<close>

definition breaks_cell :: "char \<Rightarrow> bool" where
  "breaks_cell c \<longleftrightarrow> c \<in> set (map fst cell_escapes)"

definition harmless :: "string \<Rightarrow> bool" where
  "harmless s \<longleftrightarrow> filter breaks_cell s = []"

lemma harmless_append [simp]: "harmless (s @ t) \<longleftrightarrow> harmless s \<and> harmless t" "harmless (c # t) \<longleftrightarrow> \<not> breaks_cell c \<and> harmless t"
  "harmless []"
  by (simp_all add: harmless_def)

lemma set_replace_char: "x \<in> set (replace_char c new s) \<Longrightarrow> x \<in> set s \<and> x \<noteq> c \<or> x \<in> set new"
  by (auto simp: replace_char_def split: if_splits)

lemma set_replace_chars:
  "x \<in> set (fold (\<lambda>(c, new). replace_char c new) ts s) \<Longrightarrow>
   x \<in> set s \<and> x \<notin> fst ` set ts \<or> (\<exists>new \<in> snd ` set ts. x \<in> set new)"
proof (induction ts arbitrary: s)
  case (Cons t ts)
  have "x \<in> set (replace_char (fst t) (snd t) s) \<and> x \<notin> fst ` set ts \<or> (\<exists>new \<in> snd ` set ts. x \<in> set new)"
    by (rule Cons.IH) (use Cons.prems in \<open>simp add: split_beta\<close>)
  then show ?case
    using set_replace_char [of x "fst t" "snd t" s] by auto
qed simp

lemma escapes_harmless: "list_all (\<lambda>e. harmless (snd e)) cell_escapes"
  by code_simp

lemma harmless_mdCell [simp]: "harmless (mdCell s)"
proof -
  have "\<not> breaks_cell x" if "x \<in> set (mdCell s)" for x
    using set_replace_chars [of x cell_escapes s] subsetD [OF set_TrimSpace, of x] that escapes_harmless
    by (fastforce simp: mdCell_def breaks_cell_def harmless_def list_all_iff filter_empty_conv)
  then show ?thesis
    by (auto simp: harmless_def filter_empty_conv)
qed

lemma harmless_itoa [simp]: "harmless (itoa n)"
proof -
  have "\<not> breaks_cell c" if "is_digit c" for c
    using that by (auto simp: is_digit_def breaks_cell_def cell_escapes_def)
  then show ?thesis
    using itoa_digits [of n] by (auto simp: harmless_def list_all_iff filter_empty_conv)
qed

lemma breaks_cell_chars: "breaks_cell (CHR ''|'')" "\<not> breaks_cell (CHR '' '')" "\<not> breaks_cell (CHR ''-'')"
  by code_simp+

lemma harmless_int_text [simp]: "harmless (int_text i)"
  by (simp add: int_text_def breaks_cell_chars)

text \<open>A row of harmless cells is one line with the separators it was built with, and with nothing else that Markdown
  would read as a cell, code, a tag or a link.\<close>

lemma row_intact:
  assumes "list_all harmless cells"
  shows "\<exists>body. row cells = ln body \<and> filter breaks_cell body = replicate (Suc (length cells)) (CHR ''|'')"
proof -
  have "filter breaks_cell (concat (map (\<lambda>c. '' '' @ c @ '' |'') cells)) = replicate (length cells) (CHR ''|'')"
    using assms by (induction cells) (auto simp: harmless_def breaks_cell_chars)
  then show ?thesis
    unfolding row_def by (intro exI [of _ "''|'' @ concat (map (\<lambda>c. '' '' @ c @ '' |'') cells)"]) (simp add: breaks_cell_chars)
qed


section \<open>What an aggregate knows\<close>

text \<open>The sets and the counting map of an aggregate have no repetition.\<close>

definition wf_aggregate :: "Aggregate \<Rightarrow> bool" where
  "wf_aggregate a \<longleftrightarrow> distinct (ag_domains a) \<and> distinct (ag_seen a) \<and> wf_map (ag_Dests a)"

lemma wf_new_aggregate: "wf_aggregate new_aggregate"
  by (simp add: wf_aggregate_def new_aggregate_def)

lemma wf_add_domain [simp]: "wf_aggregate a \<Longrightarrow> wf_aggregate (add_domain ul n a)"
  by (simp add: add_domain_def wf_aggregate_def)

lemma wf_aggregate_fields:
  "wf_aggregate a \<Longrightarrow> wf_aggregate (note_type t a)" "wf_aggregate a \<Longrightarrow> wf_aggregate (countMeta line a)"
  "wf_aggregate a \<Longrightarrow> wf_aggregate (countDest ul line a)" "wf_aggregate a \<Longrightarrow> wf_aggregate (countTLS ul line a)"
  "wf_aggregate a \<Longrightarrow> wf_aggregate (countDeny line a)"
  using wf_add_domain [of a ul]
  by (auto simp: note_type_def countMeta_def countDest_def countTLS_def countDeny_def Let_def wf_aggregate_def add_domain_def split: option.splits)

lemma wf_aggregate_counters [simp]:
  "wf_aggregate (a\<lparr>ag_TCPConns := n\<rparr>) = wf_aggregate a" "wf_aggregate (a\<lparr>ag_UDPSends := n\<rparr>) = wf_aggregate a"
  "wf_aggregate (a\<lparr>ag_HTTPReqs := n\<rparr>) = wf_aggregate a" "wf_aggregate (a\<lparr>ag_Execs := n\<rparr>) = wf_aggregate a"
  "wf_aggregate (a\<lparr>ag_ProcForks := n\<rparr>) = wf_aggregate a" "wf_aggregate (a\<lparr>ag_FSEvents := n\<rparr>) = wf_aggregate a"
  "wf_aggregate (a\<lparr>ag_QUICCandidates := n\<rparr>) = wf_aggregate a" "wf_aggregate (a\<lparr>ag_IPv6Events := n\<rparr>) = wf_aggregate a"
  "wf_aggregate (a\<lparr>ag_KTLSOffload := n\<rparr>) = wf_aggregate a" "wf_aggregate (a\<lparr>ag_TCPStateEvents := n\<rparr>) = wf_aggregate a"
  "wf_aggregate (a\<lparr>ag_IoUringSend := n\<rparr>) = wf_aggregate a" "wf_aggregate (a\<lparr>ag_IoUringTLS := n\<rparr>) = wf_aggregate a"
  "wf_aggregate (a\<lparr>ag_BPFAudit := n\<rparr>) = wf_aggregate a" "wf_aggregate (a\<lparr>ag_BPFTamper := n\<rparr>) = wf_aggregate a"
  "wf_aggregate (a\<lparr>ag_BpfSelfDefenseDenied := n\<rparr>) = wf_aggregate a" "wf_aggregate (a\<lparr>ag_EgressBackstop := n\<rparr>) = wf_aggregate a"
  "wf_aggregate (a\<lparr>ag_ParseErrors := n\<rparr>) = wf_aggregate a"
  by (simp_all add: wf_aggregate_def)

lemma wf_consumeLine: "wf_aggregate a \<Longrightarrow> wf_aggregate (consumeLine ul line a)"
proof -
  assume a: "wf_aggregate a"
  have "wf_aggregate (consume_type ul t line b)" if "wf_aggregate b" for t b
    using that by (simp add: consume_type_def wf_aggregate_fields)
  then show ?thesis
    using a by (simp add: consumeLine_def wf_aggregate_fields split: option.split)
qed

lemma wf_parse_step: "wf_aggregate a \<Longrightarrow> wf_aggregate (parse_step ul raw over a)"
  by (simp add: parse_step_def Let_def wf_consumeLine)

lemma wf_split_parse: "wf_aggregate a \<Longrightarrow> wf_aggregate (split_parse mx ul ps a)"
  by (induction mx ul ps a rule: split_parse.induct) (simp_all add: wf_parse_step)

lemma wf_Parse: "Parse_events ul stream rerr = (a, err) \<Longrightarrow> wf_aggregate a"
  by (auto simp: Parse_events_def parse_loop_split wf_split_parse wf_new_aggregate)

section \<open>Gates on whole runs\<close>

lemma sort_iterates:
  assumes "iterates it" "distinct xs"
  shows "sort (filter P (it xs)) = sorted_list_of_set {x \<in> set xs. P (x :: string)}"
proof -
  have m: "mset (it xs) = mset xs"
    using assms(1) by (simp add: iterates_def)
  have "distinct (filter P (it xs))"
    using mset_eq_imp_distinct_iff [OF m] assms(2) by simp
  then have "sort (filter P (it xs)) = sorted_list_of_set (set (filter P (it xs)))"
    by (simp only: sorted_list_of_set_sort_remdups distinct_remdups_id)
  then show ?thesis
    using mset_eq_setD [OF m] by simp
qed

lemma diff_sets:
  assumes "Parse_events ul cur rerr = (c, e)" "Parse_events ul base rerr' = (b, e')" "iterates it"
  shows "DiffDomains it c b = (sorted_list_of_set (set (ag_domains c) - set (ag_domains b)),
      sorted_list_of_set (set (ag_domains b) - set (ag_domains c)))"
proof -
  have "distinct (ag_domains c)" "distinct (ag_domains b)"
    using wf_Parse [OF assms(1)] wf_Parse [OF assms(2)] by (simp_all add: wf_aggregate_def)
  then show ?thesis
    using assms(3) by (simp add: DiffDomains_def sort_iterates set_diff_eq)
qed

text \<open>The gate on new destinations compares sets: whatever the order of Go's maps, the domains reported as added and
  as gone are the two differences of the runs' domain sets, sorted and without repetition; so it is quiet exactly when
  no new domain was contacted.\<close>

theorem diff_is_exact:
  assumes "Parse_events ul cur rerr = (c, e)" "Parse_events ul base rerr' = (b, e')" "iterates it"
  shows "DiffDomains it c b = (sorted_list_of_set (set (ag_domains c) - set (ag_domains b)),
      sorted_list_of_set (set (ag_domains b) - set (ag_domains c))) \<and>
    (fst (DiffDomains it c b) = [] \<longleftrightarrow> set (ag_domains c) \<subseteq> set (ag_domains b))"
  using diff_sets [OF assms] by auto

text \<open>Sorting makes the list of destinations independent of the order of Go's map.\<close>

lemma topDests_order: "wf_aggregate a \<Longrightarrow> iterates it \<Longrightarrow> topDests it a n = topDests (\<lambda>m. m) a n"
proof -
  assume "wf_aggregate a" "iterates it"
  then have "sort_key fst (it (ag_Dests a)) = sort_key fst (ag_Dests a)"
    by (intro sort_key_inj_key_eq) (auto simp: wf_aggregate_def iterates_def distinct_map iterates_set)
  then show ?thesis
    by (simp add: topDests_def)
qed

text \<open>The types of the well-formed lines of a log.\<close>

definition types_in :: "string list \<Rightarrow> string set" where
  "types_in ls = {t. \<exists>l \<in> set ls. typedLine l = Some t}"

lemma seen_frame: "ag_seen (consume_type ul t line a) = ag_seen a"
  by (simp add: consume_type_def countDest_def countMeta_def countTLS_def countDeny_def add_domain_def Let_def split: option.splits)

lemma seen_lines: "set (ag_seen (fold (consumeLine ul) ls a)) = set (ag_seen a) \<union> types_in ls"
proof (induction ls arbitrary: a)
  case (Cons l ls)
  have "set (ag_seen (consumeLine ul l a)) = set (ag_seen a) \<union> types_in [l]"
    by (auto simp: consumeLine_def seen_frame note_type_def types_in_def split: option.splits)
  then show ?case
    by (simp add: Cons) (auto simp: types_in_def)
qed (simp add: types_in_def)

definition records :: "string \<Rightarrow> string list" where
  "records stream = filter (\<lambda>l. l \<noteq> []) (map trim_end (splitOn (CHR 0x0A) stream))"

lemma split_parse_lines:
  "list_all (\<lambda>p. length p < mx) ps \<Longrightarrow> split_parse mx ul ps a = fold (consumeLine ul) (filter (\<lambda>l. l \<noteq> []) (map trim_end ps)) a"
  by (induction mx ul ps a rule: split_parse.induct) (auto simp: parse_step_def Let_def)

lemma missing_types:
  assumes "Parse_events ul stream rerr = (a, err)" "list_all (\<lambda>p. length p < maxEventLineBytes) (splitOn (CHR 0x0A) stream)"
  shows "set (MissingRequiredTypes a profile) = set (RequiredTypes profile) - types_in (records stream)"
proof -
  have "a = fold (consumeLine ul) (records stream) new_aggregate"
    using assms by (simp add: Parse_events_def parse_loop_split split_parse_lines records_def)
  then have "set (ag_seen a) = types_in (records stream)"
    by (simp add: seen_lines) (simp add: new_aggregate_def)
  then show ?thesis
    by (auto simp: MissingRequiredTypes_def)
qed

text \<open>The anti-blindness gate passes exactly when every required type occurs in the log: a run whose records are within
  the size limit misses no required type if and only if each of them is the type of some well-formed line.\<close>

theorem required_types_gate:
  assumes "Parse_events ul stream rerr = (a, err)" "list_all (\<lambda>p. length p < maxEventLineBytes) (splitOn (CHR 0x0A) stream)"
  shows "MissingRequiredTypes a profile = [] \<longleftrightarrow> set (RequiredTypes profile) \<subseteq> types_in (records stream)"
  using missing_types [OF assms, of profile] by (metis Diff_eq_empty_iff set_empty)

lemma verdict_marks:
  "length siren = 4" "length warning = 6" "length tick = 3" "take 3 siren \<noteq> tick" "take 3 warning \<noteq> tick"
  by code_simp+

text \<open>The verdict is green only for a run that captured events of the workload and in which nothing was tampered with,
  denied or caught by the backstop.\<close>

theorem verdict_green:
  "take 3 (verdict a) = tick \<longleftrightarrow> ag_BPFTamper a \<le> 0 \<and> ag_Denies a = [] \<and> ag_EgressBackstop a \<le> 0 \<and> \<not> CapturedNothing a"
  by (simp add: verdict_def verdict_marks)

definition demo_tcp_line :: string where
  "demo_tcp_line = json_print (JObj [(''type'', JStr ''tcp''), (''fqdn'', JStr ''Evil.example'')])"

definition demo_stream :: string where
  "demo_stream = json_print (JObj [(''type'', JStr ''meta'')]) @ [CHR 0x0A] @ json_print (JObj [(''type'', JStr ''exec'')]) @ [CHR 0x0A] @
     demo_tcp_line @ [CHR 0x0A]"

theorem required_types_gate_witness:
  "\<exists>a. Parse_events (\<lambda>s. s) demo_stream None = (a, None) \<and>
    (MissingRequiredTypes a ''standard'' = [] \<longleftrightarrow> set (RequiredTypes ''standard'') \<subseteq> types_in (records demo_stream))"
proof -
  have short: "list_all (\<lambda>p. length p < maxEventLineBytes) (splitOn (CHR 0x0A) demo_stream)"
    by code_simp
  obtain a where a: "Parse_events (\<lambda>s. s) demo_stream None = (a, None)"
    by (simp add: Parse_events_def)
  show ?thesis
    using a required_types_gate [OF a short] by blast
qed

theorem diff_is_exact_witness:
  "\<exists>c b. Parse_events (\<lambda>s. s) demo_tcp_line None = (c, None) \<and> Parse_events (\<lambda>s. s) [] None = (b, None) \<and>
    fst (DiffDomains rev c b) = sorted_list_of_set (set (ag_domains c) - set (ag_domains b))"
proof -
  obtain c b where p: "Parse_events (\<lambda>s. s) demo_tcp_line None = (c, None)" "Parse_events (\<lambda>s. s) [] None = (b, None)"
    by (simp add: Parse_events_def)
  show ?thesis
    using p diff_is_exact [OF p iterates_id(2)] by auto
qed

text \<open>The mode of a run is taken from the log and rendered as it is: a line break in it starts a heading of its own.\<close>

lemma mode_not_escaped:
  "take 26 (RenderSimple it (new_aggregate\<lparr>ag_Mode := ''x'' @ [CHR 0x0A] @ ''# forged''\<rparr>)) = ''## coldstep '' @ dash @ '' x'' @ [CHR 0x0A] @ ''# forged''"
  by (simp add: RenderSimple_def modeLabel_def ln_def) code_simp

end
