(* ===== verification/FrontEnd.thy ===== *)
theory FrontEnd
  imports Supervise Render
begin

text \<open>
  The subcommands of the action (\<^verbatim>\<open>internal/actioncli/main.go\<close>, \<^verbatim>\<open>report_markdown.go\<close>,
  \<^verbatim>\<open>cmd/coldstep/main.go\<close>): each is a function from what the operating system answers to its error, if any, and the list
  of its effects in order. An effect is listed when it is attempted; \<open>fails\<close> says which attempts fail.
\<close>

section \<open>Small helpers\<close>

definition boolString :: "bool \<Rightarrow> string" where
  "boolString v = (if v then ''true'' else ''false'')"

definition clamp :: "int \<Rightarrow> int \<Rightarrow> int \<Rightarrow> int" where
  "clamp v lo hi = (if v < lo then lo else if hi < v then hi else v)"

definition mustGetwd :: "string option \<Rightarrow> string" where
  "mustGetwd cwd = (case cwd of None \<Rightarrow> ''.'' | Some wd \<Rightarrow> wd)"

definition runtimeOS :: "(string \<Rightarrow> string) \<Rightarrow> (string \<Rightarrow> string) \<Rightarrow> string \<Rightarrow> string" where
  "runtimeOS ul getenv goos = (let v = toLower ul (TrimSpace (getenv ''RUNNER_OS'')) in if v \<noteq> [] then v else toLower ul goos)"

definition parseReportFlags :: "(string \<Rightarrow> string) \<Rightarrow> string \<Rightarrow> bool \<times> bool" where
  "parseReportFlags ul report = (let r = toLower ul (TrimSpace report) in
     if r = ''pr-comment'' then (False, True) else if r = ''both'' then (True, True)
     else if r = ''none'' then (False, False) else (True, False))"

definition normalizeCompositeMode :: "(string \<Rightarrow> string) \<Rightarrow> string \<Rightarrow> string option" where
  "normalizeCompositeMode ul raw = (let mode0 = TrimSpace (toLower ul raw); mode = (if mode0 = [] then ''detect'' else mode0) in
     if mode \<noteq> ''detect'' \<and> mode \<noteq> ''defend'' then None else Some mode)"

text \<open>The inputs that were removed, with what replaces them.\<close>

definition removed_inputs :: "(string \<times> string) list" where
  "removed_inputs =
     [(''INPUT_IGNORED-NETS'', ''put '' @ backtick @ ''!CIDR'' @ backtick @ '' entries in '' @ backtick @ ''allow'' @ backtick),
      (''INPUT_IGNORED-NETS-FILE'', ''put '' @ backtick @ ''!CIDR'' @ backtick @ '' lines in an '' @ backtick @ ''allow-file'' @ backtick),
      (''INPUT_BOOTSTRAP-ALLOWLIST'', ''list the destinations you need in '' @ backtick @ ''allow'' @ backtick @ '' or an '' @ backtick @ ''allow-file'' @ backtick)]"

definition warnRemovedAllowlistInputs :: "(string \<Rightarrow> string) \<Rightarrow> (string \<Rightarrow> string) \<Rightarrow> string list" where
  "warnRemovedAllowlistInputs ul getenv =
     map (\<lambda>(env, replacement). ''::warning title=Coldstep removed input::'' @ backtick @ toLower ul (TrimPrefix env ''INPUT_'') @ backtick @
         '' was removed in the allowlist consolidation; '' @ replacement)
       (filter (\<lambda>(env, replacement). TrimSpace (getenv env) \<noteq> []) removed_inputs)"

section \<open>Starting the agent\<close>

datatype action =
    MkdirAll string
  | RemoveFile string
  | Sysctl
  | WriteBinary string string
  | Build string string
  | Warn string
  | OpenLog string
  | StartAgent string "(string \<times> string) list" string
  | WritePid string int
  | SmokeTest
  | WriteMarker string
  | Terminate int

datatype start_error =
    NotLinux
  | Failed action
  | BadReleasePath path_error
  | ReleaseNotFound
  | ReleaseUnreadable
  | BadMode
  | BadAllowInput allow_error
  | BadAllowPolicy policy_error
  | DefendWildcards "string list"
  | BadProfile config_error
  | NotReady string
  | StillWaiting

text \<open>\<open>so_eval k\<close> are the links at the \<open>k\<close>-th look at an allow-file, \<open>so_link\<close> those when the release path is resolved;
  \<open>so_find\<close> and \<open>so_ready\<close> are start time and rounds of the two waits.\<close>

record start_os =
  so_getenv :: "string \<Rightarrow> string"
  so_cwd :: "string option"
  so_goos :: string
  so_tempDir :: string
  so_link :: "string \<Rightarrow> string option"
  so_eval :: "nat \<Rightarrow> string \<Rightarrow> string option"
  so_exists :: "string \<Rightarrow> bool"
  so_file :: "string \<Rightarrow> string option"
  so_fails :: "action \<Rightarrow> bool"
  so_sudoPid :: int
  so_find :: "int \<times> (proc_fs \<times> int) list"
  so_ready :: "int \<times> ready_poll list"

type_synonym run = "start_error option \<times> action list"

definition attempt :: "start_os \<Rightarrow> action \<Rightarrow> run" where
  "attempt os a = (if so_fails os a then Some (Failed a) else None, [a])"

definition and_then :: "run \<Rightarrow> run \<Rightarrow> run" where
  "and_then r q = (case fst r of Some e \<Rightarrow> r | None \<Rightarrow> (fst q, snd r @ snd q))"

definition start_actionPath :: "start_os \<Rightarrow> string" where
  "start_actionPath os = getenvDefault (so_getenv os) ''GITHUB_ACTION_PATH'' (mustGetwd (so_cwd os))"

definition start_baseDir :: "start_os \<Rightarrow> string" where
  "start_baseDir os = getenvDefault (so_getenv os) ''GITHUB_WORKSPACE'' (start_actionPath os)"

definition start_binPath :: "start_os \<Rightarrow> string" where
  "start_binPath os = Join [start_actionPath os, ''bin'', ''coldstep'']"

definition start_statusPath :: "start_os \<Rightarrow> string" where
  "start_statusPath os = Join [start_baseDir os, ''.coldstep-ready.json'']"

definition start_stderrLog :: "start_os \<Rightarrow> string" where
  "start_stderrLog os = Join [start_baseDir os, ''.coldstep-agent.stderr.log'']"

definition start_readyMarker :: "start_os \<Rightarrow> string" where
  "start_readyMarker os = Join [start_actionPath os, ''.coldstep.ready.ok'']"

text \<open>The directory is made and the traces of an earlier run are removed; failures to remove and to set the sysctl are
  not errors.\<close>

definition clear_traces :: "start_os \<Rightarrow> startConfig \<Rightarrow> run" where
  "clear_traces os cfg = and_then (attempt os (MkdirAll (Join [start_actionPath os, ''bin''])))
     (None, [RemoveFile (start_statusPath os), RemoveFile (start_readyMarker os)] @
       (if sc_FailOnError cfg then [RemoveFile (start_stderrLog os)] else []) @ (if sc_IoUringDisable cfg then [Sysctl] else []))"

definition stage_binary :: "start_os \<Rightarrow> startConfig \<Rightarrow> run" where
  "stage_binary os cfg = (if sc_ReleasePath cfg \<noteq> [] then
       let src0 = (if IsAbs (sc_ReleasePath cfg) then sc_ReleasePath cfg else Join [start_baseDir os, sc_ReleasePath cfg]) in
       (case Workspace (so_getenv os) (so_link os) (so_tempDir os) (so_cwd os) src0 of
          Inl e \<Rightarrow> (Some (BadReleasePath e), [])
        | Inr src \<Rightarrow> if \<not> so_exists os src then (Some ReleaseNotFound, [])
            else (case so_file os src of None \<Rightarrow> (Some ReleaseUnreadable, [])
              | Some raw \<Rightarrow> attempt os (WriteBinary (start_binPath os) raw)))
     else attempt os (Build (Join [start_actionPath os, ''scripts'', ''build-agent-linux.sh'']) (start_actionPath os)))"

text \<open>The mode and the classified allow list of the inputs and files.\<close>

definition start_allow :: "(string \<Rightarrow> string) \<Rightarrow> start_os \<Rightarrow> startConfig \<Rightarrow> start_error + string \<times> classifiedAllow" where
  "start_allow ul os cfg = (case normalizeCompositeMode ul (sc_Mode cfg) of None \<Rightarrow> Inl BadMode
     | Some mode \<Rightarrow> (case mergeInlineAndAllowlistFiles (so_eval os) (so_file os) (so_cwd os) (start_baseDir os) (sc_Allow cfg) (sc_AllowFile cfg) of
         Inl e \<Rightarrow> Inl (BadAllowInput e)
       | Inr merged \<Rightarrow> Inr (mode, classifyAllowTokens (splitAllowInlineTokens merged))))"

text \<open>The variables appended to the environment of the agent.\<close>

definition start_vars :: "start_os \<Rightarrow> startConfig \<Rightarrow> string \<Rightarrow> classifiedAllow \<Rightarrow> string \<Rightarrow> (string \<times> string) list" where
  "start_vars os cfg mode allow profile =
     [(''GITHUB_WORKSPACE'', start_baseDir os),
     (''COLDSTEP_ALLOWED_DOMAINS'', Join_sep '','' (ca_domains allow)),
     (''COLDSTEP_ALLOWED_HOSTS'', Join_sep '','' (ca_hosts allow)),
     (''COLDSTEP_ALLOWED_IPS'', Join_sep '','' (ca_ips allow)),
     (''COLDSTEP_IGNORED_IP_NETS'', Join_sep '','' (ca_ignoredNets allow)),
     (''COLDSTEP_NO_DEFAULT_IGNORED_NETS'', boolString (sc_NoDefaultIgnoredNets cfg)),
     (''COLDSTEP_FEATURE_GATES'', if profile = ''enhanced'' then ''proc_tree=1,tls_sni=1,fs_events=1'' else []),
     (''COLDSTEP_DETECT_PROFILE'', profile),
     (''CI_GUARD_MODE'', mode),
     (''COLDSTEP_LOG_LEVEL'', sc_LogLevel cfg),
     (''COLDSTEP_AGENT_STATUS'', start_statusPath os),
     (''COLDSTEP_SIGNING_KEY'', if sc_SigningKey cfg = [] then so_getenv os ''COLDSTEP_SIGNING_KEY'' else sc_SigningKey cfg)]"

text \<open>The environment once the policy was checked.\<close>

definition start_env :: "(string \<Rightarrow> string) \<Rightarrow> start_os \<Rightarrow> startConfig \<Rightarrow> string \<Rightarrow> classifiedAllow \<Rightarrow> start_error + (string \<times> string) list" where
  "start_env ul os cfg mode allow = (case validateAllowPolicy ul allow (sc_NoDefaultIgnoredNets cfg) of Some e \<Rightarrow> Inl (BadAllowPolicy e)
     | None \<Rightarrow> if mode = ''defend'' \<and> rejectDefendWildcards allow \<noteq> [] then Inl (DefendWildcards (rejectDefendWildcards allow))
       else (case ResolveDetectProfile ul (sc_DetectProfile cfg) (so_getenv os ''COLDSTEP_DETECT_PROFILE'') of Inl e \<Rightarrow> Inl (BadProfile e)
         | Inr profile \<Rightarrow> Inr (start_vars os cfg mode allow profile)))"

definition stopAgent :: "int \<Rightarrow> action list" where
  "stopAgent pid = (if 0 < pid then [Terminate pid] else [])"

text \<open>After the launch: the pidfile, the smoke test and, when asked for, the wait for readiness.\<close>

definition await_ready :: "start_os \<Rightarrow> startConfig \<Rightarrow> int \<Rightarrow> run" where
  "await_ready os cfg pid = (if \<not> sc_FailOnError cfg then (None, [])
     else (case waitForReady (fst (so_ready os)) (clamp (sc_ReadyTimeoutSeconds cfg) 60 2700 * 10 ^ 9) pid (snd (so_ready os)) of
         None \<Rightarrow> (Some StillWaiting, [])
       | Some outcome \<Rightarrow> if outcome \<noteq> ''ready'' then (Some (NotReady outcome), stopAgent pid)
           else let w = WriteMarker (start_readyMarker os) in
             if so_fails os w then (Some (Failed w), w # stopAgent pid) else (None, [w])))"

definition after_launch :: "start_os \<Rightarrow> startConfig \<Rightarrow> int \<Rightarrow> run" where
  "after_launch os cfg pid = (let w = WritePid (Join [start_baseDir os, ''.coldstep.pid'']) pid in
     if so_fails os w then (Some (Failed w), w # stopAgent pid)
     else and_then (None, w # (if sc_SmokeTestEgress cfg then [SmokeTest] else [])) (await_ready os cfg pid))"

definition launch :: "start_os \<Rightarrow> startConfig \<Rightarrow> (string \<times> string) list \<Rightarrow> run" where
  "launch os cfg env = and_then (attempt os (OpenLog (start_stderrLog os)))
     (and_then (attempt os (StartAgent (start_binPath os) env (start_actionPath os)))
       (case findAgentPID (so_sudoPid os) (2 * 10 ^ 9) (fst (so_find os)) (snd (so_find os)) of
          None \<Rightarrow> (Some StillWaiting, [])
        | Some pid \<Rightarrow> after_launch os cfg pid))"

definition prepare_and_launch :: "(string \<Rightarrow> string) \<Rightarrow> start_os \<Rightarrow> startConfig \<Rightarrow> run" where
  "prepare_and_launch ul os cfg = (case start_allow ul os cfg of Inl e \<Rightarrow> (Some e, [])
     | Inr (mode, allow) \<Rightarrow> and_then (None, map Warn (warnRemovedAllowlistInputs ul (so_getenv os)))
         (case start_env ul os cfg mode allow of Inl e \<Rightarrow> (Some e, []) | Inr env \<Rightarrow> launch os cfg env))"

definition runStart :: "(string \<Rightarrow> string) \<Rightarrow> start_os \<Rightarrow> startConfig \<Rightarrow> run" where
  "runStart ul os cfg = (if runtimeOS ul (so_getenv os) (so_goos os) \<noteq> ''linux'' then (Some NotLinux, [])
     else and_then (clear_traces os cfg) (and_then (stage_binary os cfg) (prepare_and_launch ul os cfg)))"

section \<open>What a start promises\<close>

lemma and_then_None [simp]: "and_then (None, as) q = (fst q, as @ snd q)"
  by (simp add: and_then_def)

lemma and_then_Some [simp]: "and_then (Some e, as) q = (Some e, as)"
  by (simp add: and_then_def)

text \<open>Steps that neither launch nor terminate an agent.\<close>

fun about_agent :: "action \<Rightarrow> bool" where
  "about_agent (StartAgent bin env dir) = True"
| "about_agent (Terminate pid) = True"
| "about_agent _ = False"

definition quiet :: "run \<Rightarrow> bool" where
  "quiet r \<longleftrightarrow> list_all (\<lambda>a. \<not> about_agent a) (snd r)"

lemma quiet_steps: "quiet (clear_traces os cfg)" "quiet (stage_binary os cfg)"
  by (auto simp: quiet_def clear_traces_def stage_binary_def and_then_def attempt_def Let_def split: sum.splits option.splits)

lemma quiet_warn: "quiet (None, map Warn ws)"
  by (simp add: quiet_def list_all_iff)

lemma quiet_then:
  assumes "quiet r" "about_agent a" "a \<in> set (snd (and_then r q))"
  shows "fst r = None \<and> a \<in> set (snd q)"
  using assms by (auto simp: and_then_def quiet_def list_all_iff split: option.splits)

text \<open>The launch was attempted and did not fail.\<close>

definition launched :: "start_os \<Rightarrow> (string \<times> string) list \<Rightarrow> action list \<Rightarrow> bool" where
  "launched os env acts \<longleftrightarrow> (\<exists>bin dir. StartAgent bin env dir \<in> set acts \<and> \<not> so_fails os (StartAgent bin env dir))"

lemma after_launch_error:
  assumes "after_launch os cfg pid = (Some e, acts)" "e \<noteq> StillWaiting" "0 < pid"
  shows "acts \<noteq> [] \<and> last acts = Terminate pid"
  using assms by (auto simp: after_launch_def await_ready_def stopAgent_def Let_def split: if_splits option.splits)

lemma after_launch_ok:
  assumes "after_launch os cfg pid = (None, acts)"
  shows "\<not> list_ex about_agent acts \<and> (sc_FailOnError cfg \<longrightarrow>
    waitForReady (fst (so_ready os)) (clamp (sc_ReadyTimeoutSeconds cfg) 60 2700 * 10 ^ 9) pid (snd (so_ready os)) = Some ''ready'')"
  using assms by (auto simp: after_launch_def await_ready_def Let_def split: if_splits option.splits)

lemma after_launch_no_start: "StartAgent bin env dir \<notin> set (snd (after_launch os cfg pid))"
  by (auto simp: after_launch_def await_ready_def stopAgent_def Let_def split: option.splits)

definition agent_pid :: "start_os \<Rightarrow> int option" where
  "agent_pid os = findAgentPID (so_sudoPid os) (2 * 10 ^ 9) (fst (so_find os)) (snd (so_find os))"

lemma launch_run:
  assumes "launch os cfg env = (r, acts)"
  shows "(\<exists>a. r = Some (Failed a) \<and> (\<forall>env'. \<not> launched os env' acts)) \<or> agent_pid os = None \<and> r = Some StillWaiting \<or>
    (\<exists>pid acts'. agent_pid os = Some pid \<and> after_launch os cfg pid = (r, acts') \<and>
      acts = [OpenLog (start_stderrLog os), StartAgent (start_binPath os) env (start_actionPath os)] @ acts')"
  using assms
  by (auto simp: launch_def attempt_def agent_pid_def launched_def split: if_splits option.splits)

lemma launch_starts:
  assumes "launched os env' (snd (launch os cfg env))"
  shows "env' = env"
  using assms after_launch_no_start
  by (fastforce simp: launch_def attempt_def launched_def split: if_splits option.splits)

text \<open>Inversion of a start that launched an agent or returned without an error.\<close>

lemma runStart_launch:
  assumes "runStart ul os cfg = (r, acts)" "r = None \<or> list_ex about_agent acts"
  shows "\<exists>mode allow env pre acts'. start_allow ul os cfg = Inr (mode, allow) \<and> start_env ul os cfg mode allow = Inr env \<and>
    launch os cfg env = (r, acts') \<and> acts = pre @ acts' \<and> list_all (\<lambda>a. \<not> about_agent a) pre"
proof -
  have ct: "fst (clear_traces os cfg) = None" and sb: "fst (stage_binary os cfg) = None"
    and run: "(r, acts) = and_then (clear_traces os cfg) (and_then (stage_binary os cfg) (prepare_and_launch ul os cfg))"
    using assms quiet_steps [of os cfg]
    by (auto simp: runStart_def and_then_def quiet_def list_ex_iff list_all_iff split: if_splits option.splits)
  obtain p where p: "prepare_and_launch ul os cfg = (r, p)" "acts = snd (clear_traces os cfg) @ snd (stage_binary os cfg) @ p"
    using run ct sb by (cases "prepare_and_launch ul os cfg") (auto simp: and_then_def)
  have q: "r = None \<or> list_ex about_agent p"
    using assms(2) p(2) quiet_steps [of os cfg] by (auto simp: quiet_def list_ex_iff list_all_iff)
  then obtain mode allow where a: "start_allow ul os cfg = Inr (mode, allow)"
    using p(1) by (cases "start_allow ul os cfg") (auto simp: prepare_and_launch_def)
  obtain env where env: "start_env ul os cfg mode allow = Inr env"
    using q p(1) a quiet_warn
    by (cases "start_env ul os cfg mode allow") (auto simp: prepare_and_launch_def list_ex_iff)
  obtain acts' where "launch os cfg env = (r, acts')" "p = map Warn (warnRemovedAllowlistInputs ul (so_getenv os)) @ acts'"
    using p(1) a env by (cases "launch os cfg env") (auto simp: prepare_and_launch_def)
  then have "launch os cfg env = (r, acts')" "acts = (snd (clear_traces os cfg) @ snd (stage_binary os cfg) @
      map Warn (warnRemovedAllowlistInputs ul (so_getenv os))) @ acts'"
    using p(2) by simp_all
  moreover have "list_all (\<lambda>a. \<not> about_agent a) (snd (clear_traces os cfg) @ snd (stage_binary os cfg) @
      map Warn (warnRemovedAllowlistInputs ul (so_getenv os)))"
    using quiet_steps [of os cfg] by (auto simp: quiet_def list_all_iff)
  ultimately show ?thesis
    using a env by blast
qed

lemma launched_about: "launched os env acts \<Longrightarrow> list_ex about_agent acts"
  by (force simp: launched_def list_ex_iff)

lemma launched_tail: "list_all (\<lambda>a. \<not> about_agent a) pre \<Longrightarrow> launched os env (pre @ acts) \<longleftrightarrow> launched os env acts"
  by (force simp: launched_def list_all_iff)

lemma ready_seen: "waitForReady start timeout pid ps = Some ''ready'' \<Longrightarrow> \<exists>p \<in> set ps. status_of p = Some StatusReady"
  unfolding waitForReady_def by (drule wait_rounds_decided) (auto simp: decided_by_def)

lemma launch_outcome:
  assumes l: "launch os cfg env = (r, acts)" and "0 < so_sudoPid os" "r \<noteq> Some StillWaiting" "launched os env' acts \<or> r = None"
  shows "\<exists>pid. agent_pid os = Some pid \<and> (r \<noteq> None \<longrightarrow> last acts = Terminate pid)"
    and "r = None \<Longrightarrow> launched os env acts \<and> (\<forall>pid. Terminate pid \<notin> set acts) \<and>
      (sc_FailOnError cfg \<longrightarrow> (\<exists>p \<in> set (snd (so_ready os)). status_of p = Some StatusReady))"
proof -
  obtain pid acts' where pid: "agent_pid os = Some pid" and al: "after_launch os cfg pid = (r, acts')"
    and acts: "acts = [OpenLog (start_stderrLog os), StartAgent (start_binPath os) env (start_actionPath os)] @ acts'"
    using launch_run [OF l] assms(3,4) by blast
  have pos: "0 < pid"
    using pid assms(2) findAgentPID_positive unfolding agent_pid_def by blast
  have "last acts = Terminate pid" if "r \<noteq> None"
    using after_launch_error [of os cfg pid] al that assms(3) pos acts by auto
  then show "\<exists>pid. agent_pid os = Some pid \<and> (r \<noteq> None \<longrightarrow> last acts = Terminate pid)"
    using pid by blast
  assume r: "r = None"
  have "\<not> so_fails os (StartAgent (start_binPath os) env (start_actionPath os))"
    using l r by (auto simp: launch_def attempt_def split: if_splits)
  then have "launched os env acts"
    by (auto simp: launched_def acts)
  moreover note ok = after_launch_ok [OF al [unfolded r]]
  have "Terminate q \<notin> set acts" for q
    using ok by (force simp: acts list_ex_iff)
  ultimately show "launched os env acts \<and> (\<forall>pid. Terminate pid \<notin> set acts) \<and>
      (sc_FailOnError cfg \<longrightarrow> (\<exists>p \<in> set (snd (so_ready os)). status_of p = Some StatusReady))"
    using ok ready_seen by blast
qed


section \<open>The agent accepts what the start checked\<close>

text \<open>The environment of the agent: of several settings of a variable the last one counts.\<close>

definition child_getenv :: "(string \<Rightarrow> string) \<Rightarrow> (string \<times> string) list \<Rightarrow> string \<Rightarrow> string" where
  "child_getenv getenv env k = (case map_of (rev env) k of Some v \<Rightarrow> v | None \<Rightarrow> getenv k)"

lemma ignored_literals:
  "n \<in> set (ca_ignoredNets (fold classify_token toks c)) \<Longrightarrow> ipv4LiteralOrCIDR n \<or> n \<in> set (ca_ignoredNets c)"
  by (induction toks arbitrary: c) (force simp: classify_token_def Let_def split: if_splits)+

lemma cut_parts: "Cut d c = Some (x, m) \<Longrightarrow> d = x @ c # m"
  by (auto simp: Cut_def dest!: IndexByte_SomeD intro: id_take_nth_drop)

lemma digits_chars: "digits_between lo hi s \<Longrightarrow> c \<in> set s \<Longrightarrow> is_digit c"
  by (simp add: digits_between_def list_all_iff)

lemma literal_chars:
  assumes "ipv4LiteralOrCIDR n" "c \<in> set n"
  shows "is_digit c \<or> c \<in> set ''./''"
proof -
  obtain w x y z where s: "splitOn CHR ''.'' n = [w, x, y, z]"
    using assms(1) by (auto simp: ipv4LiteralOrCIDR_def split: list.splits)
  note lit = assms(1) [unfolded ipv4LiteralOrCIDR_def s list.case]
  have "is_digit c \<or> c = CHR ''/''" if "c \<in> set z"
    using lit that by (cases "Cut z CHR ''/''") (auto dest!: cut_parts dest: digits_chars)
  then show ?thesis
    using set_splitOn [OF assms(2), of "CHR ''.''"] lit by (auto simp: s dest: digits_chars)
qed

lemma digit_plain: "is_digit c \<Longrightarrow> is_ascii c \<and> \<not> ascii_space c"
  by (auto simp: is_digit_def is_ascii_def ascii_space_def)

lemma Join_sep_chars: "c \<in> set (Join_sep sep ss) \<Longrightarrow> c \<in> set sep \<or> (\<exists>t \<in> set ss. c \<in> set t)"
  by (auto simp: Join_sep_def split: list.splits if_splits)

lemma ignored_text_plain: "TrimSpace (Join_sep '','' (ca_ignoredNets (classifyAllowTokens toks))) = Join_sep '','' (ca_ignoredNets (classifyAllowTokens toks))"
proof (rule TrimSpace_plain)
  fix c
  assume "c \<in> set (Join_sep '','' (ca_ignoredNets (classifyAllowTokens toks)))"
  then consider "c = CHR '',''" | n where "n \<in> set (ca_ignoredNets (classifyAllowTokens toks))" "c \<in> set n"
    using Join_sep_chars by fastforce
  then show "is_ascii c \<and> \<not> ascii_space c"
  proof cases
    case 1
    then show ?thesis
      by (simp add: is_ascii_def ascii_space_def)
  next
    case 2
    then have "is_digit c \<or> c \<in> set ''./''"
      using ignored_literals [of n toks no_allow] literal_chars by (auto simp: classifyAllowTokens_def no_allow_def)
    then show ?thesis
      using digit_plain by (auto simp: is_ascii_def ascii_space_def)
  qed
qed

lemma vars_read:
  "map_of (rev (start_vars os cfg mode allow profile)) ''COLDSTEP_DETECT_PROFILE'' = Some profile"
  "map_of (rev (start_vars os cfg mode allow profile)) ''CI_GUARD_MODE'' = Some mode"
  "map_of (rev (start_vars os cfg mode allow profile)) ''COLDSTEP_ALLOWED_DOMAINS'' = Some (Join_sep '','' (ca_domains allow))"
  "map_of (rev (start_vars os cfg mode allow profile)) ''COLDSTEP_ALLOWED_HOSTS'' = Some (Join_sep '','' (ca_hosts allow))"
  "map_of (rev (start_vars os cfg mode allow profile)) ''COLDSTEP_ALLOWED_IPS'' = Some (Join_sep '','' (ca_ips allow))"
  "map_of (rev (start_vars os cfg mode allow profile)) ''COLDSTEP_IGNORED_IP_NETS'' = Some (Join_sep '','' (ca_ignoredNets allow))"
  "map_of (rev (start_vars os cfg mode allow profile)) ''COLDSTEP_NO_DEFAULT_IGNORED_NETS'' = Some (boolString (sc_NoDefaultIgnoredNets cfg))"
  "map_of (rev (start_vars os cfg mode allow profile)) ''COLDSTEP_AGENT_STATUS'' = Some (start_statusPath os)"
  "map_of (rev (start_vars os cfg mode allow profile)) ''COLDSTEP_CGROUP_PATH'' = None"
  by (simp_all add: start_vars_def)

lemma start_env_vars:
  assumes "start_env ul os cfg mode allow = Inr env"
  shows "\<exists>profile. ResolveDetectProfile ul (sc_DetectProfile cfg) (so_getenv os ''COLDSTEP_DETECT_PROFILE'') = Inr profile \<and>
      env = start_vars os cfg mode allow profile"
    and "\<exists>p. BuildPolicyEx ul (Join_sep '','' (ca_hosts allow)) (Join_sep '','' (ca_ips allow)) (Join_sep '','' (ca_ignoredNets allow))
      (\<not> sc_NoDefaultIgnoredNets cfg) = Inr p"
    and "mode = ''defend'' \<Longrightarrow> rejectDefendWildcards allow = []"
  using assms by (auto simp: start_env_def validateAllowPolicy_def split: option.splits sum.splits if_splits)

lemma boolString_read: "envBoolTrue (\<lambda>k. boolString b) key = b"
proof -
  have "envBoolTrue (\<lambda>k. boolString True) []" "\<not> envBoolTrue (\<lambda>k. boolString False) []"
    by code_simp+
  then show ?thesis
    by (cases b) (simp_all add: envBoolTrue_def)
qed

lemma envBoolTrue_boolString: "getenv key = boolString b \<Longrightarrow> envBoolTrue getenv key = b"
  using boolString_read [of b key] by (simp add: envBoolTrue_def)

lemma mode_read:
  "TrimSpace ''detect'' = ''detect''" "toLower ul ''detect'' = ''detect''" "TrimSpace ''defend'' = ''defend''" "toLower ul ''defend'' = ''defend''"
  by code_simp+

lemma normalized_mode: "normalizeCompositeMode ul raw = Some mode \<Longrightarrow> mode = ''detect'' \<or> mode = ''defend''"
  by (auto simp: normalizeCompositeMode_def Let_def split: if_splits)

lemma profile_again: "ResolveDetectProfile ul f e = Inr p \<Longrightarrow> ResolveDetectProfile ul [] p = Inr p"
proof -
  assume "ResolveDetectProfile ul f e = Inr p"
  then consider "p = ''standard''" | "p = ''enhanced''"
    using ResolveDetectProfile_ok by blast
  moreover have "TrimSpace [] = []" "TrimSpace ''standard'' = ''standard''" "TrimSpace ''enhanced'' = ''enhanced''"
    "toLower ul ''standard'' = ''standard''" "toLower ul ''enhanced'' = ''enhanced''"
    by code_simp+
  ultimately show ?thesis
    by cases (simp_all add: ResolveDetectProfile_def)
qed


section \<open>A start that fails after the launch\<close>

definition demo_start_os :: start_os where
  "demo_start_os = \<lparr>so_getenv = (\<lambda>k. if k = ''GITHUB_WORKSPACE'' then ''/ws'' else if k = ''GITHUB_ACTION_PATH'' then ''/act'' else []),
     so_cwd = Some ''/'', so_goos = ''linux'', so_tempDir = ''/tmp'', so_link = (\<lambda>p. None), so_eval = (\<lambda>k p. None),
     so_exists = (\<lambda>p. False), so_file = (\<lambda>p. None), so_fails = (\<lambda>a. False), so_sudoPid = 10,
     so_find = (0, [(demo_proc, 0)]), so_ready = (0, [demo_poll 0 (Some (status_payload False))])\<rparr>"

definition demo_start_cfg :: "string \<Rightarrow> startConfig" where
  "demo_start_cfg allow = \<lparr>sc_Mode = ''defend'', sc_Allow = allow, sc_AllowFile = [], sc_NoDefaultIgnoredNets = False, sc_LogLevel = ''info'',
     sc_DetectProfile = [], sc_ReleasePath = [], sc_FailOnError = True, sc_ReadyTimeoutSeconds = 60, sc_SmokeTestEgress = False,
     sc_IoUringDisable = True, sc_SigningKey = [], sc_Report = ''job-summary''\<rparr>"

definition demo_allow :: classifiedAllow where
  "demo_allow = \<lparr>ca_domains = [''a.io''], ca_hosts = [''a.io''], ca_ips = [], ca_ignoredNets = []\<rparr>"

lemma demo_allow_start: "start_allow ul demo_start_os (demo_start_cfg ''a.io'') = Inr (''defend'', demo_allow)"
  by code_simp

lemma demo_env_start: "start_env ul demo_start_os (demo_start_cfg ''a.io'') ''defend'' demo_allow =
    Inr (start_vars demo_start_os (demo_start_cfg ''a.io'') ''defend'' demo_allow ''standard'')"
proof -
  have "validateAllowPolicy ul demo_allow False = None" "rejectDefendWildcards demo_allow = []" "ResolveDetectProfile ul [] [] = Inr ''standard''"
    by code_simp+
  then show ?thesis
    by (simp add: start_env_def demo_start_cfg_def demo_start_os_def)
qed

lemma demo_agent_pid: "findAgentPID 10 (2 * 10 ^ 9) 0 [(demo_proc, 0)] = Some 11"
  by (simp add: findAgentPID_def demo_walk)

lemma demo_run:
  "fst (runStart ul demo_start_os (demo_start_cfg ''a.io'')) = Some (NotReady ''explicit_not_ready'')"
  "launched demo_start_os (start_vars demo_start_os (demo_start_cfg ''a.io'') ''defend'' demo_allow ''standard'')
     (snd (runStart ul demo_start_os (demo_start_cfg ''a.io'')))"
proof -
  have "runtimeOS ul (so_getenv demo_start_os) (so_goos demo_start_os) = ''linux''"
    by code_simp
  moreover have "waitForReady 0 (clamp 60 60 2700 * 10 ^ 9) 11 [demo_poll 0 (Some (status_payload False))] = Some ''explicit_not_ready''"
    by code_simp
  moreover have "so_fails demo_start_os = (\<lambda>a. False)" "so_sudoPid demo_start_os = 10" "so_find demo_start_os = (0, [(demo_proc, 0)])"
    "so_ready demo_start_os = (0, [demo_poll 0 (Some (status_payload False))])"
    by (simp_all add: demo_start_os_def)
  moreover have "sc_ReleasePath (demo_start_cfg a) = []" "sc_FailOnError (demo_start_cfg a)" "sc_ReadyTimeoutSeconds (demo_start_cfg a) = 60" for a
    by (simp_all add: demo_start_cfg_def)
  ultimately show
    "fst (runStart ul demo_start_os (demo_start_cfg ''a.io'')) = Some (NotReady ''explicit_not_ready'')"
    "launched demo_start_os (start_vars demo_start_os (demo_start_cfg ''a.io'') ''defend'' demo_allow ''standard'')
       (snd (runStart ul demo_start_os (demo_start_cfg ''a.io'')))"
    by (auto simp: runStart_def clear_traces_def stage_binary_def attempt_def prepare_and_launch_def demo_allow_start demo_env_start
        launch_def demo_agent_pid [simplified] after_launch_def await_ready_def stopAgent_def Let_def launched_def)
qed



text \<open>The one policy a start in defend mode accepts and the agent refuses: an allow list of addresses only.\<close>

definition demo_ip_only :: classifiedAllow where
  "demo_ip_only = \<lparr>ca_domains = [], ca_hosts = [], ca_ips = [''10.0.0.1''], ca_ignoredNets = []\<rparr>"

lemma ip_only_refused:
  "start_allow ul demo_start_os (demo_start_cfg ''10.0.0.1'') = Inr (''defend'', demo_ip_only)"
  "\<exists>env. start_env ul demo_start_os (demo_start_cfg ''10.0.0.1'') ''defend'' demo_ip_only = Inr env \<and>
     LoadFromEnv ul (child_getenv (so_getenv demo_start_os) env) isDir cwd = Inl EmptyAllowlist"
proof -
  show "start_allow ul demo_start_os (demo_start_cfg ''10.0.0.1'') = Inr (''defend'', demo_ip_only)"
    by code_simp
  have "validateAllowPolicy ul demo_ip_only False = None" "rejectDefendWildcards demo_ip_only = []" "ResolveDetectProfile ul [] [] = Inr ''standard''"
    by code_simp+
  then have "start_env ul demo_start_os (demo_start_cfg ''10.0.0.1'') ''defend'' demo_ip_only =
      Inr (start_vars demo_start_os (demo_start_cfg ''10.0.0.1'') ''defend'' demo_ip_only ''standard'')"
    by (simp add: start_env_def demo_start_cfg_def demo_start_os_def)
  moreover have "NormalizeDomainsFromRaw ul (Join_sep '','' (ca_domains demo_ip_only)) = []"
    by code_simp
  ultimately show "\<exists>env. start_env ul demo_start_os (demo_start_cfg ''10.0.0.1'') ''defend'' demo_ip_only = Inr env \<and>
     LoadFromEnv ul (child_getenv (so_getenv demo_start_os) env) isDir cwd = Inl EmptyAllowlist"
    by (simp add: LoadFromEnv_def child_getenv_def vars_read mode_read)
qed

end
