(* ===== verification/Truncate.thy ===== *)
theory Truncate
  imports Sanitize
begin

text \<open>
  Cutting the body of a pull request comment to size (\<^verbatim>\<open>truncate\<close> of \<^verbatim>\<open>internal/actioncli/main.go\<close>), over a model of
  \<^verbatim>\<open>utf8.DecodeLastRuneInString\<close>.
\<close>

text \<open>The index at which the last rune is tried: the nearest of the three bytes before the last one that starts a rune; when
  none does, the start of the text or the byte before those.\<close>

definition last_start :: "nat list \<Rightarrow> nat" where
  "last_start s = (let n = length s in
     case find (\<lambda>i. RuneStart (s ! i)) (map (\<lambda>k. n - k) (filter (\<lambda>k. k \<le> n) [2, 3, 4])) of
       Some i \<Rightarrow> i | None \<Rightarrow> if n \<le> 4 then 0 else n - 5)"

definition DecodeLastRune :: "nat list \<Rightarrow> nat \<times> nat" where
  "DecodeLastRune s = (if s = [] then (runeError, 0)
     else if last s < 0x80 then (last s, 1)
     else let start = last_start s; (r, w) = decode_rune (drop start s) in
       if start + w \<noteq> length s then (runeError, 1) else (r, w))"

text \<open>The loop that backs off a partial rune, at most \<open>n\<close> bytes.\<close>

fun back_off :: "nat \<Rightarrow> nat list \<Rightarrow> nat \<Rightarrow> nat" where
  "back_off n s e = (if n = 0 \<or> e = 0 then e
     else (case DecodeLastRune (take e s) of (r, w) \<Rightarrow>
       if r \<noteq> runeError \<or> 1 < w then e else back_off (n - 1) s (e - 1)))"

declare back_off.simps [simp del]

text \<open>The number of code fences, as \<^verbatim>\<open>strings.Count\<close> of three backquotes.\<close>

fun fences :: "string \<Rightarrow> nat" where
  "fences (a # b # c # s) = (if a = CHR 0x60 \<and> b = CHR 0x60 \<and> c = CHR 0x60 then Suc (fences s) else fences (b # c # s))"
| "fences _ = 0"

definition truncate_body :: "string \<Rightarrow> nat \<Rightarrow> string" where
  "truncate_body s limit = (if length s \<le> limit then s
     else let cut = take (back_off 3 (codes s) limit) s;
       closed = (if odd (fences cut) then cut @ [CHR 0x0A, CHR 0x60, CHR 0x60, CHR 0x60] else cut) in
       closed @ [CHR 0x0A, CHR 0x0A] @ ''_(truncated)_'' @ [CHR 0x0A])"

section \<open>The last rune\<close>

lemma decode_small: "decode_rune s = (r, w) \<Longrightarrow> w \<le> 4"
  by (auto simp: decode_rune_def split: list.splits if_splits)

lemma decode_conts:
  assumes "decode_rune s = (r, w)" "0 < i" "i < w"
  shows "cont (s ! i)"
proof -
  have "i = 1 \<or> i = 2 \<or> i = 3"
    using decode_small [OF assms(1)] assms(2,3) by linarith
  then show ?thesis
    using assms(1,3) by (auto simp: decode_rune_def cont_def split: list.splits if_splits)
qed

text \<open>A rune start followed by one to three continuation bytes is found from behind.\<close>

lemma last_start_lead:
  assumes "\<not> cont b" "\<forall>c \<in> set cs. cont c" "cs \<noteq> []" "length cs \<le> 3"
  shows "last_start (p @ b # cs) = length p"
proof -
  consider x where "cs = [x]" | x y where "cs = [x, y]" | x y z where "cs = [x, y, z]"
    using assms(3,4) by (cases cs; cases "tl cs"; cases "tl (tl cs)") (auto simp: Suc_le_eq)
  then show ?thesis
    by cases (use assms(1,2) in \<open>simp_all add: last_start_def RuneStart_def nth_append Let_def\<close>)
qed

lemma encode_length: "length (encode_rune r) \<le> 4"
  by (simp add: encode_rune_def Let_def)

lemma encode_single: "encode_rune r = [b] \<Longrightarrow> b < 0x80"
  by (auto simp: encode_rune_def Let_def split: if_splits)

lemma encode_multi: "encode_rune r = b # cs \<Longrightarrow> cs \<noteq> [] \<Longrightarrow> 0xC0 \<le> b"
  by (auto simp: encode_rune_def Let_def split: if_splits)

lemma last_rune_whole:
  assumes "scalar r"
  shows "DecodeLastRune (p @ encode_rune r) = (r, length (encode_rune r))"
proof -
  obtain b cs where e: "encode_rune r = b # cs" "\<not> cont b" "\<forall>c \<in> set cs. cont c"
    using encode_shape [of r] by blast
  have d: "decode_rune (encode_rune r) = (r, length (encode_rune r))"
    using decode_encode [OF assms, of "[]"] by simp
  show ?thesis
  proof (cases "cs = []")
    case True
    then have "b < 0x80"
      using e(1) encode_single by simp
    moreover have "r = b"
      using d e(1) True calculation by (simp add: decode_rune_def)
    ultimately show ?thesis
      unfolding e(1) True by (simp add: DecodeLastRune_def)
  next
    case False
    have "cont (last cs)"
      using e(3) False by simp
    then have "\<not> last (p @ encode_rune r) < 0x80"
      using False by (simp add: e(1) cont_def)
    moreover have "last_start (p @ encode_rune r) = length p"
      using last_start_lead [OF e(2,3) False] encode_length [of r] by (simp add: e(1))
    ultimately show ?thesis
      using d e(1) by (simp add: DecodeLastRune_def Let_def)
  qed
qed

lemma decode_cut:
  assumes "0 < j" "j < length (encode_rune r)"
  shows "decode_rune (take j (encode_rune r)) = (runeError, 1)"
proof -
  obtain b cs where e: "encode_rune r = b # cs" "cs \<noteq> []" "length cs \<le> 3"
    using encode_length [of r] assms by (cases "encode_rune r") fastforce+
  have "0xC0 \<le> b"
    using e encode_multi by blast
  moreover have "length cs = 1 \<Longrightarrow> b < 0xE0" "length cs = 2 \<Longrightarrow> 0xE0 \<le> b \<and> b < 0xF0" "length cs = 3 \<Longrightarrow> 0xF0 \<le> b"
    using e(1) by (auto simp: encode_rune_def Let_def split: if_splits)
  moreover have "j = 1 \<or> j = 2 \<or> j = 3"
    using assms e by auto
  ultimately show ?thesis
    using assms e by (cases cs; cases "tl cs"; cases "tl (tl cs)") (auto simp: decode_rune_def take_Cons' split: list.splits)
qed

lemma last_start_bound: "s \<noteq> [] \<Longrightarrow> last_start s < length s" "2 \<le> length s \<Longrightarrow> Suc (last_start s) < length s"
  by (auto simp: last_start_def Let_def find_Some_iff split: option.splits if_splits)

lemma last_rune_lead:
  assumes "0xC0 \<le> b"
  shows "DecodeLastRune (p @ [b]) = (runeError, 1)"
proof -
  let ?s = "p @ [b]" and ?i = "last_start (p @ [b])"
  obtain r w where d: "decode_rune (drop ?i ?s) = (r, w)"
    by fastforce
  show ?thesis
  proof (cases "?i + w = length ?s")
    case True
    have "w = 1"
    proof (rule ccontr)
      assume "w \<noteq> 1"
      then have "0 < w - 1" "w - 1 < w"
        using True last_start_bound(1) [of ?s] by auto
      from decode_conts [OF d this] have "cont (?s ! (?i + (w - 1)))"
        using nth_drop [of ?i ?s "w - 1"] last_start_bound(1) [of ?s] by (simp only: less_imp_le append_is_Nil_conv) simp
      moreover have "?i + (w - 1) = length p"
        using True \<open>0 < w - 1\<close> by simp
      ultimately show False
        using assms by (simp add: cont_def)
    qed
    then have "p = []"
      using True last_start_bound(2) [of ?s] by (cases p) auto
    then have "decode_rune [b] = (runeError, 1)" "?i = 0"
      using assms last_start_bound(1) [of ?s] by (auto simp: decode_rune_def)
    then show ?thesis
      using assms \<open>p = []\<close> by (simp add: DecodeLastRune_def)
  next
    case False
    then show ?thesis
      using assms d by (simp add: DecodeLastRune_def Let_def)
  qed
qed

lemma last_rune_cut:
  assumes "0 < j" "j < length (encode_rune r)"
  shows "DecodeLastRune (p @ take j (encode_rune r)) = (runeError, 1)"
proof -
  obtain b cs where e: "encode_rune r = b # cs" "\<not> cont b" "\<forall>c \<in> set cs. cont c"
    using encode_shape [of r] by blast
  then have cs: "cs \<noteq> []"
    using assms by auto
  obtain j' where j: "j = Suc j'"
    using assms(1) by (cases j) auto
  show ?thesis
  proof (cases "j' = 0")
    case True
    then show ?thesis
      using last_rune_lead encode_multi [OF e(1) cs] by (simp add: e(1) j)
  next
    case False
    let ?t = "take j' cs"
    have t: "?t \<noteq> []" "\<forall>c \<in> set ?t. cont c" "length ?t \<le> 3"
      using False cs e(3) encode_length [of r] by (auto simp: e(1) dest: in_set_takeD)
    have l: "last_start (p @ b # ?t) = length p"
      by (rule last_start_lead [OF e(2) t(2,1,3)])
    have "cont (last ?t)"
      using t(1,2) by simp
    moreover have "decode_rune (b # ?t) = (runeError, 1)"
      using decode_cut [OF assms] by (simp add: e(1) j)
    ultimately show ?thesis
      using t(1) l by (simp add: e(1) j DecodeLastRune_def Let_def cont_def)
  qed
qed

section \<open>Cutting to size\<close>

lemma split_runes:
  "m < length (concat (map encode_rune rs)) \<Longrightarrow> \<exists>k j. k < length rs \<and> j < length (encode_rune (rs ! k)) \<and>
     take m (concat (map encode_rune rs)) = concat (map encode_rune (take k rs)) @ take j (encode_rune (rs ! k)) \<and>
     m = length (concat (map encode_rune (take k rs))) + j"
proof (induction rs arbitrary: m)
  case (Cons r rs)
  show ?case
  proof (cases "m < length (encode_rune r)")
    case True
    then show ?thesis
      by (intro exI [of _ 0] exI [of _ m]) simp
  next
    case False
    then have "m - length (encode_rune r) < length (concat (map encode_rune rs))"
      using Cons.prems by simp
    from Cons.IH [OF this] obtain k j where "k < length rs" "j < length (encode_rune (rs ! k))"
      "take (m - length (encode_rune r)) (concat (map encode_rune rs)) = concat (map encode_rune (take k rs)) @ take j (encode_rune (rs ! k))"
      "m - length (encode_rune r) = length (concat (map encode_rune (take k rs))) + j"
      by blast
    then show ?thesis
      using False by (intro exI [of _ "Suc k"] exI [of _ j]) auto
  qed
qed simp

lemma back_off_boundary:
  assumes "\<forall>r \<in> set rs. scalar r" "k < length rs" "j < length (encode_rune (rs ! k))" "j \<le> n"
  shows "back_off n (concat (map encode_rune rs)) (length (concat (map encode_rune (take k rs))) + j) =
    length (concat (map encode_rune (take k rs)))"
  using assms(3,4)
proof (induction j arbitrary: n)
  let ?e = "concat (map encode_rune rs)" and ?p = "concat (map encode_rune (take k rs))"
  have take_p: "take (length ?p + j) ?e = ?p @ take j (encode_rune (rs ! k))" if "j \<le> length (encode_rune (rs ! k))" for j
    using that assms(2) by (subst (2) id_take_nth_drop [of k rs]) simp_all
  case 0
  show ?case
  proof (cases "take k rs = []")
    case True
    then show ?thesis
      by (simp only: True list.map concat.simps) (simp add: back_off.simps [of n])
  next
    case False
    then obtain qs r where q: "take k rs = qs @ [r]"
      by (cases "take k rs" rule: rev_cases) auto
    then have "r \<in> set (take k rs)"
      by simp
    then have "scalar r"
      using assms(1) in_set_takeD by metis
    then have "DecodeLastRune ?p = (r, length (encode_rune r))"
      using last_rune_whole by (simp add: q)
    moreover have "r = runeError \<Longrightarrow> 1 < length (encode_rune r)"
      by (simp add: encode_rune_def runeError_def scalar_def)
    ultimately show ?thesis
      using take_p [of 0] by (auto simp: back_off.simps [of n])
  qed
next
  case (Suc j)
  let ?e = "concat (map encode_rune rs)" and ?p = "concat (map encode_rune (take k rs))"
  have "take (length ?p + Suc j) ?e = ?p @ take (Suc j) (encode_rune (rs ! k))"
    using Suc.prems(1) assms(2) by (subst (2) id_take_nth_drop [of k rs]) simp_all
  then have "DecodeLastRune (take (length ?p + Suc j) ?e) = (runeError, 1)"
    using last_rune_cut [of "Suc j" "rs ! k" ?p] Suc.prems(1) by simp
  then show ?case
    using Suc.IH [of "n - 1"] Suc.prems by (simp add: back_off.simps [of n])
qed

lemma back_off_le: "back_off n s e \<le> e"
proof (induction n arbitrary: e)
  case (Suc n)
  then show ?case
    using le_trans [OF Suc [of "e - 1"]] by (subst back_off.simps) (auto split: prod.splits)
qed (simp add: back_off.simps)

lemma truncate_length: "length (truncate_body s limit) \<le> limit + 20"
proof -
  have "length (take (back_off 3 (codes s) limit) s) \<le> limit"
    using back_off_le [of 3 "codes s" limit] by simp
  then show ?thesis
    by (simp add: truncate_body_def Let_def del: length_take)
qed

text \<open>C24. A comment is cut to its limit without breaking a character: a text within the limit is unchanged; a longer one is
  a beginning of it and the closing marks, at most twenty bytes longer than the limit, still valid UTF-8 when the text
  was, with at most three bytes less than the limit allows.\<close>

theorem truncate_fits:
  assumes "ValidString (codes s)"
  shows "ValidString (codes (truncate_body s limit)) \<and> length (truncate_body s limit) \<le> limit + 20 \<and>
    (length s \<le> limit \<longrightarrow> truncate_body s limit = s) \<and>
    (limit < length s \<longrightarrow> (\<exists>n tail. limit - 3 \<le> n \<and> n \<le> limit \<and> truncate_body s limit = take n s @ tail \<and> length tail \<le> 20))"
proof (cases "length s \<le> limit")
  case True
  then show ?thesis
    using assms by (simp add: truncate_body_def)
next
  case False
  let ?rs = "runes (codes s)" and ?n = "back_off 3 (codes s) limit"
  have rs: "concat (map encode_rune ?rs) = codes s" "\<forall>r \<in> set ?rs. scalar r"
    using valid_runes [OF assms] by simp_all
  have "limit < length (concat (map encode_rune ?rs))"
    using False by (simp add: rs(1))
  from split_runes [OF this] obtain k j where kj: "k < length ?rs" "j < length (encode_rune (?rs ! k))"
    "limit = length (concat (map encode_rune (take k ?rs))) + j"
    by blast
  moreover have "j \<le> 3"
    using kj(2) encode_length [of "?rs ! k"] by linarith
  ultimately have n: "?n = length (concat (map encode_rune (take k ?rs)))"
    using back_off_boundary [OF rs(2) kj(1,2)] by (simp add: rs(1))
  have cut: "codes (take ?n s) = concat (map encode_rune (take k ?rs))"
  proof -
    have parts: "codes s = concat (map encode_rune (take k ?rs)) @ concat (map encode_rune (drop k ?rs))"
      by (metis rs(1) append_take_drop_id map_append concat_append)
    have front: "xs = p @ q \<Longrightarrow> take (length p) xs = p" for xs p q :: "nat list"
      by simp
    have "codes (take ?n s) = take ?n (codes s)"
      by (simp add: codes_def take_map)
    then show ?thesis
      using front [OF parts] unfolding n by (rule trans)
  qed
  define tail where "tail = (if odd (fences (take ?n s)) then [CHR 0x0A, CHR 0x60, CHR 0x60, CHR 0x60] else []) @
    [CHR 0x0A, CHR 0x0A] @ ''_(truncated)_'' @ [CHR 0x0A]"
  have t: "truncate_body s limit = take ?n s @ tail"
    using False by (simp add: truncate_body_def tail_def Let_def)
  have tl: "concat (map encode_rune (codes tail)) = codes tail"
    by (simp add: tail_def codes_def encode_rune_def scalar_def)
  have "codes (take ?n s @ tail) = codes (take ?n s) @ codes tail"
    by (simp add: codes_def)
  then have "codes (truncate_body s limit) = concat (map encode_rune (take k ?rs @ codes tail))"
    by (simp only: t cut map_append concat_append tl)
  moreover have "\<forall>r \<in> set (take k ?rs @ codes tail). scalar r"
    using rs(2) by (auto simp: tail_def codes_def scalar_def dest: in_set_takeD)
  ultimately have "ValidString (codes (truncate_body s limit))"
    using valid_concat by metis
  moreover have "length tail \<le> 20" "?n \<le> limit" "limit - 3 \<le> ?n"
    using n kj(3) \<open>j \<le> 3\<close> by (simp_all add: tail_def)
  moreover have "length (truncate_body s limit) \<le> limit + 20"
    using calculation by (simp add: t)
  ultimately show ?thesis
    using False t by blast
qed

theorem truncate_fits_witness:
  "ValidString (codes (''ab'' @ [CHR 0xE2, CHR 0x82, CHR 0xAC])) \<and> ValidString (codes (truncate_body (''ab'' @ [CHR 0xE2, CHR 0x82, CHR 0xAC]) 4)) \<and>
   take 2 (truncate_body (''ab'' @ [CHR 0xE2, CHR 0x82, CHR 0xAC]) 4) = ''ab''"
proof -
  have "ValidString (codes (''ab'' @ [CHR 0xE2, CHR 0x82, CHR 0xAC]))"
    "take 2 (truncate_body (''ab'' @ [CHR 0xE2, CHR 0x82, CHR 0xAC]) 4) = ''ab''"
    by code_simp+
  then show ?thesis
    using truncate_fits [of "''ab'' @ [CHR 0xE2, CHR 0x82, CHR 0xAC]" 4] by blast
qed

end
