(* ===== verification/FrontStop.thy ===== *)
theory FrontStop
  imports FrontEnd Truncate
begin

text \<open>
  Stopping the agent and what follows from its log (\<^verbatim>\<open>internal/actioncli/main.go\<close>, \<^verbatim>\<open>report_markdown.go\<close>): the reports,
  the comment on a pull request, the gates on required types and new domains, and the dispatch of the subcommands
  (\<^verbatim>\<open>cmd/coldstep/main.go\<close>).
\<close>

section \<open>The comment on a pull request\<close>

datatype effect =
    SigTerm int
  | SudoKill int
  | WriteFile string string
  | Annotate string
  | AppendFile string string
  | PostComment string string string

datatype signal_answer = SignalSent | NotPermitted | SignalFailed

text \<open>\<open>po_events\<close> opens an event stream: its text and the error that ends the reading, if any. \<open>po_url\<close> is \<^verbatim>\<open>url.Parse\<close>:
  scheme and host. \<open>po_number\<close> reads a number literal as \<^verbatim>\<open>float64\<close>, truncated to an integer, and is \<open>None\<close> out of range.
  \<open>po_dests\<close> and \<open>po_domains\<close> are the orders in which Go ranges over the maps of destinations and domains.\<close>

record stop_os =
  po_getenv :: "string \<Rightarrow> string"
  po_cwd :: "string option"
  po_tempDir :: string
  po_link :: "string \<Rightarrow> string option"
  po_exists :: "string \<Rightarrow> bool"
  po_file :: "string \<Rightarrow> string option"
  po_signal :: "int \<Rightarrow> signal_answer"
  po_exit :: "int \<times> (bool \<times> int) list"
  po_events :: "string \<Rightarrow> (string \<times> string option) option"
  po_fails :: "effect \<Rightarrow> bool"
  po_url :: "string \<Rightarrow> (string \<times> string) option"
  po_number :: "string \<Rightarrow> int option"
  po_dests :: "(string \<times> int) list \<Rightarrow> (string \<times> int) list"
  po_domains :: "string list \<Rightarrow> string list"

definition trim_slashes :: "string \<Rightarrow> string" where
  "trim_slashes s = rev (dropWhile (\<lambda>c. c = CHR ''/'') (rev s))"

definition githubAPIBaseURL :: "stop_os \<Rightarrow> string option" where
  "githubAPIBaseURL os = (let raw0 = TrimSpace (po_getenv os ''GITHUB_API_URL'') in
     if raw0 = [] then Some ''https://api.github.com''
     else let raw = trim_slashes raw0 in
       (case po_url os raw of None \<Rightarrow> None
        | Some (scheme, host) \<Rightarrow> if scheme \<noteq> ''https'' \<or> host = [] then None else Some raw))"

definition githubRepoPartRE :: "string \<Rightarrow> bool" where
  "githubRepoPartRE s \<longleftrightarrow> s \<noteq> [] \<and> list_all (\<lambda>c. is_upper c \<or> is_lower c \<or> is_digit c \<or> c \<in> set ''._-'') s"

definition maxGitHubEventJSONBytes :: nat where "maxGitHubEventJSONBytes = 8388608"

fun json_numbers :: "json \<Rightarrow> string list" where
  "json_numbers (JNum n) = [n]"
| "json_numbers (JArr vs) = concat (map json_numbers vs)"
| "json_numbers (JObj ms) = concat (map (\<lambda>m. json_numbers (snd m)) ms)"
| "json_numbers _ = []"

datatype comment_error = EventUnreadable | EventTooLarge | EventMalformed | BadAPIURL | PostFailed

text \<open>The number of the pull request in the payload of the event; the inner \<open>None\<close> is a payload without one.\<close>

definition pr_number :: "stop_os \<Rightarrow> string \<Rightarrow> comment_error + int option" where
  "pr_number os raw = (case json_parse raw of
     Some (JObj payload) \<Rightarrow> if list_ex (\<lambda>n. po_number os n = None) (json_numbers (JObj payload)) then Inl EventMalformed
       else (case map_of (rev payload) ''pull_request'' of
           Some (JObj pr) \<Rightarrow> (case map_of (rev pr) ''number'' of Some (JNum n) \<Rightarrow> Inr (po_number os n) | _ \<Rightarrow> Inr None)
         | _ \<Rightarrow> Inr None)
   | Some JNull \<Rightarrow> Inr None
   | _ \<Rightarrow> Inl EventMalformed)"

definition comment_text :: "string \<Rightarrow> string" where
  "comment_text body = ''## Coldstep digest'' @ [CHR 0x0A, CHR 0x0A] @ truncate_body body 65000"

definition postPRComment :: "stop_os \<Rightarrow> string \<Rightarrow> string \<Rightarrow> comment_error option \<times> effect list" where
  "postPRComment os token body = (let repo = TrimSpace (po_getenv os ''GITHUB_REPOSITORY'') in
     if repo = [] then (None, [])
     else (case Cut repo CHR ''/'' of None \<Rightarrow> (None, [])
     | Some (owner, name) \<Rightarrow>
       if \<not> githubRepoPartRE owner \<or> \<not> githubRepoPartRE name then (None, [])
       else let eventPath = TrimSpace (po_getenv os ''GITHUB_EVENT_PATH'') in
       if eventPath = [] then (None, [])
       else (case po_file os eventPath of None \<Rightarrow> (Some EventUnreadable, [])
       | Some raw \<Rightarrow>
         if maxGitHubEventJSONBytes < length raw then (Some EventTooLarge, [])
         else (case pr_number os raw of Inl e \<Rightarrow> (Some e, [])
         | Inr None \<Rightarrow> (None, [])
         | Inr (Some number) \<Rightarrow> (case githubAPIBaseURL os of None \<Rightarrow> (Some BadAPIURL, [])
           | Some apiBase \<Rightarrow> let post = PostComment token
               (apiBase @ ''/repos/'' @ owner @ ''/'' @ name @ ''/issues/'' @ itoa_int number @ ''/comments'')
               (json_print (JObj [(''body'', JStr (comment_text body))])) in
               (if po_fails os post then Some PostFailed else None, [post]))))))"

section \<open>Stopping\<close>

datatype stop_error = AgentNotReady | StrictNoEvents | StrictProfile config_error | StrictMissing "string list" | StopWaiting

definition stop_actionPath :: "stop_os \<Rightarrow> string" where
  "stop_actionPath os = getenvDefault (po_getenv os) ''GITHUB_ACTION_PATH'' (mustGetwd (po_cwd os))"

definition stop_baseDir :: "stop_os \<Rightarrow> string" where
  "stop_baseDir os = getenvDefault (po_getenv os) ''GITHUB_WORKSPACE'' (stop_actionPath os)"

text \<open>With fail-on-error a stop needs the marker of the start or a status file that says ready.\<close>

definition ready_enough :: "stop_os \<Rightarrow> stopConfig \<Rightarrow> bool" where
  "ready_enough os cfg \<longleftrightarrow> tc_FailOnError cfg \<longrightarrow> po_exists os (Join [stop_actionPath os, ''.coldstep.ready.ok'']) \<or>
     fst (readReady (po_file os (Join [stop_baseDir os, ''.coldstep-ready.json''])))"

text \<open>The pid in the pidfile, when it is one.\<close>

definition pid_of_file :: "stop_os \<Rightarrow> int option" where
  "pid_of_file os = (case po_file os (Join [stop_baseDir os, ''.coldstep.pid'']) of None \<Rightarrow> None
     | Some raw \<Rightarrow> (case Atoi (TrimSpace raw) of None \<Rightarrow> None | Some pid \<Rightarrow> if 0 < pid then Some pid else None))"

text \<open>The signal, through \<^verbatim>\<open>sudo\<close> when it is not permitted, and the wait for the exit.\<close>

definition terminate_agent :: "stop_os \<Rightarrow> bool option \<times> effect list" where
  "terminate_agent os = (case pid_of_file os of None \<Rightarrow> (Some True, [])
     | Some pid \<Rightarrow> (waitForAgentExit pid (10 * 10 ^ 9) (10 ^ 8) (fst (po_exit os)) (snd (po_exit os)),
         SigTerm pid # (if po_signal os pid = NotPermitted then [SudoKill pid] else [])))"

definition writeDetailedMarkdownReport :: "(string \<Rightarrow> string) \<Rightarrow> stop_os \<Rightarrow> string \<Rightarrow> string \<Rightarrow> Aggregate option \<times> effect list" where
  "writeDetailedMarkdownReport ul os baseDir digestOutput = (case po_events os (Join [baseDir, ''.coldstep-events.jsonl'']) of
     None \<Rightarrow> (None, [])
   | Some (stream, rerr) \<Rightarrow> let agg = fst (Parse_events ul stream rerr); detailed = RenderDetailed (po_dests os) agg;
       outPath = Join [baseDir, ''.coldstep-report.md'']; digestPath = digestArtifactPath baseDir digestOutput (modeLabel agg) in
       (Some agg, WriteFile outPath detailed # (if digestPath \<noteq> outPath then [WriteFile digestPath detailed] else [])))"

definition no_stream_warning :: string where
  "no_stream_warning = ''::warning title=coldstep captured no events::no .coldstep-events.jsonl was written '' @ dash @
     '' the agent likely never started; this run proves nothing about egress. Set fail-on-error: true to wait for BPF attach.''"

definition no_events_warning :: string where
  "no_events_warning = ''::warning title=coldstep captured no events::the event stream has no workload telemetry '' @ dash @
     '' the job may have finished before BPF attach; this run proves nothing about egress. Set fail-on-error: true for short jobs.''"

definition captured_warning :: "Aggregate option \<Rightarrow> effect list" where
  "captured_warning agg = (case agg of None \<Rightarrow> [Annotate no_stream_warning]
     | Some a \<Rightarrow> if CapturedNothing a then [Annotate no_events_warning] else [])"

definition append_summary :: "stop_os \<Rightarrow> Aggregate \<Rightarrow> effect list" where
  "append_summary os a = (let block = RenderSimple (po_dests os) a; path = TrimSpace (po_getenv os ''GITHUB_STEP_SUMMARY'') in
     if path \<noteq> [] \<and> TrimSpace block \<noteq> [] then [AppendFile path (if HasSuffix block [CHR 0x0A] then block else block @ [CHR 0x0A])] else [])"

definition send_comment :: "stop_os \<Rightarrow> stopConfig \<Rightarrow> Aggregate \<Rightarrow> effect list" where
  "send_comment os cfg a = (let given = TrimSpace (tc_GithubToken cfg);
     token = (if given = [] then TrimSpace (po_getenv os ''GITHUB_TOKEN'') else given) in
     if token = [] then [] else snd (postPRComment os token (RenderDetailed (po_dests os) a)))"

definition publish :: "(string \<Rightarrow> string) \<Rightarrow> stop_os \<Rightarrow> stopConfig \<Rightarrow> Aggregate option \<Rightarrow> effect list" where
  "publish ul os cfg agg = (case agg of None \<Rightarrow> []
     | Some a \<Rightarrow> (if fst (parseReportFlags ul (tc_Report cfg)) then append_summary os a else []) @
         (if snd (parseReportFlags ul (tc_Report cfg)) then send_comment os cfg a else []))"

definition strict_gate :: "(string \<Rightarrow> string) \<Rightarrow> stop_os \<Rightarrow> stopConfig \<Rightarrow> Aggregate option \<Rightarrow> stop_error option" where
  "strict_gate ul os cfg agg = (if \<not> tc_Strict cfg then None
     else (case agg of None \<Rightarrow> Some StrictNoEvents
     | Some a \<Rightarrow> (case ResolveDetectProfile ul (tc_DetectProfile cfg) (po_getenv os ''COLDSTEP_DETECT_PROFILE'') of
         Inl e \<Rightarrow> Some (StrictProfile e)
       | Inr profile \<Rightarrow> if MissingRequiredTypes a profile \<noteq> [] then Some (StrictMissing (MissingRequiredTypes a profile)) else None)))"

definition runStop :: "(string \<Rightarrow> string) \<Rightarrow> stop_os \<Rightarrow> stopConfig \<Rightarrow> stop_error option \<times> effect list" where
  "runStop ul os cfg = (if \<not> ready_enough os cfg then (Some AgentNotReady, [])
     else (case terminate_agent os of (waited, acts) \<Rightarrow>
       if waited = None then (Some StopWaiting, acts)
       else (case writeDetailedMarkdownReport ul os (stop_baseDir os) (tc_DigestOutput cfg) of (agg, written) \<Rightarrow>
         (strict_gate ul os cfg agg, acts @ written @ captured_warning agg @ publish ul os cfg agg))))"

section \<open>Gates as commands\<close>

definition parseAggregateFile :: "(string \<Rightarrow> string) \<Rightarrow> stop_os \<Rightarrow> string \<Rightarrow> Aggregate option" where
  "parseAggregateFile ul os path = (case po_events os path of None \<Rightarrow> None
     | Some (stream, rerr) \<Rightarrow> (case Parse_events ul stream rerr of (a, None) \<Rightarrow> Some a | (a, Some e) \<Rightarrow> None))"

datatype diff_error = DiffFlags flag_error | NoSummary | NoBaseline | DiffPath path_error | LoadCurrent | LoadBaseline
  | SummaryFailed | NewDomains nat

definition diff_flags :: "(string \<times> flag_kind) list" where
  "diff_flags = [(''current'', StringFlag), (''baseline'', StringFlag), (''summary'', StringFlag), (''marker'', StringFlag),
     (''fail-on-new-domain'', BoolFlag)]"

definition diff_block :: "string \<Rightarrow> string list \<Rightarrow> string list \<Rightarrow> string" where
  "diff_block marker added removed =
     ln [] @ ln ''#### Previous-run traffic diff (compact)'' @ ln [] @
     ln (''- '' @ marker @ ''.result='' @ (if added \<noteq> [] \<or> removed \<noteq> [] then ''changed'' else ''no-change'')) @
     ln (''- '' @ marker @ ''.new_domains='' @ itoa (length added)) @
     ln (''- '' @ marker @ ''.gone_domains='' @ itoa (length removed))"

definition diff_paths :: "stop_os \<Rightarrow> string \<Rightarrow> string \<Rightarrow> string \<Rightarrow> diff_error + string \<times> string \<times> string" where
  "diff_paths os current baseline summary = (let ws = Workspace (po_getenv os) (po_link os) (po_tempDir os) (po_cwd os) in
     case ws current of Inl e \<Rightarrow> Inl (DiffPath e) | Inr c \<Rightarrow>
     (case ws baseline of Inl e \<Rightarrow> Inl (DiffPath e) | Inr b \<Rightarrow>
     (case ws summary of Inl e \<Rightarrow> Inl (DiffPath e) | Inr s \<Rightarrow> Inr (c, b, s))))"

definition compare_runs :: "(string \<Rightarrow> string) \<Rightarrow> stop_os \<Rightarrow> string \<times> string \<times> string \<Rightarrow> string \<Rightarrow> bool \<Rightarrow> diff_error option \<times> effect list" where
  "compare_runs ul os paths marker failOnNewDomain = (case paths of (current, baseline, summary) \<Rightarrow>
     (case parseAggregateFile ul os current of None \<Rightarrow> (Some LoadCurrent, [])
      | Some cur \<Rightarrow> (case parseAggregateFile ul os baseline of None \<Rightarrow> (Some LoadBaseline, [])
        | Some base \<Rightarrow> (case DiffDomains (po_domains os) cur base of (added, removed) \<Rightarrow>
            let w = AppendFile summary (diff_block marker added removed) in
            if po_fails os w then (Some SummaryFailed, [w])
            else if failOnNewDomain \<and> added \<noteq> [] then (Some (NewDomains (length added)), [w])
            else (None, [w])))))"

definition runDiff :: "(string \<Rightarrow> string) \<Rightarrow> stop_os \<Rightarrow> string list \<Rightarrow> diff_error option \<times> effect list" where
  "runDiff ul os args = (case flag_parse diff_flags args of Inl e \<Rightarrow> (Some (DiffFlags e), [])
     | Inr fs \<Rightarrow> let ws = getenvDefault (po_getenv os) ''GITHUB_WORKSPACE'' ''.'';
         current = setting fs ''current'' (Join [ws, ''.coldstep-events.jsonl'']); baseline = setting fs ''baseline'' [];
         summary = setting fs ''summary'' (po_getenv os ''GITHUB_STEP_SUMMARY'') in
       if TrimSpace summary = [] then (Some NoSummary, [])
       else if TrimSpace baseline = [] then (Some NoBaseline, [])
       else (case diff_paths os current baseline summary of Inl e \<Rightarrow> (Some e, [])
         | Inr paths \<Rightarrow> compare_runs ul os paths (setting fs ''marker'' ''coldstep-prev-diff'') (bool_setting fs ''fail-on-new-domain'' False)))"

datatype integrity_error = IntegrityFlags flag_error | IntegrityProfile config_error | IntegrityPath path_error | LoadEvents
  | MissingTypes "string list"

definition runAssertIntegrity :: "(string \<Rightarrow> string) \<Rightarrow> stop_os \<Rightarrow> string list \<Rightarrow> integrity_error option" where
  "runAssertIntegrity ul os args = (case flag_parse [(''in'', StringFlag), (''detect-profile'', StringFlag)] args of
     Inl e \<Rightarrow> Some (IntegrityFlags e)
   | Inr fs \<Rightarrow> let ws = getenvDefault (po_getenv os) ''GITHUB_WORKSPACE'' ''.'' in
     (case ResolveDetectProfile ul (setting fs ''detect-profile'' []) (getenvDefault (po_getenv os) ''COLDSTEP_DETECT_PROFILE'' []) of
        Inl e \<Rightarrow> Some (IntegrityProfile e)
      | Inr profile \<Rightarrow>
        (case Workspace (po_getenv os) (po_link os) (po_tempDir os) (po_cwd os) (setting fs ''in'' (Join [ws, ''.coldstep-events.jsonl''])) of
           Inl e \<Rightarrow> Some (IntegrityPath e)
         | Inr path \<Rightarrow> (case parseAggregateFile ul os path of None \<Rightarrow> Some LoadEvents
           | Some a \<Rightarrow> if MissingRequiredTypes a profile \<noteq> [] then Some (MissingTypes (MissingRequiredTypes a profile)) else None))))"

section \<open>Dispatch\<close>

definition errExit :: "'e option \<Rightarrow> nat" where
  "errExit e = (if e = None then 0 else 1)"

definition Commands :: "string list" where
  "Commands = [''start'', ''stop'', ''diff'', ''assert-integrity'']"

definition Dispatch :: "(string \<Rightarrow> string) \<Rightarrow> start_os \<Rightarrow> stop_os \<Rightarrow> string list \<Rightarrow> nat \<times> action list \<times> effect list" where
  "Dispatch ul sos os args = (case args of [] \<Rightarrow> (2, [], [])
     | cmd # rest \<Rightarrow>
       if cmd = ''start'' then (case parseStartFlags rest of Inl e \<Rightarrow> (1, [], [])
         | Inr cfg \<Rightarrow> (case runStart ul sos cfg of (e, acts) \<Rightarrow> (errExit e, acts, [])))
       else if cmd = ''stop'' then (case parseStopFlags (po_getenv os) rest of Inl e \<Rightarrow> (1, [], [])
         | Inr cfg \<Rightarrow> (case runStop ul os cfg of (e, acts) \<Rightarrow> (errExit e, [], acts)))
       else if cmd = ''diff'' then (case runDiff ul os rest of (e, acts) \<Rightarrow> (errExit e, [], acts))
       else if cmd = ''assert-integrity'' then (errExit (runAssertIntegrity ul os rest), [], [])
       else (1, [], []))"

text \<open>\<open>agent\<close> tells whether the agent's main function returns an error, \<open>stdin\<close> is the standard input.\<close>

definition runCLI :: "(string \<Rightarrow> string) \<Rightarrow> start_os \<Rightarrow> stop_os \<Rightarrow> bool \<Rightarrow> string \<Rightarrow> string list \<Rightarrow> nat" where
  "runCLI ul sos os agent stdin args = (case args of
     _ # cmd # rest \<Rightarrow>
       if cmd = ''run'' then (if agent then 1 else 0)
       else if cmd = ''validate'' then fst (runValidate ul (po_file os) stdin rest)
       else if cmd \<in> set Commands then fst (Dispatch ul sos os (cmd # rest))
       else 2
   | _ \<Rightarrow> 2)"

section \<open>What a stop promises\<close>

definition events_of :: "stop_os \<Rightarrow> (string \<times> string option) option" where
  "events_of os = po_events os (Join [stop_baseDir os, ''.coldstep-events.jsonl''])"

lemma runStop_parts:
  assumes "runStop ul os cfg = (r, acts)" "r \<noteq> Some AgentNotReady" "r \<noteq> Some StopWaiting"
  shows "set (snd (terminate_agent os)) \<subseteq> set acts"
    and "set (snd (writeDetailedMarkdownReport ul os (stop_baseDir os) (tc_DigestOutput cfg))) \<subseteq> set acts"
    and "strict_gate ul os cfg (fst (writeDetailedMarkdownReport ul os (stop_baseDir os) (tc_DigestOutput cfg))) = r"
  using assms by (auto simp: runStop_def split: if_splits prod.splits)

lemma report_written:
  assumes "events_of os = Some (stream, rerr)"
  shows "fst (writeDetailedMarkdownReport ul os (stop_baseDir os) d) = Some (fst (Parse_events ul stream rerr))"
    and "WriteFile (Join [stop_baseDir os, ''.coldstep-report.md'']) (RenderDetailed (po_dests os) (fst (Parse_events ul stream rerr))) \<in>
      set (snd (writeDetailedMarkdownReport ul os (stop_baseDir os) d))"
  using assms by (simp_all add: writeDetailedMarkdownReport_def events_of_def Let_def)

lemma no_events_no_report: "events_of os = None \<Longrightarrow> fst (writeDetailedMarkdownReport ul os (stop_baseDir os) d) = None"
  by (simp add: writeDetailedMarkdownReport_def events_of_def)

lemma strict_passed:
  assumes "strict_gate ul os cfg agg = None" "tc_Strict cfg"
  shows "\<exists>a profile. agg = Some a \<and> ResolveDetectProfile ul (tc_DetectProfile cfg) (po_getenv os ''COLDSTEP_DETECT_PROFILE'') = Inr profile \<and>
    MissingRequiredTypes a profile = []"
  using assms by (auto simp: strict_gate_def split: option.splits sum.splits if_splits)

text \<open>C9. A stop that gets past the readiness check signals the process of the pidfile and writes the report of the log, also
  when it then fails a gate; and a strict stop succeeds only when there is a log in which every type the profile requires
  occurs.\<close>

theorem stop_reports:
  assumes "runStop ul os cfg = (r, acts)" "r \<noteq> Some AgentNotReady" "r \<noteq> Some StopWaiting"
  shows "(\<forall>pid. pid_of_file os = Some pid \<longrightarrow> SigTerm pid \<in> set acts) \<and>
    (\<forall>stream rerr. events_of os = Some (stream, rerr) \<longrightarrow>
      WriteFile (Join [stop_baseDir os, ''.coldstep-report.md'']) (RenderDetailed (po_dests os) (fst (Parse_events ul stream rerr))) \<in> set acts) \<and>
    (tc_Strict cfg \<and> r = None \<longrightarrow> (\<exists>stream rerr profile. events_of os = Some (stream, rerr) \<and>
      ResolveDetectProfile ul (tc_DetectProfile cfg) (po_getenv os ''COLDSTEP_DETECT_PROFILE'') = Inr profile \<and>
      (list_all (\<lambda>p. length p < maxEventLineBytes) (splitOn (CHR 0x0A) stream) \<longrightarrow>
        set (RequiredTypes profile) \<subseteq> types_in (records stream))))"
proof -
  note parts = runStop_parts [OF assms]
  have "SigTerm pid \<in> set acts" if "pid_of_file os = Some pid" for pid
    using that parts(1) by (simp add: terminate_agent_def)
  moreover have "WriteFile (Join [stop_baseDir os, ''.coldstep-report.md'']) (RenderDetailed (po_dests os) (fst (Parse_events ul stream rerr))) \<in> set acts"
    if "events_of os = Some (stream, rerr)" for stream rerr
    using report_written(2) [OF that] parts(2) by blast
  moreover have "\<exists>stream rerr profile. events_of os = Some (stream, rerr) \<and>
      ResolveDetectProfile ul (tc_DetectProfile cfg) (po_getenv os ''COLDSTEP_DETECT_PROFILE'') = Inr profile \<and>
      (list_all (\<lambda>p. length p < maxEventLineBytes) (splitOn (CHR 0x0A) stream) \<longrightarrow>
        set (RequiredTypes profile) \<subseteq> types_in (records stream))" if strict: "tc_Strict cfg" "r = None"
  proof -
    obtain a profile where a: "fst (writeDetailedMarkdownReport ul os (stop_baseDir os) (tc_DigestOutput cfg)) = Some a"
      and profile: "ResolveDetectProfile ul (tc_DetectProfile cfg) (po_getenv os ''COLDSTEP_DETECT_PROFILE'') = Inr profile"
      and none: "MissingRequiredTypes a profile = []"
      using strict_passed [OF parts(3) [unfolded strict(2)] strict(1)] by blast
    obtain stream rerr where ev: "events_of os = Some (stream, rerr)"
      using a no_events_no_report [of os ul] by (cases "events_of os") auto
    have "Parse_events ul stream rerr = (a, rerr)"
      using a report_written(1) [OF ev] by (simp add: Parse_events_def)
    then show ?thesis
      using missing_types [of ul stream rerr a rerr profile] none ev profile by auto
  qed
  ultimately show ?thesis
    by blast
qed

section \<open>Where the token goes\<close>

lemma base_https:
  assumes "githubAPIBaseURL os = Some base"
  shows "base = ''https://api.github.com'' \<or> (\<exists>host. po_url os base = Some (''https'', host) \<and> host \<noteq> [])"
  using assms by (auto simp: githubAPIBaseURL_def Let_def split: if_splits option.splits)

lemma comment_text_length: "length (comment_text body) \<le> 65040"
  using truncate_length [of body 65000] by (simp add: comment_text_def)


section \<open>The gate on new domains\<close>

lemma parsed_file:
  assumes "parseAggregateFile ul os path = Some a"
  shows "\<exists>stream. po_events os path = Some (stream, None) \<and> Parse_events ul stream None = (a, None)"
  using assms by (auto simp: parseAggregateFile_def Parse_events_def split: option.splits prod.splits)

lemma compare_runs_verdict:
  assumes "compare_runs ul os (cp, bp, sp) marker True = (r, acts)" "iterates (po_domains os)"
    and "r = None \<or> r = Some (NewDomains n)"
  shows "\<exists>c b. parseAggregateFile ul os cp = Some c \<and> parseAggregateFile ul os bp = Some b \<and>
    (r = None \<longrightarrow> set (ag_domains c) \<subseteq> set (ag_domains b)) \<and>
    (r = Some (NewDomains n) \<longrightarrow> n = card (set (ag_domains c) - set (ag_domains b)) \<and> 0 < n)"
proof -
  obtain c b where f: "parseAggregateFile ul os cp = Some c" "parseAggregateFile ul os bp = Some b"
    using assms(1,3) by (auto simp: compare_runs_def split: option.splits)
  let ?new = "set (ag_domains c) - set (ag_domains b)"
  obtain sc sb where "Parse_events ul sc None = (c, None)" "Parse_events ul sb None = (b, None)"
    using parsed_file [OF f(1)] parsed_file [OF f(2)] by blast
  from diff_sets [OF this assms(2)] have d: "DiffDomains (po_domains os) c b =
      (sorted_list_of_set ?new, sorted_list_of_set (set (ag_domains b) - set (ag_domains c)))" .
  show ?thesis
    using assms(1,3) f by (auto simp: compare_runs_def d Let_def card_gt_0_iff split: if_splits)
qed

text \<open>C22. With the flag to fail on new domains the comparison of two runs succeeds only when every domain of the current log
  is one of the baseline log, and otherwise reports exactly how many are not; both logs come from under the trusted
  roots and were read to their end.\<close>

theorem diff_gate:
  assumes "flag_parse diff_flags args = Inr fs" "bool_setting fs ''fail-on-new-domain'' False" "iterates (po_domains os)"
    and "runDiff ul os args = (r, acts)" "r = None \<or> r = Some (NewDomains n)"
  shows "\<exists>cp bp sp c b.
    diff_paths os (setting fs ''current'' (Join [getenvDefault (po_getenv os) ''GITHUB_WORKSPACE'' ''.'', ''.coldstep-events.jsonl'']))
      (setting fs ''baseline'' []) (setting fs ''summary'' (po_getenv os ''GITHUB_STEP_SUMMARY'')) = Inr (cp, bp, sp) \<and>
    parseAggregateFile ul os cp = Some c \<and> parseAggregateFile ul os bp = Some b \<and>
    (r = None \<longrightarrow> set (ag_domains c) \<subseteq> set (ag_domains b)) \<and>
    (r = Some (NewDomains n) \<longrightarrow> n = card (set (ag_domains c) - set (ag_domains b)) \<and> 0 < n)"
proof -
  let ?current = "setting fs ''current'' (Join [getenvDefault (po_getenv os) ''GITHUB_WORKSPACE'' ''.'', ''.coldstep-events.jsonl''])"
  let ?summary = "setting fs ''summary'' (po_getenv os ''GITHUB_STEP_SUMMARY'')"
  have run: "(if TrimSpace ?summary = [] then (Some NoSummary, []) else if TrimSpace (setting fs ''baseline'' []) = [] then (Some NoBaseline, [])
      else (case diff_paths os ?current (setting fs ''baseline'' []) ?summary of Inl e \<Rightarrow> (Some e, [])
        | Inr paths \<Rightarrow> compare_runs ul os paths (setting fs ''marker'' ''coldstep-prev-diff'') True)) = (r, acts)"
    using assms(4) unfolding runDiff_def Let_def assms(1) sum.case eqTrueI [OF assms(2)] .
  have bad: "e \<noteq> NewDomains n" if "diff_paths os x y z = Inl e" for x y z e
    using that by (auto simp: diff_paths_def Let_def split: sum.splits)
  obtain cp bp sp where p: "diff_paths os ?current (setting fs ''baseline'' []) ?summary = Inr (cp, bp, sp)"
    using run bad assms(5) by (cases "diff_paths os ?current (setting fs ''baseline'' []) ?summary") (auto split: if_splits)
  have "compare_runs ul os (cp, bp, sp) (setting fs ''marker'' ''coldstep-prev-diff'') True = (r, acts)"
    using run p assms(5) by (auto split: if_splits)
  from compare_runs_verdict [OF this assms(3,5)] show ?thesis
    using p by blast
qed

section \<open>Examples\<close>

definition demo_stop_os :: stop_os where
  "demo_stop_os = \<lparr>po_getenv = (\<lambda>k. if k = ''GITHUB_WORKSPACE'' then ''/ws'' else if k = ''GITHUB_REPOSITORY'' then ''o/r''
       else if k = ''GITHUB_EVENT_PATH'' then ''/ev'' else []),
     po_cwd = Some ''/ws'', po_tempDir = ''/tmp'', po_link = Some, po_exists = (\<lambda>p. False),
     po_file = (\<lambda>p. if p = ''/ws/.coldstep.pid'' then Some ''7''
       else if p = ''/ev'' then Some (json_print (JObj [(''pull_request'', JObj [(''number'', JNum ''5'')])])) else None),
     po_signal = (\<lambda>pid. NotPermitted), po_exit = (0, [(False, 0)]),
     po_events = (\<lambda>p. if p = ''/ws/base'' then Some ([], None) else Some (demo_stream, None)), po_fails = (\<lambda>e. False), po_url = (\<lambda>u. None), po_number = (\<lambda>n. Some 5),
     po_dests = (\<lambda>m. m), po_domains = (\<lambda>m. m)\<rparr>"

definition demo_stop_cfg :: stopConfig where
  "demo_stop_cfg = \<lparr>tc_FailOnError = False, tc_Report = ''none'', tc_GithubToken = [], tc_Strict = True, tc_DetectProfile = [], tc_DigestOutput = []\<rparr>"

lemma demo_terminated: "terminate_agent demo_stop_os = (Some True, [SigTerm 7, SudoKill 7])"
proof -
  have "pid_of_file demo_stop_os = Some 7" "waitForAgentExit 7 (10 * 10 ^ 9) (10 ^ 8) 0 [(False, 0)] = Some True"
    by code_simp+
  then show ?thesis
    by (simp add: terminate_agent_def demo_stop_os_def)
qed

theorem stop_reports_witness:
  "SigTerm 7 \<in> set (snd (runStop (\<lambda>s. s) demo_stop_os demo_stop_cfg)) \<and> fst (runStop (\<lambda>s. s) demo_stop_os demo_stop_cfg) = None \<and>
   set (RequiredTypes ''standard'') \<subseteq> types_in (records demo_stream)"
proof -
  have ev: "events_of demo_stop_os = Some (demo_stream, None)"
  proof -
    have "Join [stop_baseDir demo_stop_os, ''.coldstep-events.jsonl''] = ''/ws/.coldstep-events.jsonl''"
      by code_simp
    then show ?thesis
      by (simp add: events_of_def) (simp add: demo_stop_os_def)
  qed
  have short: "list_all (\<lambda>p. length p < maxEventLineBytes) (splitOn (CHR 0x0A) demo_stream)"
    by code_simp
  have "set (RequiredTypes ''standard'') \<subseteq> types_in (records demo_stream)"
  proof -
    have "list_all (\<lambda>t. list_ex (\<lambda>l. typedLine l = Some t) (records demo_stream)) (RequiredTypes ''standard'')"
      by code_simp
    then show ?thesis
      by (auto simp: list_all_iff list_ex_iff types_in_def)
  qed
  then have none: "MissingRequiredTypes (fst (Parse_events (\<lambda>s. s) demo_stream None)) ''standard'' = []"
    using missing_types [OF _ short, of "\<lambda>s. s" None _ None "''standard''"]
    by (metis Diff_eq_empty_iff Parse_events_def fst_conv set_empty)
  have profile: "ResolveDetectProfile (\<lambda>s. s) [] (po_getenv demo_stop_os ''COLDSTEP_DETECT_PROFILE'') = Inr ''standard''"
    by code_simp
  have cfg: "\<not> tc_FailOnError demo_stop_cfg" "tc_Strict demo_stop_cfg" "tc_DetectProfile demo_stop_cfg = []"
    by (simp_all add: demo_stop_cfg_def)
  have "strict_gate (\<lambda>s. s) demo_stop_os demo_stop_cfg (Some (fst (Parse_events (\<lambda>s. s) demo_stream None))) = None"
    by (simp add: strict_gate_def cfg profile none)
  then have r: "fst (runStop (\<lambda>s. s) demo_stop_os demo_stop_cfg) = None"
    using report_written(1) [OF ev, of "\<lambda>s. s" "tc_DigestOutput demo_stop_cfg"]
    by (cases "writeDetailedMarkdownReport (\<lambda>s. s) demo_stop_os (stop_baseDir demo_stop_os) (tc_DigestOutput demo_stop_cfg)")
      (simp add: runStop_def ready_enough_def cfg demo_terminated)
  obtain acts where run: "runStop (\<lambda>s. s) demo_stop_os demo_stop_cfg = (None, acts)"
    using r by (cases "runStop (\<lambda>s. s) demo_stop_os demo_stop_cfg") simp
  have "pid_of_file demo_stop_os = Some 7"
    by code_simp
  then show ?thesis
    using stop_reports [OF run] ev short profile run cfg by auto
qed


definition demo_diff_args :: "string list" where
  "demo_diff_args = [''--baseline=/ws/base'', ''-summary'', ''/ws/sum'', ''--fail-on-new-domain'']"

definition demo_diff_settings :: "(string \<times> string) list" where
  "demo_diff_settings = [(''baseline'', ''/ws/base''), (''summary'', ''/ws/sum''), (''fail-on-new-domain'', ''true'')]"

lemma demo_workspace:
  assumes "safePathRE p" "Abs (Some ''/ws'') p = Some p" "hasPrefix p ''/ws''"
  shows "Workspace (po_getenv demo_stop_os) (po_link demo_stop_os) (po_tempDir demo_stop_os) (po_cwd demo_stop_os) p = Inr p"
  using assms by (simp add: Workspace_def demo_stop_os_def resolveWithExistingAncestor_def trustedRoots_def real_or_self_def Let_def)

lemma demo_diff_paths:
  "diff_paths demo_stop_os (setting demo_diff_settings ''current'' (Join [getenvDefault (po_getenv demo_stop_os) ''GITHUB_WORKSPACE'' ''.'', ''.coldstep-events.jsonl'']))
     (setting demo_diff_settings ''baseline'' []) (setting demo_diff_settings ''summary'' (po_getenv demo_stop_os ''GITHUB_STEP_SUMMARY'')) =
   Inr (''/ws/.coldstep-events.jsonl'', ''/ws/base'', ''/ws/sum'')"
proof -
  have s: "setting demo_diff_settings ''current'' (Join [getenvDefault (po_getenv demo_stop_os) ''GITHUB_WORKSPACE'' ''.'', ''.coldstep-events.jsonl'']) = ''/ws/.coldstep-events.jsonl''"
    "setting demo_diff_settings ''baseline'' [] = ''/ws/base''" "setting demo_diff_settings ''summary'' (po_getenv demo_stop_os ''GITHUB_STEP_SUMMARY'') = ''/ws/sum''"
    by code_simp+
  have "safePathRE ''/ws/.coldstep-events.jsonl''" "Abs (Some ''/ws'') ''/ws/.coldstep-events.jsonl'' = Some ''/ws/.coldstep-events.jsonl''"
    "hasPrefix ''/ws/.coldstep-events.jsonl'' ''/ws''" "safePathRE ''/ws/base''" "Abs (Some ''/ws'') ''/ws/base'' = Some ''/ws/base''"
    "hasPrefix ''/ws/base'' ''/ws''" "safePathRE ''/ws/sum''" "Abs (Some ''/ws'') ''/ws/sum'' = Some ''/ws/sum''" "hasPrefix ''/ws/sum'' ''/ws''"
    by code_simp+
  then show ?thesis
    by (simp only: s diff_paths_def Let_def demo_workspace sum.case)
qed

lemma demo_domains:
  "ag_domains (fst (Parse_events (\<lambda>s. s) demo_stream None)) = [''evil.example'']" "ag_domains (fst (Parse_events (\<lambda>s. s) [] None)) = []"
proof -
  have "ag_domains (split_parse maxEventLineBytes (\<lambda>s. s) (splitOn (CHR 0x0A) demo_stream) new_aggregate) = [''evil.example'']"
    "ag_domains (split_parse maxEventLineBytes (\<lambda>s. s) (splitOn (CHR 0x0A) []) new_aggregate) = []"
    by code_simp+
  then show "ag_domains (fst (Parse_events (\<lambda>s. s) demo_stream None)) = [''evil.example'']" "ag_domains (fst (Parse_events (\<lambda>s. s) [] None)) = []"
    by (simp_all only: Parse_events_def parse_loop_split fst_conv)
qed

theorem diff_gate_witness:
  "fst (runDiff (\<lambda>s. s) demo_stop_os demo_diff_args) = Some (NewDomains 1) \<and>
   (\<exists>c b. parseAggregateFile (\<lambda>s. s) demo_stop_os ''/ws/.coldstep-events.jsonl'' = Some c \<and>
      parseAggregateFile (\<lambda>s. s) demo_stop_os ''/ws/base'' = Some b \<and> card (set (ag_domains c) - set (ag_domains b)) = 1)"
proof -
  have fs: "flag_parse diff_flags demo_diff_args = Inr demo_diff_settings" "bool_setting demo_diff_settings ''fail-on-new-domain'' False"
    "TrimSpace (setting demo_diff_settings ''summary'' (po_getenv demo_stop_os ''GITHUB_STEP_SUMMARY'')) \<noteq> []"
    "TrimSpace (setting demo_diff_settings ''baseline'' []) \<noteq> []"
    by code_simp+
  let ?c = "fst (Parse_events (\<lambda>s. s) demo_stream None)" and ?b = "fst (Parse_events (\<lambda>s. s) [] None)"
  have f: "parseAggregateFile (\<lambda>s. s) demo_stop_os ''/ws/.coldstep-events.jsonl'' = Some ?c"
    "parseAggregateFile (\<lambda>s. s) demo_stop_os ''/ws/base'' = Some ?b"
    by (simp_all add: parseAggregateFile_def demo_stop_os_def Parse_events_def)
  have d: "DiffDomains (po_domains demo_stop_os) ?c ?b = ([''evil.example''], [])" "po_fails demo_stop_os = (\<lambda>e. False)" "iterates (po_domains demo_stop_os)"
    by (simp_all add: DiffDomains_def demo_domains iterates_def) (simp_all add: demo_stop_os_def)
  have r: "fst (runDiff (\<lambda>s. s) demo_stop_os demo_diff_args) = Some (NewDomains 1)"
    unfolding runDiff_def Let_def fs(1) sum.case demo_diff_paths eqTrueI [OF fs(2)] compare_runs_def prod.case f option.case d
    using fs(3,4) by simp
  obtain acts where run: "runDiff (\<lambda>s. s) demo_stop_os demo_diff_args = (Some (NewDomains 1), acts)"
    using r by (cases "runDiff (\<lambda>s. s) demo_stop_os demo_diff_args") simp
  show ?thesis
    using diff_gate [OF fs(1,2) d(3) run, of 1] r demo_diff_paths by auto
qed

text \<open>A stop that finds the agent not ready returns before it signals it.\<close>

lemma not_ready_not_signalled:
  "runStop ul (demo_stop_os\<lparr>po_file := (\<lambda>p. if p = ''/ws/.coldstep.pid'' then Some ''7'' else None)\<rparr>) (demo_stop_cfg\<lparr>tc_FailOnError := True\<rparr>) =
     (Some AgentNotReady, [])"
proof -
  have "Join [''/ws'', ''.coldstep-ready.json''] \<noteq> ''/ws/.coldstep.pid''" "TrimSpace ''/ws'' = ''/ws''"
    by code_simp+
  then show ?thesis
    by (simp add: runStop_def ready_enough_def demo_stop_os_def demo_stop_cfg_def stop_baseDir_def getenvDefault_def Let_def readReady_def)
qed

end
