(* ===== verification/Spec2Isabelle.thy ===== *)
theory Spec2Isabelle
  imports Integrity RingReaders Digest Loader FrontStop
begin

text \<open>
  \<^bold>\<open>coldstep\<close> watches, and in defend mode confines, the network egress of a CI job. An agent loads eBPF programs, turns
  the operator's allow list into the contents of kernel maps, reads the records the programs emit and writes them to an
  event log; a command line front end starts and stops the agent and renders the log as a report. The theories follow
  this path, one per component, with the names of the Go and C sources.

  \<^bold>\<open>Parts and their theories.\<close>

  \<^item> \<^emph>\<open>Language and library.\<close> \<open>Prelude\<close> (bytes, sets and maps as lists, endian reads and writes), \<open>GoText\<close>
    (\<^verbatim>\<open>strings\<close>, \<^verbatim>\<open>unicode\<close>), \<open>GoNet\<close> (\<^verbatim>\<open>net\<close>, \<^verbatim>\<open>net/netip\<close>: literals, masks, CIDR), \<open>Json\<close> (\<^verbatim>\<open>encoding/json\<close>,
    with the round trip of what is printed).
  \<^item> \<^emph>\<open>Inputs.\<close> \<open>Paths\<close> (\<^verbatim>\<open>internal/safepath\<close>, \<^verbatim>\<open>internal/cgroup\<close>), \<open>AllowInputs\<close>
    (\<^verbatim>\<open>internal/actioncli/allowlist_files.go\<close>, \<^verbatim>\<open>cmd/coldstep/validate.go\<close>), \<open>Config\<close> (\<^verbatim>\<open>internal/config\<close>).
  \<^item> \<^emph>\<open>Policy.\<close> \<open>AddrSets\<close>, \<open>Policy\<close> and \<open>Allowlist\<close> (\<^verbatim>\<open>internal/policy\<close>): parsing, merging, classification, and the
    compilation of domains into addresses.
  \<^item> \<^emph>\<open>Enforcement.\<close> \<open>BpfMap\<close> (the contract of the maps), \<open>LpmMaps\<close> (\<^verbatim>\<open>agent_linux_policy_maps.go\<close>,
    \<^verbatim>\<open>defend_rearm.go\<close>: loading and reconciling the tries), \<open>Integrity\<close> (\<^verbatim>\<open>agent_linux_integrity.go\<close>), \<open>DefendBpf\<close>
    (the hooks under \<^verbatim>\<open>bpf/\<close>), \<open>Loader\<close> (\<^verbatim>\<open>internal/bpf/defend/loader.go\<close>).
  \<^item> \<^emph>\<open>Observation.\<close> \<open>DnsWire\<close>, \<open>DnsCache\<close>, \<open>TlsHello\<close>, \<open>TlsReassembler\<close>, \<open>KtlsTracker\<close>, \<open>Sanitize\<close>, \<open>HttpSniff\<close>,
    \<open>Decode\<close> parse what the kernel hands over; \<open>RunStats\<close>, \<open>Events\<close>, \<open>DefendState\<close>, \<open>Pipeline\<close> and \<open>RingReaders\<close> hold the
    agent's state and the handler of every ring buffer; \<open>Digest\<close> is what the agent derives at shutdown.
  \<^item> \<^emph>\<open>Front end.\<close> \<open>Flags\<close> (command lines as the \<^verbatim>\<open>flag\<close> package reads them), \<open>Supervise\<close> (readiness, waits and the search
    for the agent's process), \<open>FrontEnd\<close> (\<^verbatim>\<open>start\<close>), \<open>Truncate\<close> and \<open>FrontStop\<close> (\<^verbatim>\<open>stop\<close>, \<^verbatim>\<open>diff\<close>,
    \<^verbatim>\<open>assert-integrity\<close> and the dispatch): \<^verbatim>\<open>internal/actioncli\<close>, \<^verbatim>\<open>cmd/coldstep/main.go\<close>.
  \<^item> \<^emph>\<open>Log and report.\<close> \<open>Encode\<close> (\<^verbatim>\<open>internal/telemetry\<close>: JSON lines and their signing), \<open>Report\<close> and \<open>Render\<close>
    (\<^verbatim>\<open>internal/report/markdown\<close>).

  \<^bold>\<open>State and operations.\<close> A Go struct is a record, a method a function that takes the record and returns it updated, an
  error a value of a sum type, \<^verbatim>\<open>nil\<close> a value of an option type. Go maps are association lists without repeated keys; where
  the code ranges over a map the order is an argument constrained only by \<open>iterates\<close>, so a theorem holds for every order.
  Fixed-width integers of records and wire formats are words; counters of type \<^verbatim>\<open>int\<close> are \<open>int\<close>. Each handler runs under
  the lock of its state, so concurrent readers are lists of records in any order (\<open>RingReaders\<close>). A subcommand of the front
  end is a function from the answers of the operating system to its error and the list of its effects in order; a waiting
  loop is a function of the list of rounds it saw, with \<open>None\<close> when the list ends before the loop.

  \<^bold>\<open>Parameters.\<close> Clocks, the environment, the contents of files, the resolver, \<^verbatim>\<open>EvalSymlinks\<close>, the kernel's loading of a
  collection, the Ed25519 signature, \<^verbatim>\<open>url.Parse\<close>, the reading of numbers as floats and Unicode case mapping beyond ASCII are arguments. The eBPF maps are reached through
  the locales \<open>bpf_map\<close> (\<open>BpfMap\<close>), \<open>lpm_store\<close> (\<open>LpmMaps\<close>), \<open>lpm_trie\<close> (\<open>DefendBpf\<close>) and \<open>owner_map\<close> (\<open>DnsCache\<close>), which
  state the documented behaviour of lookup, update, delete and iteration and are interpreted on executable maps and tries.

  \<^bold>\<open>What is shown.\<close>

  \<^item> Enforcement means what the policy says: from operator text through compiled addresses and map contents to the verdict
    of the connect hook (\<open>enforced_verdict\<close>); tampering with the maps is healed by the next ticks of the watch; start-up
    and the watch agree on the keys; a loaded collection is complete and a failed load forgets no handle; the agent
    accepts what the start has checked and enforces the same policy (\<open>agent_accepts_start\<close>).
  \<^item> Nothing is lost silently: every counted event is a line of the log or a counted loss, the lines are in sequence, the
    counters add up, denies are folded only as specified, and a blocked connection reaches the log (\<open>blocked_is_logged\<close>)
    and the report (\<open>log_is_reported\<close>); a start leaves no agent it does not vouch for, a stop writes the report before its
    gates decide, and the gates decide exactly.
  \<^item> Untrusted bytes do no harm: parsers stay within their input and end, texts in the log have no control characters,
    rows of the report keep their cells, paths stay under their roots, caches stay within their capacity.
  \<^item> Round trips of DNS names, ClientHello records, deny records, JSON values and signed lines.

  \<^bold>\<open>Bounds and termination.\<close> All functions are total; loops that are not structural have a termination proof by a measure
  (remaining input, remaining fuel of compression pointers, remaining path); the search for the agent's process has the
  source's bound of 256 steps, shown to be enough for families of that size, and the waits are shown to end once their
  rounds, each a sleep apart, pass the deadline. Limits such as 4 MiB for a line of the log or 64 KiB for its buffer are the constants of the source.

  \<^bold>\<open>Not modelled.\<close> The agent's run loop with its goroutines, attachment of programs and signal handling; probes of
  \<^verbatim>\<open>/proc\<close> and kernel features; the redaction of request paths, whose regular expressions are a parameter of the HTTP reader;
  the eBPF programs other than the verdicts of the defend hooks; the meta event and the summary file; code generation and
  the stubs for other operating systems. These are operating system effects or wrappers around generated code without
  decisions of their own beyond those modelled.
\<close>

text \<open>C1. End to end: once a parsed policy and a compiled allowlist have been loaded into fresh maps, the
  kernel's connect hook lets an IPv4 destination through exactly when it is loopback or unspecified,
  or is covered by an ignored network the maps can carry, or is a compiled domain address, a literal
  address or inside an allowed network, or its cached DNS owner is one of the exact hosts.\<close>

theorem enforced_verdict:
  assumes pol: "BuildPolicyEx ul h i g md = Inr p"
    and compiled: "compiled = CompileDomainAllowlist ul env now ds attempts"
    and load: "loadDefendMapsForBackend ops compiled (Some p) maps = (maps', Inr r)"
    and cfg: "bpf_map id cinv cents (b_cfg ops)" "cinv (dm_cfg maps)"
    and tries: "lpm_trie invar ents (b_lpm ops)"
    and al: "dm_allowed maps = Some ma" "invar ma" "ents ma = []"
    and ig: "dm_ignored maps = Some mi" "invar mi" "ents mi = []"
    and dom: "bpf_map id dinv dents (b_dom ops)" "dinv (dm_domains maps)" "dents (dm_domains maps) = []"
    and kernel: "kernel_reads cents ents dents maps' v"
    and a: "length a = 4"
  shows "allowed (defend_cgroup_sock_addr_ipv4 v pr a dp) \<longleftrightarrow> a ! 0 = 127 \<or> a = [0, 0, 0, 0] \<or>
    (\<exists>n. Some n \<in> set (ignored p) \<and> length (net_mask n) = 4 \<and> IPNet_Contains n a) \<or>
    IPv4Set_Contains (AllowedIPv4 compiled) a \<or> a \<in> set (ips p) \<or> NetsContains (nets p) a \<or>
    (\<exists>host. host \<in> set (AllowedDomains (Some p)) \<and> v_owner v a = Some (copy_into 256 (sbytes host)))"
proof -
  have wf: "wf_policy p" "list_all wf_ignored (ignored p)" "wf_v4set (AllowedIPv4 compiled)"
    using BuildPolicyEx_wf [OF pol] Compile_wf(1) by (simp_all add: compiled)
  obtain al' ig' where m: "dm_allowed maps' = Some al'" "dm_ignored maps' = Some ig'"
    "fst ` set (ents al') = set (expectedAllowedKeys compiled (Some p))"
    "fst ` set (ents ig') = set (expectedIgnoredKeys (Some p))"
    "\<forall>n. Some n \<in> set (nets p) \<longrightarrow> (\<exists>l. is_net4 l n)"
    using loadDefendMaps_tries [OF tries load al ig wf] by blast
  note cd = loadDefendMaps_cfg_domains [OF load cfg dom]
  have "v_allowed v a = lpm_hit (expectedAllowedKeys compiled (Some p)) a"
    "v_ignored v a = lpm_hit (expectedIgnoredKeys (Some p)) a"
    using kernel m(1,2) lpm_hit_set [of "map fst (ents al')"] lpm_hit_set [of "map fst (ents ig')"] m(3,4)
    by (simp_all add: kernel_reads_def)
  moreover have "defense_enabled v" "v_domain v d \<longleftrightarrow> (\<exists>host \<in> set (AllowedDomains (Some p)). d = copy_into 256 (sbytes host))" for d
    using kernel cd by (auto simp: kernel_reads_def defense_enabled_def)
  moreover have "be32 a 0 = 0 \<longleftrightarrow> a = [0, 0, 0, 0]"
    using list4 [OF a] by (auto simp: be32_0)
  ultimately show ?thesis
    unfolding ipv4_hook_allows lpm_hit_expectedAllowed [OF wf(1,3) a m(5)] lpm_hit_expectedIgnored [OF wf(2) a]
    by auto
qed

text \<open>A small configuration, loaded into reference maps.\<close>

definition demo_policy :: policy where
  "demo_policy = (case BuildPolicyEx (\<lambda>s. s) ''github.com *.example.org'' ''192.168.0.0/16 1.1.1.1'' ''169.254.0.0/16'' False
     of Inr p \<Rightarrow> p | Inl _ \<Rightarrow> empty_policy)"

definition demo_env :: env where
  "demo_env = \<lparr>lk4 = (\<lambda>d k. LookOk [[140, 82, 112, 4]]), lk6 = (\<lambda>d k. LookErr), gctx = (\<lambda>d k i. False)\<rparr>"

definition demo_ops :: "((32 word \<times> 32 word) list, (bytes \<times> byte) list, (bytes \<times> byte) list) backend_ops" where
  "demo_ops = \<lparr>b_cfg = list_map id, b_lpm = list_map lpm_canon, b_dom = list_map id\<rparr>"

definition demo_maps :: "((32 word \<times> 32 word) list, (bytes \<times> byte) list, (bytes \<times> byte) list) defendMapSet" where
  "demo_maps = \<lparr>dm_cfg = [], dm_ignored = Some [], dm_allowed = Some [], dm_domains = []\<rparr>"

definition demo_loaded where
  "demo_loaded = fst (loadDefendMapsForBackend demo_ops
     (CompileDomainAllowlist (\<lambda>s. s) demo_env 0 [''github.com''] 2) (Some demo_policy) demo_maps)"

definition demo_view :: bpf_view where
  "demo_view = \<lparr>v_mode = map_of (dm_cfg demo_loaded) 0,
     v_allowed = lpm_hit (map fst (the (dm_allowed demo_loaded))),
     v_ignored = lpm_hit (map fst (the (dm_ignored demo_loaded))), v_allowed6 = (\<lambda>_. False),
     v_owner = (\<lambda>_. None), v_domain = (\<lambda>d. d \<in> fst ` set (dm_domains demo_loaded))\<rparr>"

theorem enforced_verdict_witness:
  "allowed (defend_cgroup_sock_addr_ipv4 demo_view 6 [192, 168, 7, 7] 443) \<and>
   allowed (defend_cgroup_sock_addr_ipv4 demo_view 6 [140, 82, 112, 4] 443) \<and>
   \<not> allowed (defend_cgroup_sock_addr_ipv4 demo_view 6 [93, 184, 216, 34] 443)"
proof -
  let ?c = "CompileDomainAllowlist (\<lambda>s. s) demo_env 0 [''github.com''] 2"
  have pol: "BuildPolicyEx (\<lambda>s. s) ''github.com *.example.org'' ''192.168.0.0/16 1.1.1.1'' ''169.254.0.0/16'' False
      = Inr demo_policy"
    by code_simp
  have "\<not> isl (snd (loadDefendMapsForBackend demo_ops ?c (Some demo_policy) demo_maps))"
    by code_simp
  then obtain r where load: "loadDefendMapsForBackend demo_ops ?c (Some demo_policy) demo_maps = (demo_loaded, Inr r)"
    unfolding demo_loaded_def by (metis isl_def prod.collapse sum.collapse(2))
  have k: "kernel_reads (\<lambda>es. es) (\<lambda>es. es) (\<lambda>es. es) demo_loaded demo_view"
    by (simp add: kernel_reads_def demo_view_def)
  note e = enforced_verdict [OF pol refl load _ _ _ _ _ _ _ _ _ _ _ _ k, where cinv = "list_invar id"
      and invar = "list_invar lpm_canon" and dinv = "list_invar id" and ma = "[]" and mi = "[]" and pr = 6 and dp = 443]
  have v: "allowed (defend_cgroup_sock_addr_ipv4 demo_view 6 a 443) \<longleftrightarrow> a ! 0 = 127 \<or> a = [0, 0, 0, 0] \<or>
    (\<exists>n. Some n \<in> set (ignored demo_policy) \<and> length (net_mask n) = 4 \<and> IPNet_Contains n a) \<or>
    IPv4Set_Contains (AllowedIPv4 ?c) a \<or> a \<in> set (ips demo_policy) \<or> NetsContains (nets demo_policy) a"
    if "length a = 4" for a
    using e [of a] that
    by (simp add: demo_ops_def demo_maps_def list_invar_def demo_view_def list_map_contract trie_ref.lpm_trie_axioms)
  have i: "(\<exists>n. Some n \<in> set ns \<and> P n) \<longleftrightarrow> list_ex (\<lambda>x. case x of None \<Rightarrow> False | Some n \<Rightarrow> P n) ns"
    for P and ns :: "ipnet option list"
    by (force simp: list_ex_iff split: option.splits)
  have "NetsContains (nets demo_policy) [192, 168, 7, 7]" "IPv4Set_Contains (AllowedIPv4 ?c) [140, 82, 112, 4]"
    "\<not> (list_ex (\<lambda>x. case x of None \<Rightarrow> False | Some n \<Rightarrow> length (net_mask n) = 4 \<and> IPNet_Contains n [93, 184, 216, 34])
        (ignored demo_policy) \<or> IPv4Set_Contains (AllowedIPv4 ?c) [93, 184, 216, 34] \<or>
      [93, 184, 216, 34] \<in> set (ips demo_policy) \<or> NetsContains (nets demo_policy) [93, 184, 216, 34])"
    by code_simp+
  then show ?thesis
    unfolding i [symmetric] by (simp add: v)
qed

lemma IP_String_mapped: "length a = 4 \<Longrightarrow> IP_String (v4InV6Prefix @ a) = IP_String a"
  by (cases a) (simp_all add: IP_String_def To4_def v4InV6Prefix_def)

lemma deny_reaches_log:
  assumes "decodeDenyEvent raw = Some (tgid, tid, comm, protocol, 1, 2, a @ pad, dport)" "length a = 4"
    and "cfg_EventsLogPath cfg \<noteq> []" "\<And>e. ok e" "dw_state w = Some s" "ds_denyDedup s = []"
  shows "\<exists>d. lines (dw_sink (processDenyRingSample ok cfg raw family dns clock w)) = lines (dw_sink w) @ [JDenyEvent d] \<and>
    dn_TGID d = tgid \<and> dn_ThreadID d = tid \<and> dn_Dst d = IP_String a \<and> dn_Dport d = dport \<and>
    dn_Protocol d = denyProtocolLabel protocol \<and> dn_Reason d = ''dst_not_allowlisted'' \<and>
    dn_Comm d = SanitizeField (nullTermStr comm) 16 \<and> dn_Seq d = next_seq (dw_sink w) + 1"
proof -
  obtain now ts where clock: "clock = (now, ts)"
    by (cases clock)
  have "v4InV6Prefix @ take 4 (a @ pad) = v4InV6Prefix @ a"
    using assms(2) by simp
  then obtain k where d: "deny_event_of cfg raw family dns clock =
      Inr (deny_line cfg ts family k (tgid, tid, comm, protocol, 1, 2, a @ pad, dport) (IP_String a))"
    using assms(1,2) by (simp add: deny_event_of_def deny_dst_def clock IP_String_mapped Let_def)
  have e: "shouldEmitDeny key family now (Some s) =
      (True, Some (s\<lparr>ds_denyDedup := [(key, \<lparr>dd_family = family, dd_nano = now\<rparr>)]\<rparr>))" for key
    using assms(6) by (simp add: shouldEmitDeny_def is_twin_def denyDedupMaxEntries_def)
  show ?thesis
    using assms(3-5) e by (simp add: processDenyRingSample_def appendDenyFromRaw_def d [unfolded clock] emit_deny_def clock AppendJSONL_def
        Next_def deny_line_def denyReasonLabel_def)
qed



definition closed_view :: bpf_view where
  "closed_view = \<lparr>v_mode = Some 1, v_allowed = (\<lambda>a. False), v_ignored = (\<lambda>a. False), v_allowed6 = (\<lambda>a. False),
     v_owner = (\<lambda>a. None), v_domain = (\<lambda>d. False)\<rparr>"


end
